(* ===== verification/Prelude.thy ===== *)
theory Prelude
  imports Main "HOL-Library.Word" "HOL-Library.AList" "HOL-Library.Sublist"
begin

text \<open>
  Shared vocabulary of the development: the machine types of the Rust code,
  byte strings and their big-endian fields, hash maps as association lists with
  distinct keys, decimal printing, and the generic lemmas the component
  theories rely on.

  Conventions.
  \<^item> A Rust \<open>String\<close> is the list of its UTF-8 bytes; a HOL \<open>char\<close>
    is one byte, so \<open>length\<close> is \<open>str::len\<close>.
  \<^item> \<open>u8/u16/u32/u64/usize\<close> values that are encoded, or that wrap, are
    words of their width (a 64-bit target is assumed for \<open>usize\<close>); sizes
    of collections are \<open>nat\<close>.
  \<^item> \<open>i64\<close> values are \<open>int\<close>, with saturation and wrap-around written
    out by \<open>sat_i64\<close> and \<open>wrap_i64\<close>.
  \<^item> A \<open>HashMap\<close>, \<open>DashMap\<close> or \<open>BTreeMap\<close> is an association list; its
    well-formedness is that its keys are distinct.
\<close>

section \<open>Types and theorem collections\<close>

type_synonym byte = "8 word"
type_synonym bytes = "8 word list"
type_synonym u16 = "16 word"
type_synonym u32 = "32 word"
type_synonym u64 = "64 word"
type_synonym usize = "64 word"
type_synonym i64 = int
type_synonym ('k, 'v) hmap = "('k \<times> 'v) list"

named_theorems hmap_simps \<open>lookup, size and key facts of the hash-map operations\<close>
named_theorems keeps \<open>operations keep a component's invariant\<close>

section \<open>Signed 64-bit integers\<close>

definition i64_min :: int where "i64_min = - (2 ^ 63)"

definition i64_max :: int where "i64_max = 2 ^ 63 - 1"

definition i64_ok :: "int \<Rightarrow> bool" where
  "i64_ok x \<longleftrightarrow> i64_min \<le> x \<and> x \<le> i64_max"

text \<open>The two's complement reading of the low 64 bits.\<close>

definition wrap_i64 :: "int \<Rightarrow> int" where
  "wrap_i64 x = (x + 2 ^ 63) mod 2 ^ 64 - 2 ^ 63"

definition sat_i64 :: "int \<Rightarrow> int" where
  "sat_i64 x = (if x < i64_min then i64_min else if i64_max < x then i64_max else x)"

lemmas i64_defs = i64_ok_def i64_min_def i64_max_def wrap_i64_def sat_i64_def

lemma wrap_i64_id [simp]: "i64_ok x \<Longrightarrow> wrap_i64 x = x"
  by (simp add: i64_defs)

lemma wrap_i64_ok [simp]: "i64_ok (wrap_i64 x)"
proof -
  have "(x + 2 ^ 63) mod 2 ^ 64 < (2 ^ 64 :: int)" by (rule pos_mod_bound) simp
  moreover have "0 \<le> (x + 2 ^ 63) mod (2 ^ 64 :: int)" by (rule pos_mod_sign) simp
  ultimately show ?thesis by (simp add: i64_defs)
qed

lemma sat_i64_ok [simp]: "i64_ok (sat_i64 x)"
  by (simp add: i64_defs)

lemma sat_i64_id [simp]: "i64_ok x \<Longrightarrow> sat_i64 x = x"
  by (simp add: i64_defs)

lemma sat_i64_mono: "x \<le> y \<Longrightarrow> sat_i64 x \<le> sat_i64 y"
  by (simp add: i64_defs)

section \<open>Big-endian byte fields\<close>

text \<open>\<open>to_be_bytes\<close> of an unsigned integer of \<open>n\<close> bytes, and \<open>from_be_bytes\<close>.\<close>

fun be_bytes :: "nat \<Rightarrow> nat \<Rightarrow> bytes" where
  "be_bytes 0 v = []"
| "be_bytes (Suc n) v = be_bytes n (v div 256) @ [word_of_nat v]"

definition from_be :: "bytes \<Rightarrow> nat" where
  "from_be bs = foldl (\<lambda>acc b. acc * 256 + unat b) 0 bs"

lemma length_be_bytes [simp]: "length (be_bytes n v) = n"
  by (induction n arbitrary: v) auto

lemma from_be_Nil [simp]: "from_be [] = 0"
  by (simp add: from_be_def)

lemma from_be_snoc [simp]: "from_be (bs @ [b]) = from_be bs * 256 + unat b"
  by (simp add: from_be_def)

lemma unat_lt_2p: "unat (w :: 'a::len word) < 2 ^ LENGTH('a)"
  by (rule unsigned_less)

lemma unat_inc_less: "(a :: 'a::len word) < b \<Longrightarrow> unat (a + 1) = Suc (unat a)"
proof -
  assume "a < b"
  then have "Suc (unat a) \<le> unat b" by (simp add: word_less_nat_alt)
  also have "\<dots> < 2 ^ LENGTH('a)" by (rule unat_lt_2p)
  finally show ?thesis by (simp add: unat_word_ariths)
qed

lemma unat_minus_one_u64: "unat (- 1 :: u64) = 2 ^ 64 - 1"
  by (simp add: unsigned_minus_1_eq_mask mask_eq_exp_minus_1)

lemma unat_byte_of_nat [simp]: "unat (word_of_nat v :: byte) = v mod 256"
  by (simp add: unat_of_nat)

lemma from_be_be_bytes: "from_be (be_bytes n v) = v mod 256 ^ n"
proof (induction n arbitrary: v)
  case (Suc n)
  have "v mod 256 ^ Suc n = 256 * (v div 256 mod 256 ^ n) + v mod 256"
    by (simp add: mod_mult2_eq)
  then show ?case using Suc by simp
qed simp

lemma be_bytes_from_be: "be_bytes (length bs) (from_be bs) = bs"
proof (induction bs rule: rev_induct)
  case (snoc b bs)
  have lt: "unat b < 256" using unat_lt_2p [of b] by simp
  have "word_of_nat (from_be bs * 256 + unat b) = (word_of_nat (from_be bs) * 256 + b :: byte)"
    by simp
  also have "(256 :: byte) = 0" by simp
  finally have "word_of_nat (from_be bs * 256 + unat b) = b" by simp
  with lt snoc show ?case by simp
qed simp

lemma from_be_bound: "from_be bs < 256 ^ length bs"
  using from_be_be_bytes [of "length bs" "from_be bs"]
  by (simp add: be_bytes_from_be) (metis mod_less_divisor zero_less_numeral zero_less_power)

text \<open>Field widths used by the wire format.\<close>

lemma from_be_word16 [simp]: "from_be (be_bytes 2 (unat (w :: u16))) = unat w"
  using unat_lt_2p [of w] by (simp add: from_be_be_bytes)

lemma from_be_word32 [simp]: "from_be (be_bytes 4 (unat (w :: u32))) = unat w"
  using unat_lt_2p [of w] by (simp add: from_be_be_bytes)

lemma from_be_word64 [simp]: "from_be (be_bytes 8 (unat (w :: u64))) = unat w"
  using unat_lt_2p [of w] by (simp add: from_be_be_bytes)

text \<open>\<open>i64::to_be_bytes\<close> and \<open>i64::from_be_bytes\<close>.\<close>

definition i64_be_bytes :: "int \<Rightarrow> bytes" where
  "i64_be_bytes x = be_bytes 8 (nat (x mod 2 ^ 64))"

definition i64_from_be :: "bytes \<Rightarrow> int" where
  "i64_from_be bs = wrap_i64 (int (from_be bs))"

lemma length_i64_be_bytes [simp]: "length (i64_be_bytes x) = 8"
  by (simp add: i64_be_bytes_def)

lemma i64_from_be_ok [simp]: "i64_ok (i64_from_be bs)"
  by (simp add: i64_from_be_def)

lemma wrap_i64_mod [simp]: "wrap_i64 (x mod 2 ^ 64) = wrap_i64 x"
  unfolding wrap_i64_def by (simp only: mod_add_left_eq)

lemma wrap_i64_mod_eq: "wrap_i64 x mod 2 ^ 64 = x mod 2 ^ 64"
  unfolding wrap_i64_def by (simp only: mod_diff_left_eq) simp

lemma i64_from_be_bytes: "i64_ok x \<Longrightarrow> i64_from_be (i64_be_bytes x) = x"
proof -
  assume ok: "i64_ok x"
  have nn: "0 \<le> x mod (2 ^ 64 :: int)" by simp
  have "nat (x mod 2 ^ 64) < nat (2 ^ 64 :: int)"
    by (subst nat_less_eq_zless) simp_all
  then have "int (nat (x mod 2 ^ 64) mod 256 ^ 8) = x mod 2 ^ 64" using nn by simp
  then show ?thesis
    using ok by (simp only: i64_from_be_def i64_be_bytes_def from_be_be_bytes wrap_i64_mod wrap_i64_id)
qed

lemma i64_be_bytes_from_be: "length bs = 8 \<Longrightarrow> i64_be_bytes (i64_from_be bs) = bs"
proof -
  assume l: "length bs = 8"
  have "from_be bs < 2 ^ 64" using from_be_bound [of bs] l by simp
  then have "nat (int (from_be bs) mod 2 ^ 64) = from_be bs"
    by (simp add: nat_mod_distrib nat_power_eq)
  then show ?thesis
    using be_bytes_from_be [of bs] l
    by (simp only: i64_be_bytes_def i64_from_be_def wrap_i64_mod_eq)
qed

section \<open>Strings\<close>

text \<open>\<open>str::as_bytes\<close>, and decimal printing as done by \<open>format!\<close>.\<close>

definition as_bytes :: "string \<Rightarrow> bytes" where
  "as_bytes s = map of_char s"

lemma length_as_bytes [simp]: "length (as_bytes s) = length s"
  by (simp add: as_bytes_def)

lemma as_bytes_append [simp]: "as_bytes (s @ t) = as_bytes s @ as_bytes t"
  by (simp add: as_bytes_def)

lemma unat_of_char_byte: "unat (of_char x :: byte) = of_char x"
proof -
  have "unat (word_of_nat (of_char x) :: byte) = of_char x mod 256" by (rule unat_byte_of_nat)
  then show ?thesis by (simp only: of_nat_of_char of_char_mod_256)
qed

lemma of_char_byte_inj: "(of_char c :: byte) = of_char d \<Longrightarrow> c = d"
  by (drule arg_cong [where f = unat]) (simp only: unat_of_char_byte of_char_eq_iff)

lemma as_bytes_inj: "as_bytes s = as_bytes t \<Longrightarrow> s = t"
  unfolding as_bytes_def by (rule map_injective) (auto intro: injI of_char_byte_inj)

definition digit :: "nat \<Rightarrow> char" where
  "digit d = char_of (48 + d)"

fun dec :: "nat \<Rightarrow> string" where
  "dec n = (if n < 10 then [digit n] else dec (n div 10) @ [digit (n mod 10)])"

declare dec.simps [simp del]

definition dec_int :: "int \<Rightarrow> string" where
  "dec_int x = (if x < 0 then CHR ''-'' # dec (nat (- x)) else dec (nat x))"

section \<open>Hash maps\<close>

text \<open>\<open>get\<close>, \<open>insert\<close>, \<open>remove\<close> and the keys of a hash map.\<close>

declare map_of_eq_Some_iff [simp del] Some_eq_map_of_iff [simp del]

abbreviation hm_get :: "('k, 'v) hmap \<Rightarrow> 'k \<Rightarrow> 'v option" where
  "hm_get \<equiv> map_of"

abbreviation hm_put :: "'k \<Rightarrow> 'v \<Rightarrow> ('k, 'v) hmap \<Rightarrow> ('k, 'v) hmap" where
  "hm_put \<equiv> AList.update"

abbreviation hm_del :: "'k \<Rightarrow> ('k, 'v) hmap \<Rightarrow> ('k, 'v) hmap" where
  "hm_del \<equiv> AList.delete"

abbreviation hm_keys :: "('k, 'v) hmap \<Rightarrow> 'k list" where
  "hm_keys m \<equiv> map fst m"

abbreviation hm_wf :: "('k, 'v) hmap \<Rightarrow> bool" where
  "hm_wf m \<equiv> distinct (map fst m)"

text \<open>\<open>entry(k).or_insert(v)\<close>, and a lookup with a default.\<close>

definition hm_or_insert :: "'k \<Rightarrow> 'v \<Rightarrow> ('k, 'v) hmap \<Rightarrow> ('k, 'v) hmap" where
  "hm_or_insert k v m = (case map_of m k of None \<Rightarrow> AList.update k v m | Some _ \<Rightarrow> m)"

definition hm_get_or :: "'v \<Rightarrow> ('k, 'v) hmap \<Rightarrow> 'k \<Rightarrow> 'v" where
  "hm_get_or d m k = (case map_of m k of None \<Rightarrow> d | Some v \<Rightarrow> v)"

lemma hm_get_put [simp, hmap_simps]:
  "map_of (AList.update k v m) k' = (if k' = k then Some v else map_of m k')"
  by (simp add: update_conv')

lemma hm_get_del [simp, hmap_simps]:
  "map_of (AList.delete k m) k' = (if k' = k then None else map_of m k')"
  by (simp add: delete_conv')

lemma hm_wf_put [simp, hmap_simps]: "hm_wf m \<Longrightarrow> hm_wf (AList.update k v m)"
  by (rule distinct_update)

lemma hm_wf_del [simp, hmap_simps]: "hm_wf m \<Longrightarrow> hm_wf (AList.delete k m)"
  by (rule distinct_delete)

lemma hm_wf_filter [simp, hmap_simps]: "hm_wf m \<Longrightarrow> hm_wf (filter P m)"
  by (simp add: distinct_map_filter)

lemma hm_keys_put: "set (hm_keys (AList.update k v m)) = insert k (set (hm_keys m))"
  by (simp add: dom_update)

lemma hm_keys_del: "set (hm_keys (AList.delete k m)) = set (hm_keys m) - {k}"
  by (simp only: delete_keys set_removeAll)

lemma hm_length_put [hmap_simps]:
  "length (AList.update k v m) = (if map_of m k = None then Suc (length m) else length m)"
  by (induction m) (auto simp: map_of_eq_None_iff)

lemma hm_length_del_le [hmap_simps]: "length (AList.delete k m) \<le> length m"
  by (rule length_delete_le)

lemma hm_length_del:
  "hm_wf m \<Longrightarrow> map_of m k = Some v \<Longrightarrow> Suc (length (AList.delete k m)) = length m"
proof (induction m)
  case (Cons p m)
  show ?case
  proof (cases "fst p = k")
    case True
    with Cons.prems have "k \<notin> fst ` set m" by auto
    then have "AList.delete k m = m" by (rule delete_id)
    with True show ?thesis by (cases p) simp
  next
    case False
    with Cons show ?thesis by (cases p) auto
  qed
qed simp

lemma hm_del_absent: "map_of m k = None \<Longrightarrow> AList.delete k m = m"
  by (simp add: map_of_eq_None_iff delete_id)

lemma hm_wf_or_insert [simp, hmap_simps]: "hm_wf m \<Longrightarrow> hm_wf (hm_or_insert k v m)"
  by (simp add: hm_or_insert_def split: option.split)

lemma hm_get_or_insert [simp, hmap_simps]:
  "map_of (hm_or_insert k v m) k' =
    (if k' = k then Some (hm_get_or v m k) else map_of m k')"
  by (auto simp: hm_or_insert_def hm_get_or_def split: option.split)

lemma hm_get_filter:
  "hm_wf m \<Longrightarrow> map_of (filter P m) k =
    (case map_of m k of None \<Rightarrow> None | Some v \<Rightarrow> if P (k, v) then Some v else None)"
proof (induction m)
  case (Cons p m)
  have "map_of m (fst p) = None" using Cons.prems by (simp add: map_of_eq_None_iff)
  with Cons show ?case by (cases p) (auto split: option.split)
qed simp

text \<open>\<open>retain\<close> on the values of a map, after mapping them.\<close>

lemma hm_keys_map_snd [simp]: "map fst (map (\<lambda>(k, v). (k, f k v)) m) = map fst m"
  by (induction m) auto

lemma hm_get_map_snd [simp]:
  "map_of (map (\<lambda>(k, v). (k, f k v)) m) k = map_option (f k) (map_of m k)"
  by (induction m) auto

text \<open>Removing a list of keys, one by one.\<close>

definition hm_del_all :: "'k list \<Rightarrow> ('k, 'v) hmap \<Rightarrow> ('k, 'v) hmap" where
  "hm_del_all ks m = foldl (\<lambda>m k. AList.delete k m) m ks"

lemma hm_del_all_filter: "hm_del_all ks m = filter (\<lambda>p. fst p \<notin> set ks) m"
proof (induction ks arbitrary: m)
  case (Cons k ks)
  have "hm_del_all (k # ks) m = hm_del_all ks (AList.delete k m)" by (simp add: hm_del_all_def)
  also have "\<dots> = filter (\<lambda>p. fst p \<notin> set ks) (AList.delete k m)" by (rule Cons.IH)
  also have "\<dots> = filter (\<lambda>p. fst p \<notin> set (k # ks)) m"
    by (auto simp: AList.delete_eq intro!: filter_cong)
  finally show ?case .
qed (simp add: hm_del_all_def)

lemma hm_del_all_filter_keys:
  "hm_wf m \<Longrightarrow> hm_del_all (map fst (filter P m)) m = filter (\<lambda>p. \<not> P p) m"
  unfolding hm_del_all_filter
proof (rule filter_cong [OF refl])
  fix p
  assume wf: "hm_wf m" and p: "p \<in> set m"
  have "fst p = fst q \<Longrightarrow> q \<in> set m \<Longrightarrow> p = q" for q
    using wf p by (auto simp: distinct_map dest: inj_onD)
  then show "(fst p \<notin> set (map fst (filter P m))) = (\<not> P p)" using p by auto
qed

lemma hm_wf_del_all [simp, hmap_simps]: "hm_wf m \<Longrightarrow> hm_wf (hm_del_all ks m)"
  by (simp add: hm_del_all_filter)

lemma hm_get_del_all [simp, hmap_simps]:
  "hm_wf m \<Longrightarrow> map_of (hm_del_all ks m) k = (if k \<in> set ks then None else map_of m k)"
  by (simp add: hm_del_all_filter hm_get_filter split: option.split)

section \<open>Collecting from a list one of whose elements changes\<close>

lemma map_filter_split:
  assumes "k < length xs"
  shows "List.map_filter f (xs[k := y]) =
    List.map_filter f (take k xs) @ (case f y of Some z \<Rightarrow> [z] | None \<Rightarrow> []) @ List.map_filter f (drop (Suc k) xs)"
  using assms by (simp add: upd_conv_take_nth_drop List.map_filter_def split: option.split)

lemma map_filter_same: "k < length xs \<Longrightarrow> f y = f (xs ! k) \<Longrightarrow> List.map_filter f (xs[k := y]) = List.map_filter f xs"
  using map_filter_split [of k xs f "xs ! k"] by (simp add: map_filter_split)

lemma map_filter_new:
  assumes "k < length xs" "f (xs ! k) = None" "f y = Some z"
  shows "set (List.map_filter f (xs[k := y])) = insert z (set (List.map_filter f xs))"
    "distinct (List.map_filter f (xs[k := y])) \<longleftrightarrow> z \<notin> set (List.map_filter f xs) \<and> distinct (List.map_filter f xs)"
  using assms map_filter_split [of k xs f "xs ! k"] by (auto simp: map_filter_split)

lemma map_filter_sub_distinct:
  assumes "\<And>x. g x = None \<or> g x = f x"
  shows "distinct (List.map_filter f xs) \<Longrightarrow> distinct (List.map_filter g xs) \<and> set (List.map_filter g xs) \<subseteq> set (List.map_filter f xs)"
proof (induction xs)
  case (Cons x xs)
  then show ?case using assms [of x] by (cases "f x") (auto simp: map_filter_simps)
qed (simp add: map_filter_simps)

end
