(* ===== verification/Errors.thy ===== *)
theory Errors
  imports Prelude
begin

text \<open>
  The error hierarchy of \<open>rifts-core/src/error.rs\<close>, the wire-level error
  codes of \<open>protocol/error_code.rs\<close>, the close codes of \<open>protocol/close.rs\<close>
  and the mapping between them used for error frames
  (\<open>rifts-broker/src/connection/control.rs\<close>).  Boxed foreign errors are
  represented by their display string.
\<close>

section \<open>Reject reasons\<close>

datatype StorageError =
    Io string
  | KeyNotFound string
  | Serialization string
  | Engine string
  | CapacityExceeded string
  | PermissionDenied string

datatype FrameReject =
    ProtocolVersionUnsupported u16 u16
  | FrameInvalid string
  | CodecUnsupported string
  | PayloadTooLarge nat nat
  | RequiredFieldMissing string
  | SchemaMismatch string
  | OrderViolation string

datatype SessionReject =
    NotFound string
  | Expired
  | Closed
  | Conflict u32 u32
  | ResumeRejected string
  | ReplayOffsetExpired string i64
  | SnapshotRequired string
  | IdleTimeout

datatype TopicReject =
    NotFound string
  | Closed string
  | Overloaded string
  | SubscriberLimit string
  | PublisherLimit string
  | Forbidden string
  | RateLimited string
  | InvalidName string

datatype MessageReject =
    Duplicate string
  | Expired
  | Rejected string
  | TooLarge nat nat
  | AckTimeout string
  | DeliveryFailed string

datatype AuthReject =
    Required
  | Invalid string
  | Expired
  | Revoked
  | Denied string

datatype SystemReject =
    Overloaded
  | Maintenance
  | ShardMoved string
  | RegionUnavailable string
  | Internal string

datatype ConfigError = Invalid string string

datatype RiftError =
    Frame FrameReject
  | Session SessionReject
  | Topic TopicReject
  | Message MessageReject
  | Auth AuthReject
  | System SystemReject
  | Storage StorageError
  | Config ConfigError
  | Io string
  | SerdeJson string
  | Cbor string
  | CborDe string
  | WebSocket string
  | Other string

text \<open>Results: \<open>Inl\<close> is \<open>Err\<close>, \<open>Inr\<close> is \<open>Ok\<close>.\<close>

type_synonym 'a rift_result = "RiftError + 'a"

section \<open>Error codes\<close>

datatype (plugins only: code size) ErrorCode =
    ProtocolVersionUnsupported
  | ProtocolFrameInvalid
  | ProtocolCodecUnsupported
  | ProtocolPayloadTooLarge
  | ProtocolRequiredFieldMissing
  | ProtocolSchemaMismatch
  | ProtocolOrderViolation
  | AuthRequired
  | AuthInvalid
  | AuthExpired
  | AuthRevoked
  | PermissionDenied
  | TopicForbidden
  | SessionNotFound
  | SessionExpired
  | SessionConflict
  | ResumeRejected
  | ReplayOffsetExpired
  | SnapshotRequired
  | TopicNotFound
  | TopicClosed
  | TopicOverloaded
  | TopicSubscriberLimit
  | TopicPublisherLimit
  | TopicRateLimited
  | MessageDuplicate
  | MessageExpired
  | MessageRejected
  | MessageTooLarge
  | MessageAckTimeout
  | MessageDeliveryFailed
  | SystemOverloaded
  | SystemMaintenance
  | SystemShardMoved
  | SystemRegionUnavailable
  | SystemInternal

primrec ErrorCode_as_str :: "ErrorCode \<Rightarrow> string" where
  "ErrorCode_as_str ErrorCode.ProtocolVersionUnsupported = ''RIFT_PROTOCOL_VERSION_UNSUPPORTED''"
| "ErrorCode_as_str ErrorCode.ProtocolFrameInvalid = ''RIFT_PROTOCOL_FRAME_INVALID''"
| "ErrorCode_as_str ErrorCode.ProtocolCodecUnsupported = ''RIFT_PROTOCOL_CODEC_UNSUPPORTED''"
| "ErrorCode_as_str ErrorCode.ProtocolPayloadTooLarge = ''RIFT_PROTOCOL_PAYLOAD_TOO_LARGE''"
| "ErrorCode_as_str ErrorCode.ProtocolRequiredFieldMissing = ''RIFT_PROTOCOL_REQUIRED_FIELD_MISSING''"
| "ErrorCode_as_str ErrorCode.ProtocolSchemaMismatch = ''RIFT_PROTOCOL_SCHEMA_MISMATCH''"
| "ErrorCode_as_str ErrorCode.ProtocolOrderViolation = ''RIFT_PROTOCOL_ORDER_VIOLATION''"
| "ErrorCode_as_str ErrorCode.AuthRequired = ''RIFT_AUTH_REQUIRED''"
| "ErrorCode_as_str ErrorCode.AuthInvalid = ''RIFT_AUTH_INVALID''"
| "ErrorCode_as_str ErrorCode.AuthExpired = ''RIFT_AUTH_EXPIRED''"
| "ErrorCode_as_str ErrorCode.AuthRevoked = ''RIFT_AUTH_REVOKED''"
| "ErrorCode_as_str ErrorCode.PermissionDenied = ''RIFT_PERMISSION_DENIED''"
| "ErrorCode_as_str ErrorCode.TopicForbidden = ''RIFT_TOPIC_FORBIDDEN''"
| "ErrorCode_as_str ErrorCode.SessionNotFound = ''RIFT_SESSION_NOT_FOUND''"
| "ErrorCode_as_str ErrorCode.SessionExpired = ''RIFT_SESSION_EXPIRED''"
| "ErrorCode_as_str ErrorCode.SessionConflict = ''RIFT_SESSION_CONFLICT''"
| "ErrorCode_as_str ErrorCode.ResumeRejected = ''RIFT_RESUME_REJECTED''"
| "ErrorCode_as_str ErrorCode.ReplayOffsetExpired = ''RIFT_REPLAY_OFFSET_EXPIRED''"
| "ErrorCode_as_str ErrorCode.SnapshotRequired = ''RIFT_SNAPSHOT_REQUIRED''"
| "ErrorCode_as_str ErrorCode.TopicNotFound = ''RIFT_TOPIC_NOT_FOUND''"
| "ErrorCode_as_str ErrorCode.TopicClosed = ''RIFT_TOPIC_CLOSED''"
| "ErrorCode_as_str ErrorCode.TopicOverloaded = ''RIFT_TOPIC_OVERLOADED''"
| "ErrorCode_as_str ErrorCode.TopicSubscriberLimit = ''RIFT_TOPIC_SUBSCRIBER_LIMIT''"
| "ErrorCode_as_str ErrorCode.TopicPublisherLimit = ''RIFT_TOPIC_PUBLISHER_LIMIT''"
| "ErrorCode_as_str ErrorCode.TopicRateLimited = ''RIFT_TOPIC_RATE_LIMITED''"
| "ErrorCode_as_str ErrorCode.MessageDuplicate = ''RIFT_MESSAGE_DUPLICATE''"
| "ErrorCode_as_str ErrorCode.MessageExpired = ''RIFT_MESSAGE_EXPIRED''"
| "ErrorCode_as_str ErrorCode.MessageRejected = ''RIFT_MESSAGE_REJECTED''"
| "ErrorCode_as_str ErrorCode.MessageTooLarge = ''RIFT_MESSAGE_TOO_LARGE''"
| "ErrorCode_as_str ErrorCode.MessageAckTimeout = ''RIFT_MESSAGE_ACK_TIMEOUT''"
| "ErrorCode_as_str ErrorCode.MessageDeliveryFailed = ''RIFT_MESSAGE_DELIVERY_FAILED''"
| "ErrorCode_as_str ErrorCode.SystemOverloaded = ''RIFT_SYSTEM_OVERLOADED''"
| "ErrorCode_as_str ErrorCode.SystemMaintenance = ''RIFT_SYSTEM_MAINTENANCE''"
| "ErrorCode_as_str ErrorCode.SystemShardMoved = ''RIFT_SYSTEM_SHARD_MOVED''"
| "ErrorCode_as_str ErrorCode.SystemRegionUnavailable = ''RIFT_SYSTEM_REGION_UNAVAILABLE''"
| "ErrorCode_as_str ErrorCode.SystemInternal = ''RIFT_SYSTEM_INTERNAL''"

definition ErrorCode_is_retryable :: "ErrorCode \<Rightarrow> bool" where
  "ErrorCode_is_retryable c =
    (case c of
       ErrorCode.SystemOverloaded \<Rightarrow> True
     | ErrorCode.SystemShardMoved \<Rightarrow> True
     | ErrorCode.SystemRegionUnavailable \<Rightarrow> True
     | ErrorCode.TopicOverloaded \<Rightarrow> True
     | ErrorCode.TopicRateLimited \<Rightarrow> True
     | ErrorCode.ReplayOffsetExpired \<Rightarrow> True
     | ErrorCode.MessageDeliveryFailed \<Rightarrow> True
     | ErrorCode.MessageAckTimeout \<Rightarrow> True
     | _ \<Rightarrow> False)"

section \<open>Close codes\<close>

datatype (plugins only: code size) CloseCode =
    Normal
  | Draining
  | ProtocolError
  | UnsupportedCodec
  | AuthFailed
  | AuthExpired
  | PermissionRevoked
  | SessionConflict
  | RateLimited
  | PayloadTooLarge
  | SlowConsumer
  | ServerOverloaded
  | ShardMoved
  | IdleTimeout
  | ClientUpgradeRequired
  | PolicyViolation

definition CloseCode_from_u16 :: "u16 \<Rightarrow> CloseCode option" where
  "CloseCode_from_u16 v =
    (if v = 1000 then Some CloseCode.Normal
     else if v = 1001 then Some CloseCode.Draining
     else if v = 1002 then Some CloseCode.ProtocolError
     else if v = 1003 then Some CloseCode.UnsupportedCodec
     else if v = 1004 then Some CloseCode.AuthFailed
     else if v = 1005 then Some CloseCode.AuthExpired
     else if v = 1006 then Some CloseCode.PermissionRevoked
     else if v = 1007 then Some CloseCode.SessionConflict
     else if v = 1008 then Some CloseCode.RateLimited
     else if v = 1009 then Some CloseCode.PayloadTooLarge
     else if v = 1010 then Some CloseCode.SlowConsumer
     else if v = 1011 then Some CloseCode.ServerOverloaded
     else if v = 1012 then Some CloseCode.ShardMoved
     else if v = 1013 then Some CloseCode.IdleTimeout
     else if v = 1014 then Some CloseCode.ClientUpgradeRequired
     else if v = 1015 then Some CloseCode.PolicyViolation
     else None)"

primrec CloseCode_as_u16 :: "CloseCode \<Rightarrow> u16" where
  "CloseCode_as_u16 CloseCode.Normal = 1000"
| "CloseCode_as_u16 CloseCode.Draining = 1001"
| "CloseCode_as_u16 CloseCode.ProtocolError = 1002"
| "CloseCode_as_u16 CloseCode.UnsupportedCodec = 1003"
| "CloseCode_as_u16 CloseCode.AuthFailed = 1004"
| "CloseCode_as_u16 CloseCode.AuthExpired = 1005"
| "CloseCode_as_u16 CloseCode.PermissionRevoked = 1006"
| "CloseCode_as_u16 CloseCode.SessionConflict = 1007"
| "CloseCode_as_u16 CloseCode.RateLimited = 1008"
| "CloseCode_as_u16 CloseCode.PayloadTooLarge = 1009"
| "CloseCode_as_u16 CloseCode.SlowConsumer = 1010"
| "CloseCode_as_u16 CloseCode.ServerOverloaded = 1011"
| "CloseCode_as_u16 CloseCode.ShardMoved = 1012"
| "CloseCode_as_u16 CloseCode.IdleTimeout = 1013"
| "CloseCode_as_u16 CloseCode.ClientUpgradeRequired = 1014"
| "CloseCode_as_u16 CloseCode.PolicyViolation = 1015"

primrec CloseCode_name :: "CloseCode \<Rightarrow> string" where
  "CloseCode_name CloseCode.Normal = ''normal''"
| "CloseCode_name CloseCode.Draining = ''draining''"
| "CloseCode_name CloseCode.ProtocolError = ''protocol_error''"
| "CloseCode_name CloseCode.UnsupportedCodec = ''unsupported_codec''"
| "CloseCode_name CloseCode.AuthFailed = ''auth_failed''"
| "CloseCode_name CloseCode.AuthExpired = ''auth_expired''"
| "CloseCode_name CloseCode.PermissionRevoked = ''permission_revoked''"
| "CloseCode_name CloseCode.SessionConflict = ''session_conflict''"
| "CloseCode_name CloseCode.RateLimited = ''rate_limited''"
| "CloseCode_name CloseCode.PayloadTooLarge = ''payload_too_large''"
| "CloseCode_name CloseCode.SlowConsumer = ''slow_consumer''"
| "CloseCode_name CloseCode.ServerOverloaded = ''server_overloaded''"
| "CloseCode_name CloseCode.ShardMoved = ''shard_moved''"
| "CloseCode_name CloseCode.IdleTimeout = ''idle_timeout''"
| "CloseCode_name CloseCode.ClientUpgradeRequired = ''client_upgrade_required''"
| "CloseCode_name CloseCode.PolicyViolation = ''policy_violation''"

section \<open>From errors to codes\<close>

definition rift_error_to_code :: "RiftError \<Rightarrow> string" where
  "rift_error_to_code err =
    (case err of
       RiftError.Frame fe \<Rightarrow>
         (case fe of
            FrameReject.ProtocolVersionUnsupported _ _ \<Rightarrow> ErrorCode_as_str ErrorCode.ProtocolVersionUnsupported
          | FrameReject.FrameInvalid _ \<Rightarrow> ErrorCode_as_str ErrorCode.ProtocolFrameInvalid
          | FrameReject.CodecUnsupported _ \<Rightarrow> ErrorCode_as_str ErrorCode.ProtocolCodecUnsupported
          | FrameReject.PayloadTooLarge _ _ \<Rightarrow> ErrorCode_as_str ErrorCode.ProtocolPayloadTooLarge
          | FrameReject.RequiredFieldMissing _ \<Rightarrow> ErrorCode_as_str ErrorCode.ProtocolRequiredFieldMissing
          | FrameReject.SchemaMismatch _ \<Rightarrow> ErrorCode_as_str ErrorCode.ProtocolSchemaMismatch
          | FrameReject.OrderViolation _ \<Rightarrow> ErrorCode_as_str ErrorCode.ProtocolOrderViolation)
     | RiftError.Session se \<Rightarrow>
         (case se of
            SessionReject.NotFound _ \<Rightarrow> ErrorCode_as_str ErrorCode.SessionNotFound
          | SessionReject.Expired \<Rightarrow> ErrorCode_as_str ErrorCode.SessionExpired
          | SessionReject.Closed \<Rightarrow> ErrorCode_as_str ErrorCode.SessionExpired
          | SessionReject.Conflict _ _ \<Rightarrow> ErrorCode_as_str ErrorCode.SessionConflict
          | SessionReject.ResumeRejected _ \<Rightarrow> ErrorCode_as_str ErrorCode.ResumeRejected
          | SessionReject.ReplayOffsetExpired _ _ \<Rightarrow> ErrorCode_as_str ErrorCode.ReplayOffsetExpired
          | SessionReject.SnapshotRequired _ \<Rightarrow> ErrorCode_as_str ErrorCode.SnapshotRequired
          | SessionReject.IdleTimeout \<Rightarrow> ErrorCode_as_str ErrorCode.SessionExpired)
     | RiftError.Topic te \<Rightarrow>
         (case te of
            TopicReject.NotFound _ \<Rightarrow> ErrorCode_as_str ErrorCode.TopicNotFound
          | TopicReject.Closed _ \<Rightarrow> ErrorCode_as_str ErrorCode.TopicClosed
          | TopicReject.Overloaded _ \<Rightarrow> ErrorCode_as_str ErrorCode.TopicOverloaded
          | TopicReject.SubscriberLimit _ \<Rightarrow> ErrorCode_as_str ErrorCode.TopicSubscriberLimit
          | TopicReject.PublisherLimit _ \<Rightarrow> ErrorCode_as_str ErrorCode.TopicPublisherLimit
          | TopicReject.Forbidden _ \<Rightarrow> ErrorCode_as_str ErrorCode.TopicForbidden
          | TopicReject.RateLimited _ \<Rightarrow> ErrorCode_as_str ErrorCode.TopicRateLimited
          | TopicReject.InvalidName _ \<Rightarrow> ErrorCode_as_str ErrorCode.ProtocolFrameInvalid)
     | RiftError.Auth ae \<Rightarrow>
         (case ae of
            AuthReject.Required \<Rightarrow> ErrorCode_as_str ErrorCode.AuthRequired
          | AuthReject.Invalid _ \<Rightarrow> ErrorCode_as_str ErrorCode.AuthInvalid
          | AuthReject.Expired \<Rightarrow> ErrorCode_as_str ErrorCode.AuthExpired
          | AuthReject.Revoked \<Rightarrow> ErrorCode_as_str ErrorCode.AuthRevoked
          | AuthReject.Denied _ \<Rightarrow> ErrorCode_as_str ErrorCode.PermissionDenied)
     | RiftError.Message me \<Rightarrow>
         (case me of
            MessageReject.Duplicate _ \<Rightarrow> ErrorCode_as_str ErrorCode.MessageDuplicate
          | MessageReject.Expired \<Rightarrow> ErrorCode_as_str ErrorCode.MessageExpired
          | MessageReject.Rejected _ \<Rightarrow> ErrorCode_as_str ErrorCode.MessageRejected
          | MessageReject.TooLarge _ _ \<Rightarrow> ErrorCode_as_str ErrorCode.MessageTooLarge
          | MessageReject.AckTimeout _ \<Rightarrow> ErrorCode_as_str ErrorCode.MessageAckTimeout
          | MessageReject.DeliveryFailed _ \<Rightarrow> ErrorCode_as_str ErrorCode.MessageDeliveryFailed)
     | RiftError.System sy \<Rightarrow>
         (case sy of
            SystemReject.Overloaded \<Rightarrow> ErrorCode_as_str ErrorCode.SystemOverloaded
          | SystemReject.Maintenance \<Rightarrow> ErrorCode_as_str ErrorCode.SystemMaintenance
          | SystemReject.ShardMoved _ \<Rightarrow> ErrorCode_as_str ErrorCode.SystemShardMoved
          | SystemReject.RegionUnavailable _ \<Rightarrow> ErrorCode_as_str ErrorCode.SystemRegionUnavailable
          | SystemReject.Internal _ \<Rightarrow> ErrorCode_as_str ErrorCode.SystemInternal)
     | _ \<Rightarrow> ErrorCode_as_str ErrorCode.SystemInternal)"

section \<open>Display strings\<close>

primrec StorageError_to_string :: "StorageError \<Rightarrow> string" where
  "StorageError_to_string (StorageError.Io x) = ''storage engine I/O failure: '' @ x"
| "StorageError_to_string (StorageError.KeyNotFound x) = ''storage key not found: '' @ x"
| "StorageError_to_string (StorageError.Serialization x) = ''storage serialization failure: '' @ x"
| "StorageError_to_string (StorageError.Engine x) = ''storage engine error: '' @ x"
| "StorageError_to_string (StorageError.CapacityExceeded x) = ''storage capacity exceeded: '' @ x"
| "StorageError_to_string (StorageError.PermissionDenied x) = ''storage permission denied: '' @ x"

primrec FrameReject_to_string :: "FrameReject \<Rightarrow> string" where
  "FrameReject_to_string (FrameReject.ProtocolVersionUnsupported client server) = ''protocol version unsupported: client='' @ dec (unat client) @ '', server='' @ dec (unat server)"
| "FrameReject_to_string (FrameReject.FrameInvalid x) = ''frame is malformed: '' @ x"
| "FrameReject_to_string (FrameReject.CodecUnsupported x) = ''codec unsupported: '' @ x"
| "FrameReject_to_string (FrameReject.PayloadTooLarge actual limit) = ''payload too large: '' @ dec actual @ '' > '' @ dec limit"
| "FrameReject_to_string (FrameReject.RequiredFieldMissing x) = ''required field missing: '' @ x"
| "FrameReject_to_string (FrameReject.SchemaMismatch x) = ''schema mismatch: '' @ x"
| "FrameReject_to_string (FrameReject.OrderViolation x) = ''order violation: '' @ x"

primrec SessionReject_to_string :: "SessionReject \<Rightarrow> string" where
  "SessionReject_to_string (SessionReject.NotFound x) = ''session not found: '' @ x"
| "SessionReject_to_string SessionReject.Expired = ''session expired''"
| "SessionReject_to_string SessionReject.Closed = ''session closed by peer''"
| "SessionReject_to_string (SessionReject.Conflict incoming current) = ''session epoch conflict: incoming='' @ dec (unat incoming) @ '', current='' @ dec (unat current)"
| "SessionReject_to_string (SessionReject.ResumeRejected x) = ''resume rejected: '' @ x"
| "SessionReject_to_string (SessionReject.ReplayOffsetExpired topic requested) = ''replay offset expired: topic='' @ topic @ '', requested='' @ dec_int requested"
| "SessionReject_to_string (SessionReject.SnapshotRequired x) = ''snapshot required for topic: '' @ x"
| "SessionReject_to_string SessionReject.IdleTimeout = ''connection idle timeout''"

primrec TopicReject_to_string :: "TopicReject \<Rightarrow> string" where
  "TopicReject_to_string (TopicReject.NotFound x) = ''topic not found: '' @ x"
| "TopicReject_to_string (TopicReject.Closed x) = ''topic closed: '' @ x"
| "TopicReject_to_string (TopicReject.Overloaded x) = ''topic overloaded: '' @ x"
| "TopicReject_to_string (TopicReject.SubscriberLimit x) = ''topic subscriber limit reached: '' @ x"
| "TopicReject_to_string (TopicReject.PublisherLimit x) = ''topic publisher limit reached: '' @ x"
| "TopicReject_to_string (TopicReject.Forbidden x) = ''topic forbidden: '' @ x"
| "TopicReject_to_string (TopicReject.RateLimited x) = ''topic rate limited: '' @ x"
| "TopicReject_to_string (TopicReject.InvalidName x) = ''invalid topic name: '' @ x"

primrec MessageReject_to_string :: "MessageReject \<Rightarrow> string" where
  "MessageReject_to_string (MessageReject.Duplicate x) = ''duplicate message: id='' @ x"
| "MessageReject_to_string MessageReject.Expired = ''message expired''"
| "MessageReject_to_string (MessageReject.Rejected x) = ''message rejected: '' @ x"
| "MessageReject_to_string (MessageReject.TooLarge actual limit) = ''message too large: '' @ dec actual @ '' > '' @ dec limit"
| "MessageReject_to_string (MessageReject.AckTimeout x) = ''ack timeout: id='' @ x"
| "MessageReject_to_string (MessageReject.DeliveryFailed x) = ''delivery failed: '' @ x"

primrec AuthReject_to_string :: "AuthReject \<Rightarrow> string" where
  "AuthReject_to_string AuthReject.Required = ''authentication required''"
| "AuthReject_to_string (AuthReject.Invalid x) = ''authentication invalid: '' @ x"
| "AuthReject_to_string AuthReject.Expired = ''authentication expired''"
| "AuthReject_to_string AuthReject.Revoked = ''authentication revoked''"
| "AuthReject_to_string (AuthReject.Denied x) = ''permission denied: '' @ x"

primrec SystemReject_to_string :: "SystemReject \<Rightarrow> string" where
  "SystemReject_to_string SystemReject.Overloaded = ''system overloaded''"
| "SystemReject_to_string SystemReject.Maintenance = ''system maintenance''"
| "SystemReject_to_string (SystemReject.ShardMoved x) = ''shard moved: topic='' @ x"
| "SystemReject_to_string (SystemReject.RegionUnavailable x) = ''region unavailable: '' @ x"
| "SystemReject_to_string (SystemReject.Internal x) = ''internal error: '' @ x"

primrec ConfigError_to_string :: "ConfigError \<Rightarrow> string" where
  "ConfigError_to_string (ConfigError.Invalid field message) = ''invalid value for '' @ field @ '': '' @ message"

primrec RiftError_to_string :: "RiftError \<Rightarrow> string" where
  "RiftError_to_string (RiftError.Frame e) = FrameReject_to_string e"
| "RiftError_to_string (RiftError.Session e) = SessionReject_to_string e"
| "RiftError_to_string (RiftError.Topic e) = TopicReject_to_string e"
| "RiftError_to_string (RiftError.Message e) = MessageReject_to_string e"
| "RiftError_to_string (RiftError.Auth e) = AuthReject_to_string e"
| "RiftError_to_string (RiftError.System e) = SystemReject_to_string e"
| "RiftError_to_string (RiftError.Storage e) = StorageError_to_string e"
| "RiftError_to_string (RiftError.Config e) = ''config error: '' @ ConfigError_to_string e"
| "RiftError_to_string (RiftError.Io e) = ''io error: '' @ e"
| "RiftError_to_string (RiftError.SerdeJson e) = ''serde_json error: '' @ e"
| "RiftError_to_string (RiftError.Cbor e) = ''ciborium error: '' @ e"
| "RiftError_to_string (RiftError.CborDe e) = ''ciborium de error: '' @ e"
| "RiftError_to_string (RiftError.WebSocket e) = ''websocket error: '' @ e"
| "RiftError_to_string (RiftError.Other e) = ''other: '' @ e"

section \<open>Code tables\<close>

lemma CloseCode_from_as: "CloseCode_from_u16 (CloseCode_as_u16 c) = Some c"
  by (cases c) (simp_all add: CloseCode_from_u16_def)

lemma CloseCode_from_u16_Some:
  "CloseCode_from_u16 v = Some c \<Longrightarrow> CloseCode_as_u16 c = v"
  by (auto simp: CloseCode_from_u16_def split: if_splits)

lemma CloseCode_as_u16_range: "1000 \<le> CloseCode_as_u16 c \<and> CloseCode_as_u16 c \<le> 1015"
  by (cases c) simp_all

text \<open>Every error code's wire identifier starts with \<open>RIFT_\<close>.\<close>

lemma ErrorCode_as_str_prefix: "take 5 (ErrorCode_as_str c) = ''RIFT_''"
  by (cases c) simp_all

text \<open>The code of an error is always one of the table.\<close>

lemma rift_error_to_code_in_table: "\<exists>c. rift_error_to_code err = ErrorCode_as_str c"
  unfolding rift_error_to_code_def
  by (auto simp del: ErrorCode_as_str.simps split: RiftError.split FrameReject.split SessionReject.split TopicReject.split
      MessageReject.split AuthReject.split SystemReject.split)

end
