(* ===== verification/Frames.thy ===== *)
theory Frames
  imports Errors
begin

unbundle bit_operations_syntax

text \<open>
  The frame vocabulary of \<open>rifts-core/src/frame/types.rs\<close> and the frame envelope
  of \<open>rifts-core/src/frame/envelope.rs\<close>: frame types, codecs, priorities, the
  16-bit flag set and the \<open>Frame\<close> record with its constructors.
\<close>

section \<open>Frame types, codecs and priorities\<close>

datatype FrameType = Control | Data | Ack | Flow | Error

primrec FrameType_tag :: "FrameType \<Rightarrow> byte" where
  "FrameType_tag FrameType.Control = 67"
| "FrameType_tag FrameType.Data = 68"
| "FrameType_tag FrameType.Ack = 65"
| "FrameType_tag FrameType.Flow = 70"
| "FrameType_tag FrameType.Error = 69"

definition FrameType_from_tag :: "byte \<Rightarrow> FrameType option" where
  "FrameType_from_tag t =
    (if t = 67 then Some FrameType.Control
     else if t = 68 then Some FrameType.Data
     else if t = 65 then Some FrameType.Ack
     else if t = 70 then Some FrameType.Flow
     else if t = 69 then Some FrameType.Error
     else None)"

primrec FrameType_to_string :: "FrameType \<Rightarrow> string" where
  "FrameType_to_string FrameType.Control = ''control''"
| "FrameType_to_string FrameType.Data = ''data''"
| "FrameType_to_string FrameType.Ack = ''ack''"
| "FrameType_to_string FrameType.Flow = ''flow''"
| "FrameType_to_string FrameType.Error = ''error''"

datatype EncodingFormat = Json | Cbor

primrec EncodingFormat_tag :: "EncodingFormat \<Rightarrow> byte" where
  "EncodingFormat_tag EncodingFormat.Json = 74"
| "EncodingFormat_tag EncodingFormat.Cbor = 66"

definition EncodingFormat_from_tag :: "byte \<Rightarrow> EncodingFormat option" where
  "EncodingFormat_from_tag t =
    (if t = 74 then Some EncodingFormat.Json
     else if t = 66 then Some EncodingFormat.Cbor
     else None)"

primrec EncodingFormat_name :: "EncodingFormat \<Rightarrow> string" where
  "EncodingFormat_name EncodingFormat.Json = ''json''"
| "EncodingFormat_name EncodingFormat.Cbor = ''cbor''"

definition EncodingFormat_to_string :: "EncodingFormat \<Rightarrow> string" where
  "EncodingFormat_to_string c = EncodingFormat_name c"

datatype Priority = Background | Volatile | Low | Normal | High | Critical

definition Priority_from_u8 :: "byte \<Rightarrow> Priority option" where
  "Priority_from_u8 v =
    (if v = 0 then Some Priority.Background
     else if v = 1 then Some Priority.Volatile
     else if v = 2 then Some Priority.Low
     else if v = 3 then Some Priority.Normal
     else if v = 4 then Some Priority.High
     else if v = 5 then Some Priority.Critical
     else None)"

primrec Priority_as_u8 :: "Priority \<Rightarrow> byte" where
  "Priority_as_u8 Priority.Background = 0"
| "Priority_as_u8 Priority.Volatile = 1"
| "Priority_as_u8 Priority.Low = 2"
| "Priority_as_u8 Priority.Normal = 3"
| "Priority_as_u8 Priority.High = 4"
| "Priority_as_u8 Priority.Critical = 5"

primrec Priority_to_string :: "Priority \<Rightarrow> string" where
  "Priority_to_string Priority.Critical = ''critical''"
| "Priority_to_string Priority.High = ''high''"
| "Priority_to_string Priority.Normal = ''normal''"
| "Priority_to_string Priority.Low = ''low''"
| "Priority_to_string Priority.Volatile = ''volatile''"
| "Priority_to_string Priority.Background = ''background''"

lemma Priority_to_string_inj: "Priority_to_string p = Priority_to_string q \<longleftrightarrow> p = q"
  by (cases p; cases q) simp_all

lemma Priority_from_as [simp]: "Priority_from_u8 (Priority_as_u8 p) = Some p"
  by (cases p) (simp_all add: Priority_from_u8_def)

text \<open>The derived order of \<open>Priority\<close> follows the discriminants.\<close>

instantiation Priority :: linorder
begin

definition less_eq_Priority :: "Priority \<Rightarrow> Priority \<Rightarrow> bool" where
  "less_eq_Priority p q \<longleftrightarrow> Priority_as_u8 p \<le> Priority_as_u8 q"

definition less_Priority :: "Priority \<Rightarrow> Priority \<Rightarrow> bool" where
  "less_Priority p q \<longleftrightarrow> Priority_as_u8 p < Priority_as_u8 q"

instance
proof
  fix p q :: Priority
  assume "p \<le> q" "q \<le> p"
  then have "Priority_as_u8 p = Priority_as_u8 q" by (simp add: less_eq_Priority_def)
  then show "p = q" by (metis Priority_from_as option.inject)
qed (auto simp: less_eq_Priority_def less_Priority_def)

end

section \<open>Flags\<close>

text \<open>\<open>FrameFlags\<close> is a \<open>u16\<close>; the constants are single bits.\<close>

type_synonym FrameFlags = u16

definition COMPRESSED :: u16 where "COMPRESSED = push_bit 0 1"

definition ENCRYPTED :: u16 where "ENCRYPTED = push_bit 1 1"

definition FRAGMENTED :: u16 where "FRAGMENTED = push_bit 2 1"

definition FINAL_FRAGMENT :: u16 where "FINAL_FRAGMENT = push_bit 3 1"

definition REQUIRES_ACK :: u16 where "REQUIRES_ACK = push_bit 4 1"

definition REPLAYED :: u16 where "REPLAYED = push_bit 5 1"

definition SNAPSHOT :: u16 where "SNAPSHOT = push_bit 6 1"

definition DEGRADED :: u16 where "DEGRADED = push_bit 7 1"

definition DUPLICATE :: u16 where "DUPLICATE = push_bit 8 1"

definition TRACE :: u16 where "TRACE = push_bit 9 1"

lemmas flag_defs = COMPRESSED_def ENCRYPTED_def FRAGMENTED_def FINAL_FRAGMENT_def
  REQUIRES_ACK_def REPLAYED_def SNAPSHOT_def DEGRADED_def DUPLICATE_def TRACE_def

definition FrameFlags_contains :: "FrameFlags \<Rightarrow> u16 \<Rightarrow> bool" where
  "FrameFlags_contains f flag \<longleftrightarrow> f AND flag = flag"

definition FrameFlags_set :: "FrameFlags \<Rightarrow> u16 \<Rightarrow> FrameFlags" where
  "FrameFlags_set f flag = f OR flag"

definition FrameFlags_clear :: "FrameFlags \<Rightarrow> u16 \<Rightarrow> FrameFlags" where
  "FrameFlags_clear f flag = f AND (NOT flag)"

definition FrameFlags_empty :: FrameFlags where "FrameFlags_empty = 0"

definition FrameFlags_from_bits :: "u16 \<Rightarrow> FrameFlags" where "FrameFlags_from_bits bits = bits"

definition FrameFlags_bits :: "FrameFlags \<Rightarrow> u16" where "FrameFlags_bits f = f"

definition FrameFlags_with :: "FrameFlags \<Rightarrow> u16 \<Rightarrow> FrameFlags" where
  "FrameFlags_with f flag = FrameFlags_set f flag"

definition FrameFlags_without :: "FrameFlags \<Rightarrow> u16 \<Rightarrow> FrameFlags" where
  "FrameFlags_without f flag = FrameFlags_clear f flag"

text \<open>The table of \<open>Display\<close>, in the order of the emitted names.\<close>

definition flag_names :: "(string \<times> u16) list" where
  "flag_names =
    [(''compressed'', COMPRESSED), (''encrypted'', ENCRYPTED), (''fragmented'', FRAGMENTED),
     (''final_fragment'', FINAL_FRAGMENT), (''requires_ack'', REQUIRES_ACK),
     (''replayed'', REPLAYED), (''snapshot'', SNAPSHOT), (''degraded'', DEGRADED),
     (''duplicate'', DUPLICATE), (''trace'', TRACE)]"

fun join_bar :: "string list \<Rightarrow> string" where
  "join_bar [] = ''''"
| "join_bar [s] = s"
| "join_bar (s # t # ss) = s @ ''|'' @ join_bar (t # ss)"

definition FrameFlags_to_string :: "FrameFlags \<Rightarrow> string" where
  "FrameFlags_to_string f =
    (let emitted = map fst (filter (\<lambda>(name, flag). FrameFlags_contains f flag) flag_names)
     in if emitted = [] then ''none'' else join_bar emitted)"

section \<open>The frame envelope\<close>

record Frame =
  fr_version :: u16
  fr_frame_id :: u64
  fr_frame_type :: FrameType
  fr_flags :: FrameFlags
  fr_codec :: EncodingFormat
  fr_session_id :: "string option"
  fr_stream_id :: "string option"
  fr_topic :: "string option"
  fr_event :: "string option"
  fr_message_id :: "string option"
  fr_correlation_id :: "string option"
  fr_trace_id :: "string option"
  fr_timestamp :: i64
  fr_ttl_ms :: "u32 option"
  fr_priority :: "Priority option"
  fr_payload :: "bytes option"

definition Frame_default :: Frame where
  "Frame_default =
    \<lparr> fr_version = 0, fr_frame_id = 0, fr_frame_type = FrameType.Control, fr_flags = 0,
      fr_codec = EncodingFormat.Json, fr_session_id = None, fr_stream_id = None,
      fr_topic = None, fr_event = None, fr_message_id = None, fr_correlation_id = None,
      fr_trace_id = None, fr_timestamp = 0, fr_ttl_ms = None, fr_priority = None,
      fr_payload = None \<rparr>"

definition Frame_control :: Frame where
  "Frame_control = Frame_default\<lparr>fr_frame_type := FrameType.Control\<rparr>"

definition Frame_data :: Frame where
  "Frame_data = Frame_default\<lparr>fr_frame_type := FrameType.Data\<rparr>"

definition Frame_ack :: Frame where
  "Frame_ack = Frame_default\<lparr>fr_frame_type := FrameType.Ack\<rparr>"

definition Frame_flow :: Frame where
  "Frame_flow = Frame_default\<lparr>fr_frame_type := FrameType.Flow\<rparr>"

definition Frame_error :: Frame where
  "Frame_error = Frame_default\<lparr>fr_frame_type := FrameType.Error\<rparr>"

definition Frame_requires_ack :: "Frame \<Rightarrow> bool" where
  "Frame_requires_ack f = FrameFlags_contains (fr_flags f) REQUIRES_ACK"

definition Frame_is_replay :: "Frame \<Rightarrow> bool" where
  "Frame_is_replay f = FrameFlags_contains (fr_flags f) REPLAYED"

definition Frame_mark_replay :: "Frame \<Rightarrow> Frame" where
  "Frame_mark_replay f = f\<lparr>fr_flags := FrameFlags_set (fr_flags f) REPLAYED\<rparr>"

definition Frame_is_snapshot :: "Frame \<Rightarrow> bool" where
  "Frame_is_snapshot f = FrameFlags_contains (fr_flags f) SNAPSHOT"

definition Frame_mark_snapshot :: "Frame \<Rightarrow> Frame" where
  "Frame_mark_snapshot f = f\<lparr>fr_flags := FrameFlags_set (fr_flags f) SNAPSHOT\<rparr>"

definition Frame_to_string :: "Frame \<Rightarrow> string" where
  "Frame_to_string f =
    (let dash = (\<lambda>x. case x of Some s \<Rightarrow> s | None \<Rightarrow> ''-'')
     in ''Frame[id='' @ dec (unat (fr_frame_id f)) @ '' type='' @ FrameType_to_string (fr_frame_type f)
        @ '' codec='' @ EncodingFormat_name (fr_codec f) @ '' topic='' @ dash (fr_topic f)
        @ '' event='' @ dash (fr_event f) @ '' msg_id='' @ dash (fr_message_id f)
        @ '' corr_id='' @ dash (fr_correlation_id f) @ '' flags='' @ FrameFlags_to_string (fr_flags f)
        @ '' payload='' @ dec (case fr_payload f of Some p \<Rightarrow> length p | None \<Rightarrow> 0) @ ''B]'')"

text \<open>The payload length the senders reserve and release: \<open>None\<close> counts as 0.\<close>

definition payload_len :: "Frame \<Rightarrow> nat" where
  "payload_len f = (case fr_payload f of None \<Rightarrow> 0 | Some p \<Rightarrow> length p)"

lemmas frame_defs = Frame_default_def Frame_control_def Frame_data_def Frame_ack_def
  Frame_flow_def Frame_error_def

section \<open>Tag tables\<close>

lemma FrameType_from_tag_tag [simp]: "FrameType_from_tag (FrameType_tag t) = Some t"
  by (cases t) (simp_all add: FrameType_from_tag_def)

lemma FrameType_from_tag_Some: "FrameType_from_tag b = Some t \<longleftrightarrow> b = FrameType_tag t"
  by (cases t) (auto simp: FrameType_from_tag_def split: if_splits)

lemma EncodingFormat_from_tag_tag [simp]: "EncodingFormat_from_tag (EncodingFormat_tag c) = Some c"
  by (cases c) (simp_all add: EncodingFormat_from_tag_def)

lemma EncodingFormat_from_tag_Some:
  "EncodingFormat_from_tag b = Some c \<longleftrightarrow> b = EncodingFormat_tag c"
  by (cases c) (auto simp: EncodingFormat_from_tag_def split: if_splits)

lemma Priority_from_u8_Some: "Priority_from_u8 b = Some p \<longleftrightarrow> b = Priority_as_u8 p"
  by (cases p) (auto simp: Priority_from_u8_def split: if_splits)

section \<open>The flag algebra\<close>

text \<open>Adding flags to the empty set and taking one away again gives the set without it.\<close>

lemma flags_with_without: "FrameFlags_without (FrameFlags_with f a) a = FrameFlags_without f a"
  by (rule bit_word_eqI) (auto simp: FrameFlags_with_def FrameFlags_without_def FrameFlags_set_def FrameFlags_clear_def bit_simps)

lemma flags_bits_exact:
  "bit (FrameFlags_bits (foldl FrameFlags_with FrameFlags_empty flags)) n \<longleftrightarrow> (\<exists>flag \<in> set flags. bit flag n)"
proof (induction flags rule: rev_induct)
  case (snoc flag flags)
  then show ?case by (auto simp: FrameFlags_bits_def FrameFlags_with_def FrameFlags_set_def bit_simps)
qed (simp add: FrameFlags_bits_def FrameFlags_empty_def)

lemma contains_set [simp]: "FrameFlags_contains (FrameFlags_set f a) a"
  by (auto simp: FrameFlags_contains_def FrameFlags_set_def bit_eq_iff bit_simps)

lemma contains_set_other:
  "a AND b = 0 \<Longrightarrow> FrameFlags_contains (FrameFlags_set f a) b = FrameFlags_contains f b"
  by (auto simp: FrameFlags_contains_def FrameFlags_set_def bit_eq_iff bit_simps)

lemma contains_clear: "a \<noteq> 0 \<Longrightarrow> \<not> FrameFlags_contains (FrameFlags_clear f a) a"
  by (auto simp: FrameFlags_contains_def FrameFlags_clear_def bit_eq_iff bit_simps)

lemma contains_clear_other:
  "a AND b = 0 \<Longrightarrow> FrameFlags_contains (FrameFlags_clear f a) b = FrameFlags_contains f b"
  by (auto simp: FrameFlags_contains_def FrameFlags_clear_def bit_eq_iff bit_simps)

text \<open>The ten flags are non-zero and pairwise disjoint bits.\<close>

lemma flag_names_disjoint: "sorted_wrt (\<lambda>p q. snd p AND snd q = 0) flag_names"
  by (simp add: flag_names_def flag_defs)

lemma flag_names_nonzero: "\<forall>p \<in> set flag_names. snd p \<noteq> 0"
  by (simp add: flag_names_def flag_defs)

end
