(* ===== verification/Frame_Codec.thy ===== *)
theory Frame_Codec
  imports Frames
begin

text \<open>
  The wire format of \<open>rifts-core/src/frame_codec.rs\<close>: the binary encoder and
  decoder, the JSON text decoder, and their round-trip and rejection lemmas.
  \<open>serde_json\<close> is not part of the repository: its value type is modelled as a
  datatype, and \<open>from_slice\<close> / \<open>to_vec\<close> are arguments of the functions that
  call them.
\<close>

section \<open>JSON values\<close>

text \<open>\<open>serde_json::Value\<close>; a float is kept as its IEEE-754 bit pattern.\<close>

datatype json_number = PosInt u64 | NegInt i64 | Float u64

datatype json =
    JNull
  | JBool bool
  | JNumber json_number
  | JString string
  | JArray "json list"
  | JObject "(string \<times> json) list"

type_synonym json_from_slice = "bytes \<Rightarrow> string + json"
type_synonym json_to_vec = "json \<Rightarrow> string + bytes"

definition json_get :: "string \<Rightarrow> json \<Rightarrow> json option" where
  "json_get k v = (case v of JObject kvs \<Rightarrow> map_of kvs k | _ \<Rightarrow> None)"

definition json_as_str :: "json \<Rightarrow> string option" where
  "json_as_str v = (case v of JString s \<Rightarrow> Some s | _ \<Rightarrow> None)"

definition json_as_u64 :: "json \<Rightarrow> u64 option" where
  "json_as_u64 v = (case v of JNumber (PosInt n) \<Rightarrow> Some n | _ \<Rightarrow> None)"

definition json_as_i64 :: "json \<Rightarrow> i64 option" where
  "json_as_i64 v =
    (case v of
       JNumber (PosInt n) \<Rightarrow> if int (unat n) \<le> i64_max then Some (int (unat n)) else None
     | JNumber (NegInt i) \<Rightarrow> Some i
     | _ \<Rightarrow> None)"

text \<open>\<open>obj.get(k).and_then(|v| v.as_str())\<close> and friends.\<close>

definition obj_str :: "(string \<times> json) list \<Rightarrow> string \<Rightarrow> string option" where
  "obj_str kvs k = Option.bind (map_of kvs k) json_as_str"

definition obj_u64 :: "(string \<times> json) list \<Rightarrow> string \<Rightarrow> u64 option" where
  "obj_u64 kvs k = Option.bind (map_of kvs k) json_as_u64"

definition obj_i64 :: "(string \<times> json) list \<Rightarrow> string \<Rightarrow> i64 option" where
  "obj_i64 kvs k = Option.bind (map_of kvs k) json_as_i64"

definition unwrap_or :: "'a \<Rightarrow> 'a option \<Rightarrow> 'a" where
  "unwrap_or d x = (case x of None \<Rightarrow> d | Some v \<Rightarrow> v)"

lemma unwrap_or_simps [simp]: "unwrap_or d None = d" "unwrap_or d (Some v) = v"
  by (simp_all add: unwrap_or_def)

section \<open>Binary frames\<close>

definition encode_frame :: "Frame \<Rightarrow> bytes rift_result" where
  "encode_frame frame =
    (let payload = unwrap_or [] (fr_payload frame)
     in Inr ([FrameType_tag (fr_frame_type frame), EncodingFormat_tag (fr_codec frame)]
             @ be_bytes 2 (unat (fr_flags frame))
             @ be_bytes 8 (unat (fr_frame_id frame))
             @ i64_be_bytes (fr_timestamp frame)
             @ be_bytes 4 (unat (word_of_nat (length payload) :: u32))
             @ payload))"

definition DEFAULT_MAX_BINARY_PAYLOAD :: nat where
  "DEFAULT_MAX_BINARY_PAYLOAD = 16 * 1024 * 1024"

definition slice :: "nat \<Rightarrow> nat \<Rightarrow> 'a list \<Rightarrow> 'a list" where
  "slice from to xs = take (to - from) (drop from xs)"

definition decode_binary_frame :: "bytes \<Rightarrow> nat \<Rightarrow> Frame rift_result" where
  "decode_binary_frame buf max_payload_len =
    (if length buf < 24
     then Inl (RiftError.Frame (FrameReject.FrameInvalid
                (''binary frame too short: '' @ dec (length buf))))
     else case FrameType_from_tag (buf ! 0) of
       None \<Rightarrow> Inl (RiftError.Frame (FrameReject.FrameInvalid ''unknown frame type tag''))
     | Some frame_type \<Rightarrow>
         (case EncodingFormat_from_tag (buf ! 1) of
            None \<Rightarrow> Inl (RiftError.Frame (FrameReject.FrameInvalid ''unknown codec tag''))
          | Some codec \<Rightarrow>
              (let flags = word_of_nat (from_be (slice 2 4 buf)) :: u16;
                   frame_id = word_of_nat (from_be (slice 4 12 buf)) :: u64;
                   timestamp = i64_from_be (slice 12 20 buf);
                   payload_len = from_be (slice 20 24 buf)
               in if max_payload_len < payload_len
                  then Inl (RiftError.Frame (FrameReject.PayloadTooLarge payload_len max_payload_len))
                  else if length buf < 24 + payload_len
                  then Inl (RiftError.Frame (FrameReject.FrameInvalid
                         (''payload truncated: want '' @ dec payload_len @ '', have '' @
                          dec (length buf - 24))))
                  else Inr \<lparr> fr_version = 0x0100, fr_frame_id = frame_id,
                         fr_frame_type = frame_type, fr_flags = flags, fr_codec = codec,
                         fr_session_id = None, fr_stream_id = None, fr_topic = None,
                         fr_event = None, fr_message_id = None, fr_correlation_id = None,
                         fr_trace_id = None, fr_timestamp = timestamp, fr_ttl_ms = None,
                         fr_priority = None,
                         fr_payload = Some (slice 24 (24 + payload_len) buf) \<rparr>)))"

section \<open>Text frames\<close>

definition text_frame_type :: "(string \<times> json) list \<Rightarrow> FrameType rift_result" where
  "text_frame_type obj =
    (case obj_str obj ''type'' of
       None \<Rightarrow> Inr FrameType.Data
     | Some t \<Rightarrow>
         if t = ''control'' then Inr FrameType.Control
         else if t = ''data'' then Inr FrameType.Data
         else if t = ''ack'' then Inr FrameType.Ack
         else if t = ''flow'' then Inr FrameType.Flow
         else if t = ''error'' then Inr FrameType.Error
         else Inl (RiftError.Frame (FrameReject.FrameInvalid (''unknown type: '' @ t))))"

definition text_codec :: "(string \<times> json) list \<Rightarrow> EncodingFormat" where
  "text_codec obj =
    (case obj_str obj ''codec'' of
       None \<Rightarrow> EncodingFormat.Json
     | Some c \<Rightarrow> if c = ''json'' then EncodingFormat.Json
                else if c = ''cbor'' then EncodingFormat.Cbor
                else EncodingFormat.Json)"

definition decode_text_frame ::
  "json_from_slice \<Rightarrow> json_to_vec \<Rightarrow> bytes \<Rightarrow> Frame rift_result" where
  "decode_text_frame from_slice to_vec buf =
    (case from_slice buf of
       Inl e \<Rightarrow> Inl (RiftError.Frame (FrameReject.FrameInvalid (''json envelope: '' @ e)))
     | Inr (JObject obj) \<Rightarrow>
         (case text_frame_type obj of
            Inl e \<Rightarrow> Inl e
          | Inr frame_type \<Rightarrow>
              Inr \<lparr> fr_version = 0x0100,
                    fr_frame_id = unwrap_or 0 (obj_u64 obj ''frame_id''),
                    fr_frame_type = frame_type,
                    fr_flags = ucast (unwrap_or 0 (obj_u64 obj ''flags'')),
                    fr_codec = text_codec obj,
                    fr_session_id = obj_str obj ''session_id'',
                    fr_stream_id = obj_str obj ''stream_id'',
                    fr_topic = obj_str obj ''topic'',
                    fr_event = obj_str obj ''event'',
                    fr_message_id = obj_str obj ''message_id'',
                    fr_correlation_id = obj_str obj ''correlation_id'',
                    fr_trace_id = obj_str obj ''trace_id'',
                    fr_timestamp = unwrap_or 0 (obj_i64 obj ''timestamp''),
                    fr_ttl_ms = map_option ucast (obj_u64 obj ''ttl_ms''),
                    fr_priority = None,
                    fr_payload = map_option
                      (\<lambda>v. case to_vec v of Inl _ \<Rightarrow> [] | Inr bs \<Rightarrow> bs)
                      (map_of obj ''payload'') \<rparr>)
     | Inr _ \<Rightarrow> Inl (RiftError.Frame (FrameReject.FrameInvalid ''expected object'')))"

section \<open>Header layout\<close>

lemma length_slice: "to \<le> length xs \<Longrightarrow> length (slice from to xs) = to - from"
  by (auto simp: slice_def)

lemma slice_mid: "length a = from \<Longrightarrow> length b = to - from \<Longrightarrow> slice from to (a @ b @ c) = b"
  by (simp add: slice_def)

lemma slice_split:
  "from \<le> mid \<Longrightarrow> mid \<le> to \<Longrightarrow> slice from mid xs @ slice mid to xs = slice from to xs"
proof -
  assume le: "from \<le> mid" "mid \<le> to"
  have "take (mid - from) (drop from xs) @ take (to - mid) (drop (mid - from) (drop from xs))
      = take ((mid - from) + (to - mid)) (drop from xs)"
    by (simp only: take_add)
  with le show ?thesis by (simp add: slice_def)
qed

lemma slice_0 [simp]: "slice 0 n xs = take n xs"
  by (simp add: slice_def)

text \<open>The 24-byte header as one term.\<close>

definition header :: "byte \<Rightarrow> byte \<Rightarrow> bytes \<Rightarrow> bytes \<Rightarrow> bytes \<Rightarrow> bytes \<Rightarrow> bytes" where
  "header t c fl fid ts len = [t, c] @ fl @ fid @ ts @ len"

lemma length_header:
  "\<lbrakk>length fl = 2; length fid = 8; length ts = 8; length len = 4\<rbrakk>
    \<Longrightarrow> length (header t c fl fid ts len) = 24"
  by (simp add: header_def)

lemma header_fields:
  assumes "length fl = 2" "length fid = 8" "length ts = 8" "length len = 4"
  shows "(header t c fl fid ts len @ p) ! 0 = t"
    and "(header t c fl fid ts len @ p) ! 1 = c"
    and "slice 2 4 (header t c fl fid ts len @ p) = fl"
    and "slice 4 12 (header t c fl fid ts len @ p) = fid"
    and "slice 12 20 (header t c fl fid ts len @ p) = ts"
    and "slice 20 24 (header t c fl fid ts len @ p) = len"
    and "slice 24 (24 + n) (header t c fl fid ts len @ p) = take n p"
proof -
  let ?h = "header t c fl fid ts len @ p"
  show "?h ! 0 = t" "?h ! 1 = c" by (simp_all add: header_def)
  show "slice 2 4 ?h = fl"
    using assms slice_mid [of "[t, c]" 2 fl 4 "fid @ ts @ len @ p"] by (simp add: header_def)
  show "slice 4 12 ?h = fid"
    using assms slice_mid [of "[t, c] @ fl" 4 fid 12 "ts @ len @ p"] by (simp add: header_def)
  show "slice 12 20 ?h = ts"
    using assms slice_mid [of "[t, c] @ fl @ fid" 12 ts 20 "len @ p"] by (simp add: header_def)
  show "slice 20 24 ?h = len"
    using assms slice_mid [of "[t, c] @ fl @ fid @ ts" 20 len 24 p] by (simp add: header_def)
  show "slice 24 (24 + n) ?h = take n p"
    using assms by (simp add: slice_def length_header)
qed

lemma header_of_buffer:
  assumes "24 \<le> length buf"
  shows "header (buf ! 0) (buf ! 1) (slice 2 4 buf) (slice 4 12 buf) (slice 12 20 buf)
          (slice 20 24 buf) = take 24 buf"
proof -
  have "[buf ! 0, buf ! 1] = take 2 buf"
    using assms by (cases buf rule: list.exhaust; cases "tl buf") (auto simp: numeral_2_eq_2)
  moreover have "slice 4 12 buf @ slice 12 20 buf @ slice 20 24 buf = slice 4 24 buf"
    by (simp add: slice_split)
  ultimately show ?thesis
    using slice_split [of 2 4 24 buf] slice_split [of 0 2 24 buf] by (simp add: header_def)
qed

lemma encode_frame_header:
  "encode_frame f =
    Inr (header (FrameType_tag (fr_frame_type f)) (EncodingFormat_tag (fr_codec f))
          (be_bytes 2 (unat (fr_flags f))) (be_bytes 8 (unat (fr_frame_id f)))
          (i64_be_bytes (fr_timestamp f))
          (be_bytes 4 (unat (word_of_nat (length (unwrap_or [] (fr_payload f))) :: u32)))
         @ unwrap_or [] (fr_payload f))"
  by (simp add: encode_frame_def header_def Let_def)

text \<open>Decoding anything that starts with a header.\<close>

lemma decode_header:
  assumes "length fl = 2" "length fid = 8" "length ts = 8" "length len = 4"
  shows "decode_binary_frame (header (FrameType_tag t) (EncodingFormat_tag c) fl fid ts len @ p) m =
    (if m < from_be len
     then Inl (RiftError.Frame (FrameReject.PayloadTooLarge (from_be len) m))
     else if length p < from_be len
     then Inl (RiftError.Frame (FrameReject.FrameInvalid
            (''payload truncated: want '' @ dec (from_be len) @ '', have '' @ dec (length p))))
     else Inr (Frame_default\<lparr>fr_version := 0x0100, fr_frame_id := word_of_nat (from_be fid),
            fr_frame_type := t, fr_flags := word_of_nat (from_be fl), fr_codec := c,
            fr_timestamp := i64_from_be ts, fr_payload := Some (take (from_be len) p)\<rparr>))"
  using assms
  by (simp add: decode_binary_frame_def header_fields header_fields [simplified] length_header
      Let_def Frame_default_def)

section \<open>Round trips\<close>

text \<open>What survives the binary format: the header fields and the payload.\<close>

definition wire_image :: "Frame \<Rightarrow> Frame" where
  "wire_image f = Frame_default\<lparr>fr_version := 0x0100, fr_frame_id := fr_frame_id f,
     fr_frame_type := fr_frame_type f, fr_flags := fr_flags f, fr_codec := fr_codec f,
     fr_timestamp := fr_timestamp f, fr_payload := Some (unwrap_or [] (fr_payload f))\<rparr>"

lemma decode_encode_general:
  assumes enc: "encode_frame f = Inr bs" and ts: "i64_ok (fr_timestamp f)"
    and n: "n = length (unwrap_or [] (fr_payload f)) mod 2 ^ 32" and m: "n \<le> m"
  shows "decode_binary_frame (bs @ rest) m =
    Inr ((wire_image f)\<lparr>fr_payload := Some (take n (unwrap_or [] (fr_payload f)))\<rparr>)"
proof -
  let ?p = "unwrap_or [] (fr_payload f)"
  have len: "unat (word_of_nat (length ?p) :: u32) = n" using n by (simp add: unat_of_nat)
  have nb: "from_be (be_bytes 4 n) = n" using n by (simp add: from_be_be_bytes)
  have nle: "n \<le> length ?p" using n by simp
  from enc have bs: "bs = header (FrameType_tag (fr_frame_type f)) (EncodingFormat_tag (fr_codec f))
          (be_bytes 2 (unat (fr_flags f))) (be_bytes 8 (unat (fr_frame_id f)))
          (i64_be_bytes (fr_timestamp f))
          (be_bytes 4 (unat (word_of_nat (length ?p) :: u32))) @ ?p"
    by (simp add: encode_frame_header)
  show ?thesis
    unfolding bs append_assoc
    by (subst decode_header)
      (use len nb nle m ts in \<open>simp_all add: wire_image_def i64_from_be_bytes Frame_default_def\<close>)
qed

lemma decode_wire_image:
  assumes "encode_frame f = Inr bs" and "i64_ok (fr_timestamp f)"
    and "payload_len f < 2 ^ 32" and "payload_len f \<le> m"
  shows "decode_binary_frame (bs @ rest) m = Inr (wire_image f)"
proof -
  have pl: "payload_len f = length (unwrap_or [] (fr_payload f))"
    by (cases "fr_payload f") (simp_all add: payload_len_def)
  have "payload_len f = length (unwrap_or [] (fr_payload f)) mod 2 ^ 32"
    using assms(3) by (simp add: pl)
  from decode_encode_general [OF assms(1,2) this assms(4), of rest] show ?thesis
    by (simp add: pl wire_image_def)
qed

lemma encode_decode_prefix:
  assumes "decode_binary_frame buf m = Inr f"
  shows "encode_frame f = Inr (take (24 + payload_len f) buf)"
    and "24 + payload_len f \<le> length buf" and "payload_len f \<le> m"
proof -
  let ?n = "from_be (slice 20 24 buf)"
  from assms have len: "24 \<le> length buf" by (simp add: decode_binary_frame_def split: if_splits)
  from assms obtain t c where
    t: "buf ! 0 = FrameType_tag t" and c: "buf ! 1 = EncodingFormat_tag c" and
    f: "f = Frame_default\<lparr>fr_version := 0x0100, fr_frame_id := word_of_nat (from_be (slice 4 12 buf)),
            fr_frame_type := t, fr_flags := word_of_nat (from_be (slice 2 4 buf)), fr_codec := c,
            fr_timestamp := i64_from_be (slice 12 20 buf),
            fr_payload := Some (slice 24 (24 + ?n) buf)\<rparr>" and
    m: "?n \<le> m" and l: "24 + ?n \<le> length buf"
    using len
    by (auto simp: decode_binary_frame_def Frame_default_def Let_def
        FrameType_from_tag_Some EncodingFormat_from_tag_Some split: if_splits option.splits)
  have pl: "payload_len f = ?n" using l by (simp add: f payload_len_def length_slice)
  show "24 + payload_len f \<le> length buf" "payload_len f \<le> m" using pl l m by simp_all
  have b: "from_be (slice 2 4 buf) < 2 ^ 16" "from_be (slice 4 12 buf) < 2 ^ 64" "?n < 2 ^ 32"
    using len from_be_bound [of "slice 2 4 buf"] from_be_bound [of "slice 4 12 buf"]
      from_be_bound [of "slice 20 24 buf"] by (simp_all add: length_slice)
  have be: "be_bytes 2 (from_be (slice 2 4 buf)) = slice 2 4 buf"
    "be_bytes 8 (from_be (slice 4 12 buf)) = slice 4 12 buf"
    "be_bytes 4 ?n = slice 20 24 buf"
    using len be_bytes_from_be [of "slice 2 4 buf"] be_bytes_from_be [of "slice 4 12 buf"]
      be_bytes_from_be [of "slice 20 24 buf"] by (simp_all add: length_slice)
  have "encode_frame f = Inr (take 24 buf @ slice 24 (24 + ?n) buf)"
    using len l b be t c
    by (simp add: encode_frame_header f Frame_default_def unat_of_nat length_slice
        i64_be_bytes_from_be header_of_buffer [symmetric])
  also have "take 24 buf @ slice 24 (24 + ?n) buf = take (24 + ?n) buf"
    using slice_split [of 0 24 "24 + ?n" buf] by simp
  finally show "encode_frame f = Inr (take (24 + payload_len f) buf)" by (simp add: pl)
qed

section \<open>Properties\<close>

definition sample_frame :: Frame where
  "sample_frame = Frame_data\<lparr>fr_version := 0x0100, fr_frame_id := 42, fr_flags := 1,
     fr_codec := EncodingFormat.Cbor, fr_topic := Some ''t'', fr_timestamp := - 1000,
     fr_payload := Some [104, 105]\<rparr>"

text \<open>C14. Binary round trip: decoding an encoded frame, with any bytes after it,
  returns the header fields and the payload unchanged, whenever the payload fits the 32-bit
  length field and the caller's limit; routing metadata is not carried by the binary
  format and comes back empty.\<close>

theorem decode_encode_roundtrip:
  assumes "encode_frame f = Inr bs" and "i64_ok (fr_timestamp f)"
    and "payload_len f < 2 ^ 32" and "payload_len f \<le> m"
  shows "decode_binary_frame (bs @ rest) m = Inr (wire_image f)"
  by (rule decode_wire_image [OF assms])

theorem decode_encode_roundtrip_witness:
  "\<exists>bs. encode_frame sample_frame = Inr bs
     \<and> decode_binary_frame (bs @ [7]) 1024 = Inr (wire_image sample_frame)"
  using decode_encode_roundtrip [of sample_frame _ 1024 "[7]"]
  by (simp add: encode_frame_def Let_def sample_frame_def frame_defs payload_len_def i64_defs)

text \<open>C26. The decoder accepts canonical encodings only: a buffer that decodes is the encoding
  of the decoded frame followed by ignored bytes, and the payload obeys the limit.\<close>

theorem decode_canonical:
  assumes "decode_binary_frame buf m = Inr f"
  shows "encode_frame f = Inr (take (24 + payload_len f) buf) \<and> payload_len f \<le> m
    \<and> 24 + payload_len f \<le> length buf"
  using encode_decode_prefix [OF assms] by simp

definition sample_buffer :: bytes where
  "sample_buffer = header 68 66 [0, 1] [0, 0, 0, 0, 0, 0, 0, 42] [0, 0, 0, 0, 0, 0, 3, 232]
     [0, 0, 0, 2] @ [104, 105, 9]"

theorem decode_canonical_witness:
  "\<exists>f. decode_binary_frame sample_buffer 8 = Inr f \<and> fr_payload f = Some [104, 105]
     \<and> encode_frame f = Inr (take 26 sample_buffer)"
proof -
  have "\<exists>f. decode_binary_frame sample_buffer 8 = Inr f \<and> fr_payload f = Some [104, 105]"
    using decode_header [of "[0, 1]" "[0, 0, 0, 0, 0, 0, 0, 42]" "[0, 0, 0, 0, 0, 0, 3, 232]"
        "[0, 0, 0, 2]" FrameType.Data EncodingFormat.Cbor "[104, 105, 9]" 8]
    by (simp add: sample_buffer_def from_be_def)
  then obtain f where f: "decode_binary_frame sample_buffer 8 = Inr f"
    and p: "fr_payload f = Some [104, 105]" by blast
  have "24 + payload_len f = 26" using p by (simp add: payload_len_def)
  with f p decode_canonical [of sample_buffer 8 f] show ?thesis by auto
qed

text \<open>C27. The decoder is total and its outcome is decided by the header: it fails exactly on a
  short buffer, an unknown frame type or codec tag, a declared length above the limit, or a
  truncated payload.\<close>

theorem decode_binary_accepts_iff:
  "(\<exists>f. decode_binary_frame buf m = Inr f) \<longleftrightarrow>
    24 \<le> length buf \<and> (\<exists>t. buf ! 0 = FrameType_tag t) \<and> (\<exists>c. buf ! 1 = EncodingFormat_tag c)
    \<and> from_be (slice 20 24 buf) \<le> m \<and> 24 + from_be (slice 20 24 buf) \<le> length buf"
proof -
  have "(\<exists>t. FrameType_from_tag b = Some t) = (\<exists>t. b = FrameType_tag t)"
    and "(\<exists>c. EncodingFormat_from_tag b = Some c) = (\<exists>c. b = EncodingFormat_tag c)" for b
    by (simp_all add: FrameType_from_tag_Some EncodingFormat_from_tag_Some)
  then show ?thesis
    by (auto simp: decode_binary_frame_def Let_def simp flip: FrameType_from_tag_Some
        EncodingFormat_from_tag_Some split: option.split)
qed

text \<open>The length field is the payload length modulo \<open>2 ^ 32\<close>: a frame with a longer
  payload is encoded without error and decodes to a truncated payload.\<close>

lemma encode_length_wraps:
  assumes "encode_frame f = Inr bs" and "i64_ok (fr_timestamp f)" and "fr_payload f = Some p"
    and "2 ^ 32 \<le> length p" and "length p mod 2 ^ 32 \<le> m"
  shows "\<exists>g. decode_binary_frame bs m = Inr g \<and> fr_payload g = Some (take (length p mod 2 ^ 32) p)
    \<and> fr_payload g \<noteq> Some p"
proof -
  have "length p mod 2 ^ 32 < length p"
    using assms(4) mod_less_divisor [of "2 ^ 32" "length p"] by simp
  then have "length (take (length p mod 2 ^ 32) p) \<noteq> length p" by simp
  then have "take (length p mod 2 ^ 32) p \<noteq> p" by auto
  then show ?thesis
    using decode_encode_general [OF assms(1,2) _ assms(5), of "[]"] assms(3) by simp
qed

lemma encode_length_wraps_witness:
  "\<exists>bs g. encode_frame (Frame_data\<lparr>fr_payload := Some (replicate (2 ^ 32) 0)\<rparr>) = Inr bs
     \<and> decode_binary_frame bs 16 = Inr g \<and> fr_payload g = Some []"
proof -
  let ?f = "Frame_data\<lparr>fr_payload := Some (replicate (2 ^ 32) 0)\<rparr>"
  obtain bs where bs: "encode_frame ?f = Inr bs" by (simp only: encode_frame_header)
  have "\<exists>g. decode_binary_frame bs 16 = Inr g
      \<and> fr_payload g = Some (take (length (replicate (2 ^ 32) 0 :: bytes) mod 2 ^ 32)
          (replicate (2 ^ 32) 0)) \<and> fr_payload g \<noteq> Some (replicate (2 ^ 32) 0)"
    by (rule encode_length_wraps [OF bs])
      (simp_all only: frame_defs Frame.simps length_replicate i64_defs, simp_all)
  then show ?thesis using bs by (simp only: length_replicate mod_self take_0) blast
qed

end
