(* ===== verification/Reservations.thy ===== *)
theory Reservations
  imports Prelude
begin

text \<open>
  The compare-and-swap reservation loops, under interleaving.  Topic slots
  (\<open>TopicEntry::try_inc_subscriber\<close>, \<open>try_inc_publisher\<close>), the outbound queue
  budget (\<open>BackpressureController::try_enqueue\<close>, \<open>ConnSink::deliver\<close>) all follow one
  protocol: load the counter, compute the next value or refuse, and
  \<open>compare_exchange_weak\<close> it, retrying with the observed value on failure.

  \<open>cas_step\<close> is the interleaving of any number of tasks that run the protocol on one
  counter: each rule is one atomic access.  A weak exchange may also fail
  spuriously, so \<open>cas_fail\<close> does not require that the counter has changed.
\<close>

section \<open>The protocol\<close>

datatype task =
    Idle
  | Ready usize
  | Loaded usize usize
  | Held usize

type_synonym cas_state = "usize \<times> task list"

text \<open>\<open>nxt prev n\<close> is the value to exchange, or \<open>None\<close> to refuse; \<open>rel c n\<close> is the counter
  after giving back \<open>n\<close>; \<open>amount\<close> restricts what callers ask for.\<close>

inductive cas_step ::
  "(usize \<Rightarrow> usize \<Rightarrow> usize option) \<Rightarrow> (usize \<Rightarrow> usize \<Rightarrow> usize) \<Rightarrow> (usize \<Rightarrow> bool)
    \<Rightarrow> cas_state \<Rightarrow> cas_state \<Rightarrow> bool"
  for nxt rel amount where
  start: "i < length ts \<Longrightarrow> ts ! i = Idle \<Longrightarrow> amount n
    \<Longrightarrow> cas_step nxt rel amount (c, ts) (c, ts[i := Ready n])"
| load: "i < length ts \<Longrightarrow> ts ! i = Ready n
    \<Longrightarrow> cas_step nxt rel amount (c, ts) (c, ts[i := Loaded n c])"
| refuse: "i < length ts \<Longrightarrow> ts ! i = Loaded n prev \<Longrightarrow> nxt prev n = None
    \<Longrightarrow> cas_step nxt rel amount (c, ts) (c, ts[i := Idle])"
| cas_ok: "i < length ts \<Longrightarrow> ts ! i = Loaded n prev \<Longrightarrow> nxt prev n = Some c' \<Longrightarrow> c = prev
    \<Longrightarrow> cas_step nxt rel amount (c, ts) (c', ts[i := Held n])"
| cas_fail: "i < length ts \<Longrightarrow> ts ! i = Loaded n prev \<Longrightarrow> nxt prev n = Some c'
    \<Longrightarrow> cas_step nxt rel amount (c, ts) (c, ts[i := Loaded n c])"
| free: "i < length ts \<Longrightarrow> ts ! i = Held n
    \<Longrightarrow> cas_step nxt rel amount (c, ts) (rel c n, ts[i := Idle])"

inductive_cases cas_stepE: "cas_step nxt rel amount s s'"

inductive cas_reach ::
  "(usize \<Rightarrow> usize \<Rightarrow> usize option) \<Rightarrow> (usize \<Rightarrow> usize \<Rightarrow> usize) \<Rightarrow> (usize \<Rightarrow> bool)
    \<Rightarrow> nat \<Rightarrow> cas_state \<Rightarrow> bool"
  for nxt rel amount k where
  init: "cas_reach nxt rel amount k (0, replicate k Idle)"
| step: "cas_reach nxt rel amount k s \<Longrightarrow> cas_step nxt rel amount s s'
    \<Longrightarrow> cas_reach nxt rel amount k s'"

primrec held :: "task \<Rightarrow> nat" where
  "held Idle = 0"
| "held (Ready n) = 0"
| "held (Loaded n prev) = 0"
| "held (Held n) = unat n"

primrec task_ok :: "(usize \<Rightarrow> bool) \<Rightarrow> usize \<Rightarrow> task \<Rightarrow> bool" where
  "task_ok amount limit Idle = True"
| "task_ok amount limit (Ready n) = amount n"
| "task_ok amount limit (Loaded n prev) = (amount n \<and> prev \<le> limit)"
| "task_ok amount limit (Held n) = amount n"

definition held_total :: "task list \<Rightarrow> nat" where
  "held_total ts = sum_list (map held ts)"

lemma held_total_update:
  "i < length ts \<Longrightarrow> held_total (ts[i := t]) + held (ts ! i) = held_total ts + held t"
  unfolding held_total_def
proof (induction ts arbitrary: i)
  case (Cons x ts)
  then show ?case by (cases i) (auto simp: add.commute add.left_commute)
qed simp

lemma held_le_total: "i < length ts \<Longrightarrow> held (ts ! i) \<le> held_total ts"
  unfolding held_total_def by (simp add: member_le_sum_list)

lemma held_total_replicate [simp]: "held_total (replicate k Idle) = 0"
  by (simp add: held_total_def)

definition budget_inv :: "(usize \<Rightarrow> bool) \<Rightarrow> usize \<Rightarrow> cas_state \<Rightarrow> bool" where
  "budget_inv amount limit s \<longleftrightarrow> fst s \<le> limit \<and> unat (fst s) = held_total (snd s)
     \<and> (\<forall>t \<in> set (snd s). task_ok amount limit t)"

lemma budget_inv_task:
  "budget_inv amount limit (c, ts) \<Longrightarrow> i < length ts \<Longrightarrow> task_ok amount limit (ts ! i)"
  using nth_mem [of i ts] by (simp add: budget_inv_def)

lemma budget_inv_update:
  "\<lbrakk>budget_inv amount limit (c, ts); i < length ts; task_ok amount limit t; c' \<le> limit;
    unat c' + held (ts ! i) = unat c + held t\<rbrakk> \<Longrightarrow> budget_inv amount limit (c', ts[i := t])"
  using held_total_update [of i ts t]
  by (auto simp: budget_inv_def dest!: set_update_subset_insert [THEN subsetD])

section \<open>The contract\<close>

text \<open>What a loop must guarantee for its counter to be an exact budget.\<close>

locale reservation =
  fixes nxt :: "usize \<Rightarrow> usize \<Rightarrow> usize option"
    and rel :: "usize \<Rightarrow> usize \<Rightarrow> usize"
    and amount :: "usize \<Rightarrow> bool"
    and limit :: usize
  assumes nxt_adds: "\<lbrakk>c \<le> limit; amount n; nxt c n = Some c'\<rbrakk>
      \<Longrightarrow> c' \<le> limit \<and> unat c' = unat c + unat n"
    and nxt_refuses: "\<lbrakk>c \<le> limit; amount n; nxt c n = None\<rbrakk> \<Longrightarrow> unat limit < unat c + unat n"
    and rel_subtracts: "unat n \<le> unat c \<Longrightarrow> unat (rel c n) = unat c - unat n"
begin

lemma budget_inv_step:
  assumes "cas_step nxt rel amount s s'" and inv: "budget_inv amount limit s"
  shows "budget_inv amount limit s'"
proof -
  have cl: "fst s \<le> limit" using inv by (simp add: budget_inv_def)
  have tk: "i < length (snd s) \<Longrightarrow> task_ok amount limit (snd s ! i)" for i
    using inv by (cases s) (simp add: budget_inv_task)
  note upd = budget_inv_update [of amount limit "fst s" "snd s", simplified, OF inv]
  show ?thesis using assms(1)
  proof cases
    case (cas_ok i ts n prev c' c)
    then show ?thesis using nxt_adds [of c n c'] cl tk [of i] upd [of i "Held n" c'] by simp
  next
    case (free i ts n c)
    have le: "unat n \<le> unat c"
      using held_le_total [of i ts] free inv by (simp add: budget_inv_def)
    have r: "unat (rel c n) = unat c - unat n" by (rule rel_subtracts [OF le])
    moreover have "rel c n \<le> limit" using r cl free by (simp add: word_le_nat_alt)
    ultimately show ?thesis using le free upd [of i Idle "rel c n"] by simp
  next
    case (start i ts n c)
    then show ?thesis using cl upd [of i "Ready n" c] by simp
  next
    case (load i ts n c)
    then show ?thesis using cl tk [of i] upd [of i "Loaded n c" c] by simp
  next
    case (refuse i ts n prev c)
    then show ?thesis using cl upd [of i Idle c] by simp
  next
    case (cas_fail i ts n prev c' c)
    then show ?thesis using cl tk [of i] upd [of i "Loaded n c" c] by simp
  qed
qed

lemma budget_inv_reach: "cas_reach nxt rel amount k s \<Longrightarrow> budget_inv amount limit s"
proof (induction rule: cas_reach.induct)
  case init
  then show ?case by (auto simp: budget_inv_def)
next
  case (step s s')
  then show ?case by (blast intro: budget_inv_step)
qed

text \<open>In every reachable state the counter is the sum of the reservations held, within the
  limit; a task that is about to be refused could not have been served at the
  value it loaded.\<close>

lemma reach_exact:
  assumes "cas_reach nxt rel amount k (c, ts)"
  shows "unat c = held_total ts" and "held_total ts \<le> unat limit"
  using budget_inv_reach [OF assms] by (auto simp: budget_inv_def word_le_nat_alt)

lemma reach_refused:
  assumes "cas_reach nxt rel amount k (c, ts)" and "i < length ts" and "ts ! i = Loaded n prev"
    and "nxt prev n = None"
  shows "unat limit < unat prev + unat n"
  using budget_inv_task [OF budget_inv_reach [OF assms(1)] assms(2)] assms(3,4)
  by (auto intro: nxt_refuses)

end

end
