(* ===== verification/Topics.thy ===== *)
theory Topics
  imports Errors Reservations
begin

text \<open>
  Topics (\<open>rifts-core/src/topic\<close>): retention and ordering policies, topic
  profiles, name validation, the per-topic state with its replay log and
  subscriber/publisher slots, and the topic store.

  A \<open>Duration\<close> is its \<open>as_millis()\<close> value.  Every method of \<open>TopicEntry\<close>
  is one atomic step; the compare-and-swap loops appear here as their
  interference-free run and are treated with interleaving in \<open>Reservations\<close>.
  The clock \<open>now_ms()\<close> is the argument \<open>now\<close>.
\<close>

section \<open>Policies and profiles\<close>

datatype RetentionPolicy =
    NoRetention
  | Ttl nat
  | Count nat
  | Size nat
  | Durable
  | Latest

datatype OrderingPolicy =
    NoOrdering
  | Connection
  | Publisher
  | TopicOrder
  | Key
  | Causal

primrec OrderingPolicy_to_string :: "OrderingPolicy \<Rightarrow> string" where
  "OrderingPolicy_to_string NoOrdering = ''none''"
| "OrderingPolicy_to_string Connection = ''connection''"
| "OrderingPolicy_to_string Publisher = ''publisher''"
| "OrderingPolicy_to_string TopicOrder = ''topic''"
| "OrderingPolicy_to_string Key = ''key''"
| "OrderingPolicy_to_string Causal = ''causal''"

record TopicProfile =
  tp_name :: string
  tp_retention :: RetentionPolicy
  tp_ordering :: OrderingPolicy
  tp_max_subscribers :: usize
  tp_max_publishers :: usize
  tp_rate_limit_per_publisher :: "u32 option"
  tp_rate_limit_total :: "u32 option"
  tp_replay_enabled :: bool
  tp_snapshot_enabled :: bool
  tp_snapshot_ttl :: "nat option"
  tp_replay_window :: nat

definition TopicProfile_default :: TopicProfile where
  "TopicProfile_default =
    \<lparr> tp_name = ''default'', tp_retention = Latest, tp_ordering = TopicOrder,
      tp_max_subscribers = 10000, tp_max_publishers = 10000,
      tp_rate_limit_per_publisher = None, tp_rate_limit_total = None,
      tp_replay_enabled = True, tp_snapshot_enabled = True, tp_snapshot_ttl = None,
      tp_replay_window = 300000 \<rparr>"

section \<open>Topic names\<close>

text \<open>\<open>char::is_control\<close> holds of U+0000..U+001F and U+007F..U+009F; in UTF-8 the
  latter part is the byte 7F or the byte C2 followed by 80..9F.\<close>

fun has_control :: "string \<Rightarrow> bool" where
  "has_control [] = False"
| "has_control (c # cs) =
    ((of_char c :: nat) < 32 \<or> (of_char c :: nat) = 127
     \<or> ((of_char c :: nat) = 194
        \<and> (case cs of [] \<Rightarrow> False | d # _ \<Rightarrow> 128 \<le> (of_char d :: nat) \<and> (of_char d :: nat) \<le> 159))
     \<or> has_control cs)"

definition validate_name :: "string \<Rightarrow> unit rift_result" where
  "validate_name name =
    (if name = [] then Inl (RiftError.Topic (TopicReject.InvalidName ''empty topic''))
     else if 256 < length name
     then Inl (RiftError.Topic (TopicReject.InvalidName
            (''name too long: '' @ dec (length name) @ '' > 256'')))
     else if hd name = CHR ''$''
     then Inl (RiftError.Topic (TopicReject.InvalidName
            (''name starts with reserved '' @ [CHR 0x27, CHR ''$'', CHR 0x27] @ '' prefix: '' @ name)))
     else if has_control name
     then Inl (RiftError.Topic (TopicReject.InvalidName ''name contains control characters''))
     else Inr ())"

section \<open>Log entries and topic entries\<close>

record LogEntry =
  le_offset :: i64
  le_publisher_session :: "string option"
  le_message_id :: string
  le_class :: string
  le_event :: "string option"
  le_payload :: bytes
  le_timestamp :: i64
  le_appended_at :: "i64 option"

record TopicEntry =
  te_name :: string
  te_profile :: TopicProfile
  te_closed :: bool
  te_log :: "LogEntry list"
  te_subscriber_count :: u64
  te_publisher_count :: u64
  te_latest_snapshot :: "LogEntry option"

definition TopicEntry_new :: "string \<Rightarrow> TopicProfile \<Rightarrow> TopicEntry" where
  "TopicEntry_new name profile =
    \<lparr> te_name = name, te_profile = profile, te_closed = False, te_log = [],
      te_subscriber_count = 0, te_publisher_count = 0, te_latest_snapshot = None \<rparr>"

definition TopicEntry_head_offset :: "TopicEntry \<Rightarrow> i64" where
  "TopicEntry_head_offset t = (if te_log t = [] then 0 else le_offset (last (te_log t)))"

definition TopicEntry_can_subscribe :: "TopicEntry \<Rightarrow> bool" where
  "TopicEntry_can_subscribe t \<longleftrightarrow> te_subscriber_count t < tp_max_subscribers (te_profile t)"

definition TopicEntry_can_publish :: "TopicEntry \<Rightarrow> bool" where
  "TopicEntry_can_publish t \<longleftrightarrow> te_publisher_count t < tp_max_publishers (te_profile t)"

definition TopicEntry_inc_subscriber :: "TopicEntry \<Rightarrow> TopicEntry" where
  "TopicEntry_inc_subscriber t = t\<lparr>te_subscriber_count := te_subscriber_count t + 1\<rparr>"

definition TopicEntry_dec_subscriber :: "TopicEntry \<Rightarrow> TopicEntry" where
  "TopicEntry_dec_subscriber t = t\<lparr>te_subscriber_count := te_subscriber_count t - 1\<rparr>"

definition TopicEntry_inc_publisher :: "TopicEntry \<Rightarrow> TopicEntry" where
  "TopicEntry_inc_publisher t = t\<lparr>te_publisher_count := te_publisher_count t + 1\<rparr>"

definition TopicEntry_dec_publisher :: "TopicEntry \<Rightarrow> TopicEntry" where
  "TopicEntry_dec_publisher t = t\<lparr>te_publisher_count := te_publisher_count t - 1\<rparr>"

text \<open>One pass of the slot loops: refuse at the limit, else exchange \<open>cur + 1\<close>.\<close>

definition slot_next :: "u64 \<Rightarrow> u64 \<Rightarrow> u64 \<Rightarrow> u64 option" where
  "slot_next limit cur n = (if limit \<le> cur then None else Some (cur + 1))"

definition TopicEntry_try_inc_subscriber :: "TopicEntry \<Rightarrow> bool \<times> TopicEntry" where
  "TopicEntry_try_inc_subscriber t =
    (case slot_next (tp_max_subscribers (te_profile t)) (te_subscriber_count t) 1 of
       None \<Rightarrow> (False, t)
     | Some next \<Rightarrow> (True, t\<lparr>te_subscriber_count := next\<rparr>))"

definition TopicEntry_try_inc_publisher :: "TopicEntry \<Rightarrow> bool \<times> TopicEntry" where
  "TopicEntry_try_inc_publisher t =
    (case slot_next (tp_max_publishers (te_profile t)) (te_publisher_count t) 1 of
       None \<Rightarrow> (False, t)
     | Some next \<Rightarrow> (True, t\<lparr>te_publisher_count := next\<rparr>))"

section \<open>Append with retention\<close>

text \<open>\<open>drain(0..len - n)\<close> when the log is longer than \<open>n\<close>.\<close>

definition keep_newest :: "nat \<Rightarrow> 'a list \<Rightarrow> 'a list" where
  "keep_newest n log = (if n < length log then drop (length log - n) log else log)"

definition payload_total :: "LogEntry list \<Rightarrow> nat" where
  "payload_total log = sum_list (map (\<lambda>e. length (le_payload e)) log)"

text \<open>The eviction loop of \<open>Size\<close>: \<open>left\<close> is the payload size of what is left.\<close>

fun size_drain :: "nat \<Rightarrow> nat \<Rightarrow> LogEntry list \<Rightarrow> LogEntry list" where
  "size_drain left max_bytes [] = []"
| "size_drain left max_bytes (e # es) =
    (if max_bytes < left then size_drain (left - length (le_payload e)) max_bytes es
     else e # es)"

definition DURABLE_MEMORY_CAP :: nat where "DURABLE_MEMORY_CAP = 10000"

definition TopicEntry_append :: "i64 \<Rightarrow> LogEntry \<Rightarrow> TopicEntry \<Rightarrow> TopicEntry" where
  "TopicEntry_append now entry0 t =
    (let entry1 = (if le_timestamp entry0 = 0 then entry0\<lparr>le_timestamp := now\<rparr> else entry0);
         entry = entry1\<lparr>le_appended_at := Some now\<rparr>;
         profile = te_profile t;
         log = te_log t @ [entry];
         log' = (case tp_retention profile of
             NoRetention \<Rightarrow> []
           | Count n \<Rightarrow> keep_newest n log
           | Size max_bytes \<Rightarrow> size_drain (payload_total log) max_bytes log
           | Ttl ttl \<Rightarrow>
               filter (\<lambda>e. wrap_i64 (now - (case le_appended_at e of None \<Rightarrow> le_timestamp e
                                                              | Some a \<Rightarrow> a)) \<le> wrap_i64 (int ttl)) log
           | Latest \<Rightarrow> filter (\<lambda>e. le_offset e = le_offset entry) log
           | Durable \<Rightarrow> keep_newest DURABLE_MEMORY_CAP log);
         t' = t\<lparr>te_log := log'\<rparr>
     in if tp_snapshot_enabled profile then t'\<lparr>te_latest_snapshot := Some entry\<rparr> else t')"

definition TopicEntry_range :: "i64 \<Rightarrow> i64 \<Rightarrow> TopicEntry \<Rightarrow> LogEntry list" where
  "TopicEntry_range from to t = filter (\<lambda>e. from \<le> le_offset e \<and> le_offset e < to) (te_log t)"

definition TopicEntry_snapshot :: "TopicEntry \<Rightarrow> LogEntry option" where
  "TopicEntry_snapshot t = te_latest_snapshot t"

section \<open>The topic store\<close>

type_synonym TopicStore = "(string, TopicEntry) hmap"

definition TopicStore_new :: TopicStore where
  "TopicStore_new = []"

text \<open>Returns the entry and the store; entries are addressed by name afterwards, which
  models the shared \<open>Arc\<close>.\<close>

definition TopicStore_get_or_create ::
  "string \<Rightarrow> TopicProfile \<Rightarrow> TopicStore \<Rightarrow> (TopicEntry \<times> TopicStore) rift_result" where
  "TopicStore_get_or_create name default_profile st =
    (case validate_name name of
       Inl e \<Rightarrow> Inl e
     | Inr _ \<Rightarrow>
         (let st' = hm_or_insert name (TopicEntry_new name default_profile) st
          in Inr (hm_get_or (TopicEntry_new name default_profile) st name, st')))"

definition TopicStore_get :: "string \<Rightarrow> TopicStore \<Rightarrow> TopicEntry option" where
  "TopicStore_get name st = hm_get st name"

definition TopicStore_exists :: "string \<Rightarrow> TopicStore \<Rightarrow> bool" where
  "TopicStore_exists name st \<longleftrightarrow> hm_get st name \<noteq> None"

definition TopicStore_remove :: "string \<Rightarrow> TopicStore \<Rightarrow> TopicEntry option \<times> TopicStore" where
  "TopicStore_remove name st = (hm_get st name, hm_del name st)"

definition TopicStore_names :: "TopicStore \<Rightarrow> string list" where
  "TopicStore_names st = hm_keys st"

definition TopicStore_stats :: "TopicStore \<Rightarrow> (string, u64 \<times> u64 \<times> i64) hmap" where
  "TopicStore_stats st =
    map (\<lambda>(k, e). (k, (te_subscriber_count e, te_publisher_count e, TopicEntry_head_offset e))) st"

text \<open>An update of a topic in place, through its shared handle.\<close>

definition TopicStore_update :: "string \<Rightarrow> (TopicEntry \<Rightarrow> TopicEntry) \<Rightarrow> TopicStore \<Rightarrow> TopicStore" where
  "TopicStore_update name f st =
    (case hm_get st name of None \<Rightarrow> st | Some t \<Rightarrow> hm_put name (f t) st)"

section \<open>Name validation\<close>

lemma validate_name_ok_iff:
  "validate_name name = Inr () \<longleftrightarrow>
    name \<noteq> [] \<and> length name \<le> 256 \<and> hd name \<noteq> CHR ''$'' \<and> \<not> has_control name"
  by (simp add: validate_name_def)

lemma has_control_NUL: "CHR 0x00 \<in> set s \<Longrightarrow> has_control s"
  by (induction s) auto

text \<open>A valid name never contains the NUL byte that separates storage keys.\<close>

lemma valid_name_no_NUL: "validate_name name = Inr () \<Longrightarrow> CHR 0x00 \<notin> set name"
  using has_control_NUL by (auto simp: validate_name_ok_iff)

section \<open>Retention\<close>

lemma keep_newest_length [simp]: "length (keep_newest n log) = min n (length log)"
  by (auto simp: keep_newest_def)

lemma keep_newest_suffix: "suffix (keep_newest n log) log"
  by (simp add: keep_newest_def suffix_drop)

lemma payload_total_simps [simp]:
  "payload_total [] = 0"
  "payload_total (e # es) = length (le_payload e) + payload_total es"
  by (simp_all add: payload_total_def)

lemma size_drain_suffix: "suffix (size_drain n m log) log"
  by (induction n m log rule: size_drain.induct) (auto simp: suffix_Cons)

lemma size_drain_total: "payload_total (size_drain (payload_total log) m log) \<le> m"
  by (induction log) auto

text \<open>The loop keeps the longest suffix that fits.\<close>

lemma size_drain_maximal:
  "suffix s log \<Longrightarrow> payload_total s \<le> m \<Longrightarrow> suffix s (size_drain (payload_total log) m log)"
proof (induction log)
  case (Cons e log)
  show ?case
  proof (cases "m < payload_total (e # log)")
    case True
    with Cons.prems have "suffix s log" by (auto simp: suffix_Cons)
    with Cons True show ?thesis by simp
  next
    case False
    with Cons.prems show ?thesis by simp
  qed
qed simp

text \<open>The stamped entry that \<open>append\<close> pushes.\<close>

definition stamp :: "i64 \<Rightarrow> LogEntry \<Rightarrow> LogEntry" where
  "stamp now e = (if le_timestamp e = 0 then e\<lparr>le_timestamp := now\<rparr> else e)\<lparr>le_appended_at := Some now\<rparr>"

lemma stamp_simps [simp]:
  "le_offset (stamp now e) = le_offset e" "le_appended_at (stamp now e) = Some now"
  "le_payload (stamp now e) = le_payload e" "le_message_id (stamp now e) = le_message_id e"
  by (simp_all add: stamp_def)

definition entry_age :: "i64 \<Rightarrow> LogEntry \<Rightarrow> i64" where
  "entry_age now e =
    wrap_i64 (now - (case le_appended_at e of None \<Rightarrow> le_timestamp e | Some a \<Rightarrow> a))"

definition retained :: "i64 \<Rightarrow> RetentionPolicy \<Rightarrow> LogEntry \<Rightarrow> LogEntry list \<Rightarrow> LogEntry list" where
  "retained now p entry log =
    (case p of
       NoRetention \<Rightarrow> []
     | Count n \<Rightarrow> keep_newest n log
     | Size m \<Rightarrow> size_drain (payload_total log) m log
     | Ttl ttl \<Rightarrow> filter (\<lambda>e. entry_age now e \<le> wrap_i64 (int ttl)) log
     | Latest \<Rightarrow> filter (\<lambda>e. le_offset e = le_offset entry) log
     | Durable \<Rightarrow> keep_newest DURABLE_MEMORY_CAP log)"

lemma TopicEntry_append_log:
  "te_log (TopicEntry_append now e t) =
    retained now (tp_retention (te_profile t)) (stamp now e) (te_log t @ [stamp now e])"
  by (simp add: TopicEntry_append_def retained_def stamp_def entry_age_def Let_def
      cong: RetentionPolicy.case_cong)

lemma TopicEntry_append_snapshot:
  "te_latest_snapshot (TopicEntry_append now e t) =
    (if tp_snapshot_enabled (te_profile t) then Some (stamp now e) else te_latest_snapshot t)"
  by (simp add: TopicEntry_append_def stamp_def Let_def)

lemma TopicEntry_append_frame [simp]:
  "te_name (TopicEntry_append now e t) = te_name t"
  "te_profile (TopicEntry_append now e t) = te_profile t"
  "te_subscriber_count (TopicEntry_append now e t) = te_subscriber_count t"
  "te_publisher_count (TopicEntry_append now e t) = te_publisher_count t"
  by (simp_all add: TopicEntry_append_def Let_def)

lemma suffix_subseq: "suffix xs ys \<Longrightarrow> subseq xs ys"
  by (auto simp: suffix_def)

lemma retained_subseq: "subseq (retained now p entry log) log"
  by (cases p) (simp_all add: retained_def suffix_subseq keep_newest_suffix size_drain_suffix)

section \<open>Sorted logs\<close>

definition log_sorted :: "LogEntry list \<Rightarrow> bool" where
  "log_sorted log \<longleftrightarrow> sorted_wrt (<) (map le_offset log)"

lemma log_sorted_Nil [simp]: "log_sorted []"
  by (simp add: log_sorted_def)

lemma log_sorted_snoc [simp]:
  "log_sorted (log @ [e]) \<longleftrightarrow> log_sorted log \<and> (\<forall>x \<in> set log. le_offset x < le_offset e)"
  by (auto simp: log_sorted_def sorted_wrt_append)

lemma log_sorted_subseq: "subseq xs ys \<Longrightarrow> log_sorted ys \<Longrightarrow> log_sorted xs"
  unfolding log_sorted_def sorted_wrt_map
  by (induction rule: list_emb.induct) (auto dest: list_emb_set)

lemma append_log_sorted [keeps]:
  "log_sorted (te_log t) \<Longrightarrow> \<forall>x \<in> set (te_log t). le_offset x < le_offset e
    \<Longrightarrow> log_sorted (te_log (TopicEntry_append now e t))"
  unfolding TopicEntry_append_log by (rule log_sorted_subseq [OF retained_subseq]) simp

lemma append_log_members:
  "x \<in> set (te_log (TopicEntry_append now e t)) \<Longrightarrow> x = stamp now e \<or> x \<in> set (te_log t)"
  unfolding TopicEntry_append_log by (drule list_emb_set [OF retained_subseq]) auto

text \<open>A publisher's history: append each entry at its clock reading.\<close>

definition append_all :: "(i64 \<times> LogEntry) list \<Rightarrow> TopicEntry \<Rightarrow> TopicEntry" where
  "append_all es t = foldl (\<lambda>t (now, e). TopicEntry_append now e t) t es"

lemma append_all_snoc: "append_all (es @ [(now, e)]) t = TopicEntry_append now e (append_all es t)"
  by (simp add: append_all_def)

lemma append_all_Nil [simp]: "append_all [] t = t"
  by (simp add: append_all_def)

lemma append_all_profile [simp]: "te_profile (append_all es t) = te_profile t"
  by (induction es rule: rev_induct) (auto simp: append_all_snoc split: prod.splits)

lemma append_all_members:
  "x \<in> set (te_log (append_all es (TopicEntry_new name p)))
    \<Longrightarrow> \<exists>(now, e) \<in> set es. x = stamp now e"
proof (induction es rule: rev_induct)
  case Nil
  then show ?case by (simp add: TopicEntry_new_def)
next
  case (snoc ne es)
  then show ?case by (cases ne) (auto simp: append_all_snoc dest: append_log_members)
qed

lemma append_all_sorted:
  "sorted_wrt (<) (map (\<lambda>(now, e). le_offset e) es)
    \<Longrightarrow> log_sorted (te_log (append_all es (TopicEntry_new name p)))"
proof (induction es rule: rev_induct)
  case Nil
  then show ?case by (simp add: TopicEntry_new_def)
next
  case (snoc ne es)
  obtain now e where ne: "ne = (now, e)" by fastforce
  have "le_offset x < le_offset e"
    if "x \<in> set (te_log (append_all es (TopicEntry_new name p)))" for x
    using append_all_members [OF that] snoc.prems ne by (fastforce simp: sorted_wrt_append)
  then show ?case using snoc ne by (simp add: append_all_snoc append_log_sorted sorted_wrt_append)
qed

section \<open>Slots and the store\<close>

interpretation slots: reservation "slot_next m" "(-)" "\<lambda>n. n = 1" m for m
proof unfold_locales
  fix c n c' :: u64
  assume "c \<le> m" and n: "n = 1"
  show "slot_next m c n = Some c' \<Longrightarrow> c' \<le> m \<and> unat c' = unat c + unat n"
    using n by (auto simp: slot_next_def not_le inc_le unat_inc_less split: if_splits)
  show "slot_next m c n = None \<Longrightarrow> unat m < unat c + unat n"
    using n by (auto simp: slot_next_def word_le_nat_alt split: if_splits)
next
  fix n c :: u64
  show "unat n \<le> unat c \<Longrightarrow> unat (c - n) = unat c - unat n"
    by (simp add: unat_sub word_le_nat_alt)
qed

definition topic_store_ok :: "TopicStore \<Rightarrow> bool" where
  "topic_store_ok st \<longleftrightarrow>
    hm_wf st \<and> (\<forall>k t. hm_get st k = Some t \<longrightarrow> te_name t = k \<and> validate_name k = Inr ())"

lemma topic_store_ok_new [keeps]: "topic_store_ok TopicStore_new"
  by (simp add: topic_store_ok_def TopicStore_new_def)

lemma topic_store_ok_get_or_create [keeps]:
  "topic_store_ok st \<Longrightarrow> TopicStore_get_or_create name p st = Inr (t, st') \<Longrightarrow> topic_store_ok st'"
  by (auto simp: topic_store_ok_def TopicStore_get_or_create_def TopicEntry_new_def hm_get_or_def
      split: sum.splits option.splits if_splits)

lemma topic_store_ok_remove [keeps]: "topic_store_ok st \<Longrightarrow> topic_store_ok (snd (TopicStore_remove name st))"
  by (auto simp: topic_store_ok_def TopicStore_remove_def)

lemma topic_store_ok_update [keeps]:
  "topic_store_ok st \<Longrightarrow> (\<And>t. te_name (f t) = te_name t) \<Longrightarrow> topic_store_ok (TopicStore_update name f st)"
  by (auto simp: topic_store_ok_def TopicStore_update_def split: option.splits)

lemma get_or_create_lookup:
  "TopicStore_get_or_create name p st = Inr (t, st') \<Longrightarrow>
    TopicStore_get k st' = (if k = name then Some t else TopicStore_get k st)"
  by (auto simp: TopicStore_get_or_create_def TopicStore_get_def split: sum.splits)

section \<open>Properties\<close>

text \<open>Retention: after an append the log is the suffix, filter or single entry its
  policy promises: nothing for \<open>NoRetention\<close>, the newest \<open>n\<close> entries for \<open>Count\<close>, the
  longest suffix within the byte budget for \<open>Size\<close>, exactly the entries young enough for
  \<open>Ttl\<close>, the appended entry alone for \<open>Latest\<close>, and the newest 10000 for \<open>Durable\<close>.\<close>

theorem append_enforces_retention:
  assumes "\<forall>x \<in> set (te_log t). le_offset x \<noteq> le_offset e"
    and "full = te_log t @ [stamp now e]" and "new = te_log (TopicEntry_append now e t)"
  shows "case tp_retention (te_profile t) of
      NoRetention \<Rightarrow> new = []
    | Count n \<Rightarrow> suffix new full \<and> length new = min n (length full)
    | Size m \<Rightarrow> suffix new full \<and> payload_total new \<le> m
        \<and> (\<forall>s. suffix s full \<longrightarrow> payload_total s \<le> m \<longrightarrow> suffix s new)
    | Ttl ttl \<Rightarrow> subseq new full
        \<and> (\<forall>x. x \<in> set new \<longleftrightarrow> x \<in> set full \<and> entry_age now x \<le> wrap_i64 (int ttl))
    | Latest \<Rightarrow> new = [stamp now e]
    | Durable \<Rightarrow> suffix new full \<and> length new = min 10000 (length full)"
proof -
  have new: "new = retained now (tp_retention (te_profile t)) (stamp now e) full"
    using assms(2,3) by (simp add: TopicEntry_append_log)
  have latest: "filter (\<lambda>x. le_offset x = le_offset e) full = [stamp now e]"
    using assms(1,2) by (auto simp: filter_empty_conv)
  show ?thesis
    by (cases "tp_retention (te_profile t)")
      (auto simp: new retained_def keep_newest_suffix size_drain_suffix size_drain_total
        size_drain_maximal latest DURABLE_MEMORY_CAP_def)
qed

definition sample_entry :: "int \<Rightarrow> LogEntry" where
  "sample_entry n = \<lparr> le_offset = n, le_publisher_session = None, le_message_id = ''m'',
     le_class = ''event'', le_event = None, le_payload = [1, 2, 3], le_timestamp = 0,
     le_appended_at = None \<rparr>"

theorem append_enforces_retention_witness:
  "te_log (TopicEntry_append 70 (sample_entry 2)
     (TopicEntry_append 60 (sample_entry 1) (TopicEntry_new ''t'' TopicProfile_default)))
   = [stamp 70 (sample_entry 2)]"
proof -
  let ?t = "TopicEntry_append 60 (sample_entry 1) (TopicEntry_new ''t'' TopicProfile_default)"
  have "\<forall>x \<in> set (te_log ?t). le_offset x \<noteq> le_offset (sample_entry 2)"
    by (simp add: TopicEntry_append_def TopicEntry_new_def TopicProfile_default_def
        sample_entry_def Let_def)
  from append_enforces_retention [OF this refl refl, of 70] show ?thesis
    by (simp add: TopicEntry_new_def TopicProfile_default_def)
qed

text \<open>Replay order: a topic that receives entries with increasing offsets keeps its log
  strictly sorted under every policy, and a range query returns, in ascending order,
  exactly the retained entries of the half-open range.\<close>

lemma append_history_sorted_range:
  assumes "sorted_wrt (<) (map (\<lambda>(now, e). le_offset e) es)"
    and "t = append_all es (TopicEntry_new name p)"
  shows "log_sorted (te_log t) \<and> log_sorted (TopicEntry_range from to t)
    \<and> (\<forall>x. x \<in> set (TopicEntry_range from to t) \<longleftrightarrow>
          x \<in> set (te_log t) \<and> from \<le> le_offset x \<and> le_offset x < to)
    \<and> (\<forall>x \<in> set (te_log t). \<exists>(now, e) \<in> set es. x = stamp now e)"
proof -
  have s: "log_sorted (te_log t)" using append_all_sorted [OF assms(1)] assms(2) by simp
  have "log_sorted (TopicEntry_range from to t)"
    unfolding TopicEntry_range_def by (rule log_sorted_subseq [OF _ s]) simp
  with s show ?thesis
    using append_all_members assms(2) by (auto simp: TopicEntry_range_def)
qed

definition count2_profile :: TopicProfile where
  "count2_profile = TopicProfile_default\<lparr>tp_retention := Count 2\<rparr>"

lemma append_history_sorted_range_witness:
  "map le_offset (TopicEntry_range 2 4
     (append_all [(10, sample_entry 1), (11, sample_entry 2), (12, sample_entry 4), (13, sample_entry 5)]
        (TopicEntry_new ''t'' count2_profile))) = []
   \<and> log_sorted (TopicEntry_range 4 6
     (append_all [(10, sample_entry 1), (11, sample_entry 2), (12, sample_entry 4), (13, sample_entry 5)]
        (TopicEntry_new ''t'' count2_profile)))"
  using append_history_sorted_range
    [of "[(10, sample_entry 1), (11, sample_entry 2), (12, sample_entry 4), (13, sample_entry 5)]"
      _ "''t''" count2_profile 4 6]
  by (simp add: append_all_def TopicEntry_append_def TopicEntry_new_def count2_profile_def
      TopicProfile_default_def sample_entry_def keep_newest_def TopicEntry_range_def Let_def)

text \<open>Slot reservation: a reservation succeeds exactly when the topic is below its limit,
  then adds one without wrap-around and stays within the limit; a refused one changes
  nothing.  The same holds for publisher slots.\<close>

lemma slot_reservation:
  "(\<exists>t'. TopicEntry_try_inc_subscriber t = (TopicEntry_can_subscribe t, t')
      \<and> unat (te_subscriber_count t') =
          unat (te_subscriber_count t) + (if TopicEntry_can_subscribe t then 1 else 0)
      \<and> (if TopicEntry_can_subscribe t
         then te_subscriber_count t' \<le> tp_max_subscribers (te_profile t) else t' = t))
   \<and> (\<exists>t'. TopicEntry_try_inc_publisher t = (TopicEntry_can_publish t, t')
      \<and> unat (te_publisher_count t') =
          unat (te_publisher_count t) + (if TopicEntry_can_publish t then 1 else 0)
      \<and> (if TopicEntry_can_publish t
         then te_publisher_count t' \<le> tp_max_publishers (te_profile t) else t' = t))"
  by (auto simp: TopicEntry_try_inc_subscriber_def TopicEntry_can_subscribe_def
      TopicEntry_try_inc_publisher_def TopicEntry_can_publish_def slot_next_def not_le
      unat_inc_less inc_le)

text \<open>C19. Under any interleaving of tasks that reserve and release slots of one topic, the
  counter is the number of slots held and never exceeds the limit: the compare-and-swap
  loop has no check-then-act race.\<close>

theorem slot_interleaving_exact:
  assumes "cas_reach (slot_next m) (-) (\<lambda>n. n = 1) k (c, ts)"
  shows "unat c = length (filter (\<lambda>t. t = Held 1) ts)
    \<and> length (filter (\<lambda>t. t = Held 1) ts) \<le> unat m"
proof -
  have "task_ok (\<lambda>n. n = 1) m t" if "t \<in> set ts" for t
    using slots.budget_inv_reach [OF assms] that by (simp add: budget_inv_def)
  moreover have "\<forall>t \<in> set ts. task_ok (\<lambda>n. n = 1) m t
      \<Longrightarrow> held_total ts = length (filter (\<lambda>t. t = Held 1) ts)" for ts
  proof (induction ts)
    case (Cons t ts)
    then show ?case by (cases t) (simp_all add: held_total_def)
  qed (simp add: held_total_def)
  ultimately show ?thesis using slots.reach_exact [OF assms] by simp
qed

theorem slot_interleaving_exact_witness:
  "\<exists>c ts. cas_reach (slot_next 1) (-) (\<lambda>n. n = 1) 2 (c, ts) \<and> ts = [Held 1, Idle]
     \<and> unat c = length (filter (\<lambda>t. t = Held 1) ts)"
proof -
  let ?R = "cas_reach (slot_next 1) (-) (\<lambda>n. n = 1) 2"
  let ?S = "cas_step (slot_next 1) (-) (\<lambda>n. n = 1)"
  have "?R (0, [Idle, Idle])"
    using cas_reach.init [of "slot_next 1" "(-)" "\<lambda>n. n = 1" 2] by (simp add: numeral_2_eq_2)
  moreover have "?S (0, [Idle, Idle]) (0, [Ready 1, Idle])"
    using cas_step.start [of 0 "[Idle, Idle]" "\<lambda>n. n = 1" 1] by simp
  moreover have "?S (0, [Ready 1, Idle]) (0, [Loaded 1 0, Idle])"
    using cas_step.load [of 0 "[Ready 1, Idle]" 1] by simp
  moreover have "?S (0, [Loaded 1 0, Idle]) (1, [Held 1, Idle])"
    using cas_step.cas_ok [of 0 "[Loaded 1 0, Idle]" 1 0 "slot_next 1" 1 0]
    by (simp add: slot_next_def)
  ultimately have r: "?R (1, [Held 1, Idle])" by (meson cas_reach.step)
  from slot_interleaving_exact [OF r] r show ?thesis by blast
qed

text \<open>Releasing a slot of a topic that has none wraps the counter to \<open>2 ^ 64 - 1\<close>:
  from then on every reservation is refused, whatever the limit.\<close>

lemma release_at_zero_locks_topic:
  assumes "te_subscriber_count t = 0" and "te_publisher_count t = 0"
  shows "unat (te_subscriber_count (TopicEntry_dec_subscriber t)) = 2 ^ 64 - 1
    \<and> fst (TopicEntry_try_inc_subscriber (TopicEntry_dec_subscriber t)) = False
    \<and> fst (TopicEntry_try_inc_publisher (TopicEntry_dec_publisher t)) = False"
proof -
  have "x \<le> (- 1 :: u64)" for x by simp
  then show ?thesis
    using assms unat_minus_one_u64 by (simp add: TopicEntry_dec_subscriber_def TopicEntry_dec_publisher_def
        TopicEntry_try_inc_subscriber_def TopicEntry_try_inc_publisher_def slot_next_def)
qed

lemma release_at_zero_locks_topic_witness:
  "fst (TopicEntry_try_inc_subscriber
     (TopicEntry_dec_subscriber (TopicEntry_new ''t'' TopicProfile_default))) = False"
  using release_at_zero_locks_topic [of "TopicEntry_new ''t'' TopicProfile_default"]
  by (simp add: TopicEntry_new_def)

end
