(* ===== verification/Protocol.thy ===== *)
theory Protocol
  imports Frame_Codec Topics
begin

text \<open>
  Protocol constants and handshake data: versions and their negotiation
  (\<open>protocol/version.rs\<close>), the heartbeat policy (\<open>protocol/heartbeat.rs\<close>), the Hello, Welcome
  and Ready payloads (\<open>protocol/hello.rs\<close>), the server configuration
  (\<open>config.rs\<close>), and the payload codecs with their negotiation (\<open>codec\<close>), all of
  \<open>rifts-core/src\<close>.
\<close>

section \<open>Versions\<close>

definition PROTOCOL_NAME :: string where "PROTOCOL_NAME = ''rift''"
definition PROTOCOL_MAJOR :: u16 where "PROTOCOL_MAJOR = 1"
definition PROTOCOL_MINOR :: u16 where "PROTOCOL_MINOR = 0"

definition SUPPORTED_MAJOR :: "u16 \<Rightarrow> bool" where
  "SUPPORTED_MAJOR m \<longleftrightarrow> 1 \<le> m \<and> m \<le> 1"

definition encoded_version :: u16 where
  "encoded_version = or (push_bit 8 PROTOCOL_MAJOR) PROTOCOL_MINOR"

definition negotiate_major :: "u16 \<Rightarrow> u16 option" where
  "negotiate_major client_major = (if SUPPORTED_MAJOR client_major then Some client_major else None)"

section \<open>Heartbeat policy\<close>

record HeartbeatPolicy =
  hp_ping_interval :: nat
  hp_pong_timeout :: nat
  hp_max_missed_pongs :: u32
  hp_idle_timeout :: nat
  hp_jitter :: nat

definition HeartbeatPolicy_default :: HeartbeatPolicy where
  "HeartbeatPolicy_default =
    \<lparr> hp_ping_interval = 25000, hp_pong_timeout = 10000, hp_max_missed_pongs = 2,
      hp_idle_timeout = 300000, hp_jitter = 2500 \<rparr>"

definition HeartbeatPolicy_validate :: "HeartbeatPolicy \<Rightarrow> string + unit" where
  "HeartbeatPolicy_validate p =
    (if hp_ping_interval p = 0 then Inl ''ping_interval must be > 0''
     else if hp_pong_timeout p = 0 then Inl ''pong_timeout must be > 0''
     else if hp_max_missed_pongs p = 0 then Inl ''max_missed_pongs must be > 0''
     else if hp_idle_timeout p = 0 then Inl ''idle_timeout must be > 0''
     else if hp_ping_interval p < hp_jitter p then Inl ''jitter must be <= ping_interval''
     else Inr ())"

section \<open>Handshake payloads\<close>

datatype AuthMode = Bearer | Cookie | Mtls | SignedChallenge | Anonymous

primrec AuthMode_name :: "AuthMode \<Rightarrow> string" where
  "AuthMode_name AuthMode.Bearer = ''bearer''"
| "AuthMode_name AuthMode.Cookie = ''cookie''"
| "AuthMode_name AuthMode.Mtls = ''mtls''"
| "AuthMode_name AuthMode.SignedChallenge = ''signed_challenge''"
| "AuthMode_name AuthMode.Anonymous = ''anonymous''"

record SdkInfo =
  sdk_name :: string
  sdk_version :: string

record Hello =
  h_protocol :: string
  h_version :: u16
  h_client_id :: "string option"
  h_session_id :: "string option"
  h_epoch :: "u32 option"
  h_codecs :: "EncodingFormat list"
  h_compression :: "string list"
  h_auth_modes :: "AuthMode list"
  h_last_offsets :: "(string, i64) hmap"
  h_client_clock :: "i64 option"
  h_sdk :: "SdkInfo option"
  h_features :: "string list"

definition Hello_new :: "EncodingFormat list \<Rightarrow> Hello" where
  "Hello_new codecs =
    \<lparr> h_protocol = PROTOCOL_NAME, h_version = encoded_version, h_client_id = None, h_session_id = None,
      h_epoch = None, h_codecs = codecs, h_compression = [], h_auth_modes = [], h_last_offsets = [],
      h_client_clock = None, h_sdk = None, h_features = [] \<rparr>"

record Welcome =
  w_session_id :: string
  w_epoch :: u32
  w_negotiated_codec :: EncodingFormat
  w_negotiated_compression :: "string option"
  w_server_time :: i64
  w_resume_window_ms :: u32
  w_features :: "string list"

datatype ResumeResult = Resumed | Partial | Rejected | Expired | Conflict

record Ready =
  r_session_id :: string
  r_epoch :: u32
  r_ping_interval_ms :: u32
  r_pong_timeout_ms :: u32
  r_max_missed_pongs :: u32
  r_idle_timeout_ms :: u32
  r_jitter_ms :: u32
  r_max_payload_bytes :: u32
  r_max_topics_per_connection :: u32
  r_max_send_queue_bytes :: u32
  r_server_time :: i64

section \<open>Server configuration\<close>

record ServerConfig =
  sc_max_payload_bytes :: usize
  sc_max_topics_per_connection :: usize
  sc_max_send_queue_bytes :: usize
  sc_heartbeat :: HeartbeatPolicy
  sc_max_connections :: usize
  sc_write_timeout :: nat
  sc_idle_timeout :: nat
  sc_reconnect_base_ms :: u32
  sc_reconnect_max_ms :: u32
  sc_replay_window :: nat
  sc_dedupe_window :: nat
  sc_max_auth_failures :: u32
  sc_codec_offer :: "EncodingFormat list"
  sc_default_topic_profile :: TopicProfile

definition ServerConfig_default :: ServerConfig where
  "ServerConfig_default =
    \<lparr> sc_max_payload_bytes = 65536, sc_max_topics_per_connection = 128,
      sc_max_send_queue_bytes = 1048576, sc_heartbeat = HeartbeatPolicy_default,
      sc_max_connections = 0, sc_write_timeout = 30000, sc_idle_timeout = 300000,
      sc_reconnect_base_ms = 500, sc_reconnect_max_ms = 15000, sc_replay_window = 300000,
      sc_dedupe_window = 60000, sc_max_auth_failures = 3, sc_codec_offer = [],
      sc_default_topic_profile = TopicProfile_default \<rparr>"

definition ServerConfig_supported_features :: "ServerConfig \<Rightarrow> string list" where
  "ServerConfig_supported_features c =
    [''replay'', ''snapshot'', ''resume'', ''topic_profiles'', ''backpressure'']"

definition ServerConfig_validate :: "ServerConfig \<Rightarrow> string + unit" where
  "ServerConfig_validate c =
    (if sc_max_payload_bytes c = 0 then Inl ''max_payload_bytes must be > 0''
     else if sc_max_send_queue_bytes c = 0 then Inl ''max_send_queue_bytes must be > 0''
     else case HeartbeatPolicy_validate (sc_heartbeat c) of
            Inl e \<Rightarrow> Inl (''heartbeat: '' @ e)
          | Inr _ \<Rightarrow> Inr ())"

section \<open>Payload codecs\<close>

text \<open>The \<open>PayloadCodec\<close> trait as a record.  The encoders of \<open>serde_json\<close> and \<open>ciborium\<close>
  are parameters.\<close>

record PayloadCodec =
  pc_frame_codec :: EncodingFormat
  pc_encode_value :: "json \<Rightarrow> bytes rift_result"
  pc_decode_value :: "bytes \<Rightarrow> json rift_result"

definition MAX_JSON_BYTES :: nat where "MAX_JSON_BYTES = 1048576"

definition lift_err :: "('e \<Rightarrow> RiftError) \<Rightarrow> 'e + 'a \<Rightarrow> 'a rift_result" where
  "lift_err f r = (case r of Inl e \<Rightarrow> Inl (f e) | Inr x \<Rightarrow> Inr x)"

definition JsonCodec :: "json_to_vec \<Rightarrow> json_from_slice \<Rightarrow> PayloadCodec" where
  "JsonCodec jto jfrom =
    \<lparr> pc_frame_codec = EncodingFormat.Json,
      pc_encode_value = (\<lambda>v. lift_err RiftError.SerdeJson (jto v)),
      pc_decode_value = (\<lambda>bs.
        if MAX_JSON_BYTES < length bs
        then Inl (RiftError.Frame (FrameReject.PayloadTooLarge (length bs) MAX_JSON_BYTES))
        else lift_err RiftError.SerdeJson (jfrom bs)) \<rparr>"

definition CborCodec :: "json_to_vec \<Rightarrow> json_from_slice \<Rightarrow> PayloadCodec" where
  "CborCodec cto cfrom =
    \<lparr> pc_frame_codec = EncodingFormat.Cbor,
      pc_encode_value = (\<lambda>v. lift_err RiftError.Cbor (cto v)),
      pc_decode_value = (\<lambda>bs. lift_err RiftError.CborDe (cfrom bs)) \<rparr>"

definition PayloadCodec_encode_value_to :: "PayloadCodec \<Rightarrow> json \<Rightarrow> bytes \<Rightarrow> bytes rift_result" where
  "PayloadCodec_encode_value_to c v buf =
    (case pc_encode_value c v of Inl e \<Rightarrow> Inl e | Inr bs \<Rightarrow> Inr (buf @ bs))"

text \<open>\<open>format!("{:?}", ...)\<close> of a list of formats.\<close>

primrec EncodingFormat_debug :: "EncodingFormat \<Rightarrow> string" where
  "EncodingFormat_debug EncodingFormat.Json = ''Json''"
| "EncodingFormat_debug EncodingFormat.Cbor = ''Cbor''"

fun debug_items :: "string list \<Rightarrow> string" where
  "debug_items [] = ''''"
| "debug_items [x] = x"
| "debug_items (x # y # xs) = x @ '', '' @ debug_items (y # xs)"

definition debug_list :: "string list \<Rightarrow> string" where
  "debug_list xs = ''['' @ debug_items xs @ '']''"

fun negotiate_loop ::
  "PayloadCodec list \<Rightarrow> EncodingFormat list \<Rightarrow> PayloadCodec option" where
  "negotiate_loop server [] = None"
| "negotiate_loop server (want # rest) =
    (case List.find (\<lambda>c. pc_frame_codec c = want) server of
       Some c \<Rightarrow> Some c
     | None \<Rightarrow> negotiate_loop server rest)"

definition negotiate :: "PayloadCodec list \<Rightarrow> EncodingFormat list \<Rightarrow> PayloadCodec rift_result" where
  "negotiate server client =
    (case negotiate_loop server client of
       Some c \<Rightarrow> Inr c
     | None \<Rightarrow> Inl (RiftError.Frame (FrameReject.CodecUnsupported
                 (''client offered '' @ debug_list (map EncodingFormat_debug client)))))"

section \<open>Lemmas\<close>

lemma negotiate_major_iff: "negotiate_major m = Some m' \<longleftrightarrow> m' = 1 \<and> m = 1"
  by (auto simp: negotiate_major_def SUPPORTED_MAJOR_def)

lemma encoded_version_major: "drop_bit 8 encoded_version = PROTOCOL_MAJOR"
  by (simp add: encoded_version_def PROTOCOL_MAJOR_def PROTOCOL_MINOR_def)

lemma negotiate_loop_Some:
  "negotiate_loop server client = Some c \<longleftrightarrow>
    (\<exists>pre post. client = pre @ pc_frame_codec c # post
      \<and> (\<forall>f \<in> set pre. \<forall>d \<in> set server. pc_frame_codec d \<noteq> f)
      \<and> List.find (\<lambda>d. pc_frame_codec d = pc_frame_codec c) server = Some c)"
proof (induction client)
  case (Cons want rest)
  show ?case
  proof (cases "List.find (\<lambda>c. pc_frame_codec c = want) server")
    case None
    then have none: "\<forall>d \<in> set server. pc_frame_codec d \<noteq> want" by (auto simp: find_None_iff)
    have "(\<exists>pre post. want # rest = pre @ pc_frame_codec c # post
        \<and> (\<forall>f \<in> set pre. \<forall>d \<in> set server. pc_frame_codec d \<noteq> f)
        \<and> List.find (\<lambda>d. pc_frame_codec d = pc_frame_codec c) server = Some c)
      \<longleftrightarrow> (\<exists>pre post. rest = pre @ pc_frame_codec c # post
        \<and> (\<forall>f \<in> set pre. \<forall>d \<in> set server. pc_frame_codec d \<noteq> f)
        \<and> List.find (\<lambda>d. pc_frame_codec d = pc_frame_codec c) server = Some c)" (is "?L \<longleftrightarrow> ?R")
    proof
      assume ?L
      then obtain pre post where p: "want # rest = pre @ pc_frame_codec c # post"
        "\<forall>f \<in> set pre. \<forall>d \<in> set server. pc_frame_codec d \<noteq> f"
        "List.find (\<lambda>d. pc_frame_codec d = pc_frame_codec c) server = Some c" by blast
      have "c \<in> set server" using p(3) by (auto simp: find_Some_iff)
      then have "pre \<noteq> []" using p(1) none by auto
      then obtain pre' where "pre = want # pre'" using p(1) by (cases pre) auto
      then show ?R using p by auto
    next
      assume ?R
      then obtain pre post where "rest = pre @ pc_frame_codec c # post"
        "\<forall>f \<in> set pre. \<forall>d \<in> set server. pc_frame_codec d \<noteq> f"
        "List.find (\<lambda>d. pc_frame_codec d = pc_frame_codec c) server = Some c" by blast
      then show ?L using none by (intro exI [of _ "want # pre"] exI [of _ post]) auto
    qed
    then show ?thesis using Cons.IH None by simp
  next
    case (Some e)
    then have e: "e \<in> set server" "pc_frame_codec e = want" by (auto simp: find_Some_iff)
    show ?thesis
    proof
      assume "negotiate_loop server (want # rest) = Some c"
      then have "c = e" using Some by simp
      then show "\<exists>pre post. want # rest = pre @ pc_frame_codec c # post
          \<and> (\<forall>f \<in> set pre. \<forall>d \<in> set server. pc_frame_codec d \<noteq> f)
          \<and> List.find (\<lambda>d. pc_frame_codec d = pc_frame_codec c) server = Some c"
        using Some e by (intro exI [of _ "[]"] exI [of _ rest]) auto
    next
      assume "\<exists>pre post. want # rest = pre @ pc_frame_codec c # post
          \<and> (\<forall>f \<in> set pre. \<forall>d \<in> set server. pc_frame_codec d \<noteq> f)
          \<and> List.find (\<lambda>d. pc_frame_codec d = pc_frame_codec c) server = Some c"
      then obtain pre post where p: "want # rest = pre @ pc_frame_codec c # post"
        "\<forall>f \<in> set pre. \<forall>d \<in> set server. pc_frame_codec d \<noteq> f"
        "List.find (\<lambda>d. pc_frame_codec d = pc_frame_codec c) server = Some c" by blast
      have "pre = []" using p(1,2) e by (cases pre) auto
      then show "negotiate_loop server (want # rest) = Some c" using p by simp
    qed
  qed
qed simp

lemma negotiate_loop_None:
  "negotiate_loop server client = None \<longleftrightarrow> set client \<inter> pc_frame_codec ` set server = {}"
proof (induction client)
  case (Cons want rest)
  show ?case
  proof (cases "List.find (\<lambda>c. pc_frame_codec c = want) server")
    case None
    then have "want \<notin> pc_frame_codec ` set server" by (auto simp: find_None_iff)
    then show ?thesis using Cons.IH None by simp
  next
    case (Some c)
    then have "c \<in> set server" "pc_frame_codec c = want" by (auto simp: find_Some_iff)
    then show ?thesis using Some by auto
  qed
qed simp

section \<open>Properties\<close>

text \<open>Codec negotiation: the result is the first format of the client's list that the
  server has a codec for, with the server's first codec for it; an error is
  returned exactly when no offered format is served.\<close>

theorem negotiate_first_match:
  "(negotiate server client = Inr c \<longleftrightarrow>
     (\<exists>pre post. client = pre @ pc_frame_codec c # post
       \<and> (\<forall>f \<in> set pre. \<forall>d \<in> set server. pc_frame_codec d \<noteq> f)
       \<and> List.find (\<lambda>d. pc_frame_codec d = pc_frame_codec c) server = Some c))
   \<and> ((\<exists>e. negotiate server client = Inl e) \<longleftrightarrow>
       set client \<inter> pc_frame_codec ` set server = {})"
proof
  have "negotiate server client = Inr c \<longleftrightarrow> negotiate_loop server client = Some c"
    by (simp add: negotiate_def split: option.split)
  then show "negotiate server client = Inr c \<longleftrightarrow>
     (\<exists>pre post. client = pre @ pc_frame_codec c # post
       \<and> (\<forall>f \<in> set pre. \<forall>d \<in> set server. pc_frame_codec d \<noteq> f)
       \<and> List.find (\<lambda>d. pc_frame_codec d = pc_frame_codec c) server = Some c)"
    by (simp only: negotiate_loop_Some)
  show "(\<exists>e. negotiate server client = Inl e) \<longleftrightarrow> set client \<inter> pc_frame_codec ` set server = {}"
    unfolding negotiate_loop_None [symmetric] by (simp add: negotiate_def split: option.split)
qed

theorem negotiate_first_match_witness:
  "negotiate [JsonCodec (\<lambda>_. Inr []) (\<lambda>_. Inr JNull)] [EncodingFormat.Cbor, EncodingFormat.Json]
    = Inr (JsonCodec (\<lambda>_. Inr []) (\<lambda>_. Inr JNull))"
  unfolding conjunct1 [OF negotiate_first_match]
  by (intro exI [of _ "[EncodingFormat.Cbor]"] exI [of _ "[]"]) (simp add: JsonCodec_def)

text \<open>Configuration validation accepts exactly the usable configurations: positive payload
  and queue limits and a heartbeat with positive periods, at least one allowed
  miss and a jitter not above the ping interval; the default configuration is accepted.\<close>

lemma config_validate_iff:
  "(ServerConfig_validate c = Inr () \<longleftrightarrow>
     0 < sc_max_payload_bytes c \<and> 0 < sc_max_send_queue_bytes c
     \<and> 0 < hp_ping_interval (sc_heartbeat c) \<and> 0 < hp_pong_timeout (sc_heartbeat c)
     \<and> 0 < hp_max_missed_pongs (sc_heartbeat c) \<and> 0 < hp_idle_timeout (sc_heartbeat c)
     \<and> hp_jitter (sc_heartbeat c) \<le> hp_ping_interval (sc_heartbeat c))
   \<and> ServerConfig_validate ServerConfig_default = Inr ()"
  by (auto simp: ServerConfig_validate_def HeartbeatPolicy_validate_def ServerConfig_default_def
      HeartbeatPolicy_default_def word_neq_0_conv)

end
