(* ===== verification/Messages.thy ===== *)
theory Messages
  imports Protocol
begin

text \<open>
  Message bodies (\<open>rifts-core/src/message\<close>): classes, delivery modes, subscription intents, and
  the seven kinds of message with their JSON encoders and decoders.  The
  derived serialisation of each type (\<open>serde\<close>, \<open>serde_json\<close>) is a parameter: a
  writer and a reader of that type.
\<close>

section \<open>Classes and modes\<close>

datatype MessageClass =
    Event
  | Command
  | Reply
  | State
  | Datagram
  | Stream
  | Snapshot
  | System

primrec MessageClass_as_str :: "MessageClass \<Rightarrow> string" where
  "MessageClass_as_str MessageClass.Event = ''event''"
| "MessageClass_as_str MessageClass.Command = ''command''"
| "MessageClass_as_str MessageClass.Reply = ''reply''"
| "MessageClass_as_str MessageClass.State = ''state''"
| "MessageClass_as_str MessageClass.Datagram = ''datagram''"
| "MessageClass_as_str MessageClass.Stream = ''stream''"
| "MessageClass_as_str MessageClass.Snapshot = ''snapshot''"
| "MessageClass_as_str MessageClass.System = ''system''"

datatype DeliveryMode =
    AtMostOnce
  | AtLeastOnce
  | ExactlyOnceEffect
  | LatestOnly
  | BestEffort
  | DurableOrdered

datatype SubscribeIntent =
    Live
  | Replay i64
  | SnapshotThenLive
  | Latest
  | Passive
  | Ephemeral

datatype SubscribeResult =
    Accepted
  | Denied
  | NotFound
  | Gone
  | ReplayRequired
  | SnapshotRequired
  | RateLimited
  | Overloaded
  | InvalidFilter

section \<open>Bodies\<close>

record Event =
  ev_event :: string
  ev_message_id :: string
  ev_schema :: string
  ev_payload :: json
  ev_dedupe_key :: "string option"
  ev_ordering_key :: "string option"
  ev_ttl_ms :: "u32 option"

record Command =
  cmd_command :: string
  cmd_correlation_id :: string
  cmd_timeout_ms :: u32
  cmd_idempotency_key :: "string option"
  cmd_payload :: json
  cmd_schema :: string

datatype ReplyStatus = Ok | Error | Timeout | Rejected

record ReplyError =
  re_code :: string
  re_message :: string

record Reply =
  rp_correlation_id :: string
  rp_status :: ReplyStatus
  rp_payload :: "json option"
  rp_error :: "ReplyError option"
  rp_server_time :: i64

record State =
  sta_state_key :: string
  sta_name :: "string option"
  sta_value :: json
  sta_ttl_ms :: "u32 option"
  sta_subject :: "string option"
  sta_updated_at :: i64

record Presence =
  pr_subject :: string
  pr_status :: string
  pr_session_id :: "string option"
  pr_connection_id :: "string option"
  pr_ttl_ms :: "u32 option"
  pr_metadata :: "json option"
  pr_updated_at :: i64

record Datagram =
  dg_schema :: string
  dg_event :: "string option"
  dg_payload :: json

record StreamSegment =
  sg_stream_id :: string
  sg_seq :: u64
  sg_final_segment :: bool
  sg_schema :: string
  sg_payload :: json

record Snapshot =
  sn_topic :: string
  sn_snapshot_id :: string
  sn_base_offset :: i64
  sn_schema :: string
  sn_payload :: json
  sn_created_at :: i64
  sn_expires_at :: "i64 option"
  sn_checksum :: "string option"

datatype Message =
    Event_msg Event
  | Command_msg Command
  | Reply_msg Reply
  | State_msg State
  | Datagram_msg Datagram
  | Stream_msg StreamSegment
  | Snapshot_msg Snapshot
  | System_msg string json

primrec Message_class :: "Message \<Rightarrow> MessageClass" where
  "Message_class (Event_msg _) = MessageClass.Event"
| "Message_class (Command_msg _) = MessageClass.Command"
| "Message_class (Reply_msg _) = MessageClass.Reply"
| "Message_class (State_msg _) = MessageClass.State"
| "Message_class (Datagram_msg _) = MessageClass.Datagram"
| "Message_class (Stream_msg _) = MessageClass.Stream"
| "Message_class (Snapshot_msg _) = MessageClass.Snapshot"
| "Message_class (System_msg _ _) = MessageClass.System"

section \<open>Constructors\<close>

definition Event_new :: "string \<Rightarrow> string \<Rightarrow> string \<Rightarrow> json \<Rightarrow> Event" where
  "Event_new event message_id schema payload =
    \<lparr> ev_event = event, ev_message_id = message_id, ev_schema = schema, ev_payload = payload,
      ev_dedupe_key = None, ev_ordering_key = None, ev_ttl_ms = None \<rparr>"

definition Event_size_hint :: "json_to_vec \<Rightarrow> Event \<Rightarrow> nat" where
  "Event_size_hint jto e =
    length (ev_event e) + length (ev_message_id e) + length (ev_schema e)
    + (case jto (ev_payload e) of Inl _ \<Rightarrow> 0 | Inr v \<Rightarrow> length v)"

definition Command_new :: "string \<Rightarrow> string \<Rightarrow> u32 \<Rightarrow> string \<Rightarrow> json \<Rightarrow> Command" where
  "Command_new command correlation_id timeout_ms schema payload =
    \<lparr> cmd_command = command, cmd_correlation_id = correlation_id, cmd_timeout_ms = timeout_ms,
      cmd_idempotency_key = None, cmd_payload = payload, cmd_schema = schema \<rparr>"

definition Reply_ok :: "i64 \<Rightarrow> string \<Rightarrow> json \<Rightarrow> Reply" where
  "Reply_ok now correlation_id payload =
    \<lparr> rp_correlation_id = correlation_id, rp_status = ReplyStatus.Ok, rp_payload = Some payload,
      rp_error = None, rp_server_time = now \<rparr>"

definition Reply_error :: "i64 \<Rightarrow> string \<Rightarrow> string \<Rightarrow> string \<Rightarrow> Reply" where
  "Reply_error now correlation_id code message =
    \<lparr> rp_correlation_id = correlation_id, rp_status = ReplyStatus.Error, rp_payload = None,
      rp_error = Some \<lparr> re_code = code, re_message = message \<rparr>, rp_server_time = now \<rparr>"

section \<open>Encoders and decoders\<close>

definition no_correlation :: RiftError where
  "no_correlation = RiftError.Message (MessageReject.Rejected ''command requires correlation_id'')"

definition encode_command :: "(Command \<Rightarrow> string + bytes) \<Rightarrow> Command \<Rightarrow> bytes rift_result" where
  "encode_command to_vec c =
    (if cmd_correlation_id c = [] then Inl no_correlation
     else lift_err RiftError.SerdeJson (to_vec c))"

definition decode_command :: "(bytes \<Rightarrow> string + Command) \<Rightarrow> bytes \<Rightarrow> Command rift_result" where
  "decode_command from_slice bs =
    (case lift_err RiftError.SerdeJson (from_slice bs) of
       Inl e \<Rightarrow> Inl e
     | Inr c \<Rightarrow> if cmd_correlation_id c = [] then Inl no_correlation else Inr c)"

definition encode_reply :: "(Reply \<Rightarrow> string + bytes) \<Rightarrow> Reply \<Rightarrow> bytes rift_result" where
  "encode_reply to_vec r = lift_err RiftError.SerdeJson (to_vec r)"

definition decode_reply :: "(bytes \<Rightarrow> string + Reply) \<Rightarrow> bytes \<Rightarrow> Reply rift_result" where
  "decode_reply from_slice bs = lift_err RiftError.SerdeJson (from_slice bs)"

definition encode_event_body :: "(Event \<Rightarrow> string + bytes) \<Rightarrow> Event \<Rightarrow> bytes rift_result" where
  "encode_event_body to_vec e = lift_err RiftError.SerdeJson (to_vec e)"

definition decode_event_body :: "(bytes \<Rightarrow> string + Event) \<Rightarrow> bytes \<Rightarrow> Event rift_result" where
  "decode_event_body from_slice bs =
    (if bs = [] then Inl (RiftError.Message (MessageReject.Rejected ''empty event payload''))
     else lift_err RiftError.SerdeJson (from_slice bs))"

definition encode_state :: "(State \<Rightarrow> string + bytes) \<Rightarrow> State \<Rightarrow> bytes rift_result" where
  "encode_state to_vec s = lift_err RiftError.SerdeJson (to_vec s)"

definition decode_state :: "(bytes \<Rightarrow> string + State) \<Rightarrow> bytes \<Rightarrow> State rift_result" where
  "decode_state from_slice bs = lift_err RiftError.SerdeJson (from_slice bs)"

definition encode_presence :: "(Presence \<Rightarrow> string + bytes) \<Rightarrow> Presence \<Rightarrow> bytes rift_result" where
  "encode_presence to_vec p = lift_err RiftError.SerdeJson (to_vec p)"

definition decode_presence :: "(bytes \<Rightarrow> string + Presence) \<Rightarrow> bytes \<Rightarrow> Presence rift_result" where
  "decode_presence from_slice bs = lift_err RiftError.SerdeJson (from_slice bs)"

definition encode_datagram :: "(Datagram \<Rightarrow> string + bytes) \<Rightarrow> Datagram \<Rightarrow> bytes rift_result" where
  "encode_datagram to_vec d = lift_err RiftError.SerdeJson (to_vec d)"

definition decode_datagram :: "(bytes \<Rightarrow> string + Datagram) \<Rightarrow> bytes \<Rightarrow> Datagram rift_result" where
  "decode_datagram from_slice bs = lift_err RiftError.SerdeJson (from_slice bs)"

definition encode_stream :: "(StreamSegment \<Rightarrow> string + bytes) \<Rightarrow> StreamSegment \<Rightarrow> bytes rift_result" where
  "encode_stream to_vec s = lift_err RiftError.SerdeJson (to_vec s)"

definition decode_stream :: "(bytes \<Rightarrow> string + StreamSegment) \<Rightarrow> bytes \<Rightarrow> StreamSegment rift_result" where
  "decode_stream from_slice bs = lift_err RiftError.SerdeJson (from_slice bs)"

definition encode_snapshot :: "(Snapshot \<Rightarrow> string + bytes) \<Rightarrow> Snapshot \<Rightarrow> bytes rift_result" where
  "encode_snapshot to_vec s = lift_err RiftError.SerdeJson (to_vec s)"

definition decode_snapshot :: "(bytes \<Rightarrow> string + Snapshot) \<Rightarrow> bytes \<Rightarrow> Snapshot rift_result" where
  "decode_snapshot from_slice bs = lift_err RiftError.SerdeJson (from_slice bs)"

section \<open>Lemmas\<close>

lemma lift_err_Inr [simp]: "lift_err f r = Inr x \<longleftrightarrow> r = Inr x"
  by (cases r) (simp_all add: lift_err_def)

text \<open>What a decoded command satisfies, and when an encoded one decodes to itself.\<close>

lemma command_round_trip:
  assumes "\<And>c bs. to_vec c = Inr bs \<Longrightarrow> from_slice bs = Inr c" "encode_command to_vec c = Inr bs"
  shows "decode_command from_slice bs = Inr c"
  using assms by (auto simp: encode_command_def decode_command_def lift_err_def split: if_splits sum.splits)

lemma decoded_command_correlated:
  "decode_command from_slice bs = Inr c \<Longrightarrow> cmd_correlation_id c \<noteq> []"
  by (auto simp: decode_command_def split: sum.splits if_splits)

lemma MessageClass_as_str_inj: "MessageClass_as_str a = MessageClass_as_str b \<longleftrightarrow> a = b"
  by (cases a; cases b) simp_all

end
