(* ===== verification/Metrics.thy ===== *)
theory Metrics
  imports Prelude
begin

text \<open>
  The metrics counters (\<open>rifts-core/src/metrics.rs\<close>): 64-bit atomic counters.  A counter is named
  by the field's update function, as \<open>inc(&self.metrics.x)\<close> names it in the code.
\<close>

record Metrics =
  m_active_connections :: u64
  m_connection_open_total :: u64
  m_connection_close_total :: u64
  m_reconnect_total :: u64
  m_resume_success_total :: u64
  m_resume_failed_total :: u64
  m_heartbeat_timeout_total :: u64
  m_messages_in_total :: u64
  m_messages_out_total :: u64
  m_messages_dropped_total :: u64
  m_messages_replayed_total :: u64
  m_messages_expired_total :: u64
  m_ack_timeout_total :: u64
  m_duplicate_total :: u64
  m_send_queue_depth :: u64
  m_recv_queue_depth :: u64
  m_slow_consumer_total :: u64
  m_flow_pause_total :: u64
  m_flow_resume_total :: u64
  m_volatile_drop_total :: u64
  m_state_coalesce_total :: u64

definition Metrics_new :: Metrics where
  "Metrics_new =
    \<lparr> m_active_connections = 0, m_connection_open_total = 0, m_connection_close_total = 0,
      m_reconnect_total = 0, m_resume_success_total = 0, m_resume_failed_total = 0,
      m_heartbeat_timeout_total = 0, m_messages_in_total = 0, m_messages_out_total = 0,
      m_messages_dropped_total = 0, m_messages_replayed_total = 0, m_messages_expired_total = 0,
      m_ack_timeout_total = 0, m_duplicate_total = 0, m_send_queue_depth = 0,
      m_recv_queue_depth = 0, m_slow_consumer_total = 0, m_flow_pause_total = 0,
      m_flow_resume_total = 0, m_volatile_drop_total = 0, m_state_coalesce_total = 0 \<rparr>"

definition Metrics_add :: "((u64 \<Rightarrow> u64) \<Rightarrow> Metrics \<Rightarrow> Metrics) \<Rightarrow> u64 \<Rightarrow> Metrics \<Rightarrow> Metrics" where
  "Metrics_add counter n m = counter (\<lambda>c. c + n) m"

definition Metrics_inc :: "((u64 \<Rightarrow> u64) \<Rightarrow> Metrics \<Rightarrow> Metrics) \<Rightarrow> Metrics \<Rightarrow> Metrics" where
  "Metrics_inc counter m = counter (\<lambda>c. c + 1) m"

end
