(* ===== verification/Backpressure.thy ===== *)
theory Backpressure
  imports Reservations
begin

text \<open>
  The outbound-queue controller of \<open>rifts-core/src/flow/backpressure.rs\<close>.  Counters are
  \<open>usize\<close> words; \<open>prev + payload_bytes\<close> wraps as in a release build.  The
  compare-and-swap loops are given by their interference-free run, and by the
  interleaved protocol of \<open>Reservations\<close>, for which the loop of
  \<open>try_enqueue\<close> with \<open>release\<close> is shown to be an exact byte budget.
\<close>

section \<open>State and operations\<close>

datatype BackpressureStrategy =
    Pause | DropVolatile | CoalesceState | Downgrade | Disconnect | SnapshotLater

datatype BackpressureAction =
    Accept | Pause | DropVolatile | CoalesceState | Downgrade | Disconnect | SnapshotLater

record BackpressureController =
  bp_max_bytes :: usize
  bp_current_bytes :: usize
  bp_strategy :: BackpressureStrategy
  bp_applied :: usize
  bp_dropped :: usize
  bp_slow_consumer :: usize
  bp_flow_pause :: usize
  bp_flow_resume :: usize
  bp_volatile_drop :: usize
  bp_state_coalesce :: usize

definition BackpressureController_new :: "usize \<Rightarrow> BackpressureController" where
  "BackpressureController_new max_bytes =
    \<lparr> bp_max_bytes = max_bytes, bp_current_bytes = 0, bp_strategy = BackpressureStrategy.Pause,
      bp_applied = 0, bp_dropped = 0, bp_slow_consumer = 0, bp_flow_pause = 0,
      bp_flow_resume = 0, bp_volatile_drop = 0, bp_state_coalesce = 0 \<rparr>"

definition usize_saturating_sub :: "usize \<Rightarrow> usize \<Rightarrow> usize" where
  "usize_saturating_sub a b = (if a < b then 0 else a - b)"

definition Backpressure_set_strategy ::
  "BackpressureStrategy \<Rightarrow> BackpressureController \<Rightarrow> BackpressureController" where
  "Backpressure_set_strategy s b = b\<lparr>bp_strategy := s\<rparr>"

definition Backpressure_available :: "BackpressureController \<Rightarrow> usize" where
  "Backpressure_available b = usize_saturating_sub (bp_max_bytes b) (bp_current_bytes b)"

definition Backpressure_high_water :: "BackpressureController \<Rightarrow> usize" where
  "Backpressure_high_water b = bp_max_bytes b - bp_max_bytes b div 10"

definition Backpressure_is_overloaded :: "BackpressureController \<Rightarrow> bool" where
  "Backpressure_is_overloaded b =
    (if bp_max_bytes b = 0 then False
     else bp_max_bytes b - bp_max_bytes b div 10 \<le> bp_current_bytes b)"

definition Backpressure_record_applied :: "BackpressureController \<Rightarrow> BackpressureController" where
  "Backpressure_record_applied b = b\<lparr>bp_applied := bp_applied b + 1\<rparr>"

definition Backpressure_record_dropped :: "BackpressureController \<Rightarrow> BackpressureController" where
  "Backpressure_record_dropped b = b\<lparr>bp_dropped := bp_dropped b + 1\<rparr>"

text \<open>One pass of the loop: the value to exchange, or \<open>None\<close> to leave the loop.\<close>

definition enqueue_next :: "usize \<Rightarrow> usize \<Rightarrow> usize \<Rightarrow> usize option" where
  "enqueue_next max_bytes prev payload_bytes =
    (if prev + payload_bytes \<le> max_bytes then Some (prev + payload_bytes) else None)"

definition Backpressure_refuse :: "BackpressureController \<Rightarrow> BackpressureAction \<times> BackpressureController" where
  "Backpressure_refuse b0 =
    (let b = Backpressure_record_applied b0
     in case bp_strategy b of
          BackpressureStrategy.Pause \<Rightarrow>
            (BackpressureAction.Pause, b\<lparr>bp_flow_pause := bp_flow_pause b + 1\<rparr>)
        | BackpressureStrategy.DropVolatile \<Rightarrow>
            (let d = Backpressure_record_dropped b
             in (BackpressureAction.DropVolatile, d\<lparr>bp_volatile_drop := bp_volatile_drop d + 1\<rparr>))
        | BackpressureStrategy.CoalesceState \<Rightarrow>
            (let d = Backpressure_record_dropped b
             in (BackpressureAction.CoalesceState, d\<lparr>bp_state_coalesce := bp_state_coalesce d + 1\<rparr>))
        | BackpressureStrategy.Downgrade \<Rightarrow> (BackpressureAction.Downgrade, b)
        | BackpressureStrategy.Disconnect \<Rightarrow>
            (let d = Backpressure_record_dropped b
             in (BackpressureAction.Disconnect, d\<lparr>bp_slow_consumer := bp_slow_consumer d + 1\<rparr>))
        | BackpressureStrategy.SnapshotLater \<Rightarrow> (BackpressureAction.SnapshotLater, b))"

definition Backpressure_try_enqueue ::
  "usize \<Rightarrow> BackpressureController \<Rightarrow> BackpressureAction \<times> BackpressureController" where
  "Backpressure_try_enqueue payload_bytes b =
    (case enqueue_next (bp_max_bytes b) (bp_current_bytes b) payload_bytes of
       Some next \<Rightarrow> (Accept, b\<lparr>bp_current_bytes := next\<rparr>)
     | None \<Rightarrow> Backpressure_refuse b)"

definition Backpressure_release :: "usize \<Rightarrow> BackpressureController \<Rightarrow> BackpressureController" where
  "Backpressure_release bytes b =
    (let hwm = Backpressure_high_water b;
         prev = bp_current_bytes b;
         next = usize_saturating_sub prev bytes;
         b' = b\<lparr>bp_current_bytes := next\<rparr>
     in if hwm \<le> prev \<and> next < hwm then b'\<lparr>bp_flow_resume := bp_flow_resume b' + 1\<rparr> else b')"

section \<open>The loops as a reservation protocol\<close>

text \<open>Amounts for which \<open>prev + payload_bytes\<close> does not overflow.\<close>

definition amount_fits :: "usize \<Rightarrow> usize \<Rightarrow> bool" where
  "amount_fits max_bytes n \<longleftrightarrow> unat max_bytes + unat n < 2 ^ 64"

lemma unat_sat_sub: "unat (usize_saturating_sub a b) = unat a - unat b"
  by (auto simp: usize_saturating_sub_def word_less_nat_alt unat_sub word_le_nat_alt)

lemma unat_add_fits:
  "c \<le> m \<Longrightarrow> amount_fits m n \<Longrightarrow> unat (c + n) = unat c + unat (n :: usize)"
  by (simp add: amount_fits_def word_le_nat_alt unat_word_ariths)

interpretation bp: reservation "enqueue_next m" usize_saturating_sub "amount_fits m" m for m
proof unfold_locales
  fix c n c'
  assume c: "c \<le> m" and n: "amount_fits m n"
  note add = unat_add_fits [OF c n]
  show "enqueue_next m c n = Some c' \<Longrightarrow> c' \<le> m \<and> unat c' = unat c + unat n"
    using add by (auto simp: enqueue_next_def split: if_splits)
  show "enqueue_next m c n = None \<Longrightarrow> unat m < unat c + unat n"
    using add by (auto simp: enqueue_next_def word_le_nat_alt split: if_splits)
next
  fix n c :: usize
  show "unat n \<le> unat c \<Longrightarrow> unat (usize_saturating_sub c n) = unat c - unat n"
    by (simp add: unat_sat_sub)
qed

section \<open>Sequential behaviour\<close>

definition bp_ok :: "BackpressureController \<Rightarrow> bool" where
  "bp_ok b \<longleftrightarrow> bp_current_bytes b \<le> bp_max_bytes b"

lemma refuse_frame [simp]:
  "bp_current_bytes (snd (Backpressure_refuse b)) = bp_current_bytes b"
  "bp_max_bytes (snd (Backpressure_refuse b)) = bp_max_bytes b"
  "bp_strategy (snd (Backpressure_refuse b)) = bp_strategy b"
  "bp_applied (snd (Backpressure_refuse b)) = bp_applied b + 1"
  "fst (Backpressure_refuse b) \<noteq> Accept"
  by (simp_all add: Backpressure_refuse_def Backpressure_record_applied_def
      Backpressure_record_dropped_def Let_def split: BackpressureStrategy.split)

lemma release_frame [simp]:
  "bp_max_bytes (Backpressure_release n b) = bp_max_bytes b"
  "bp_current_bytes (Backpressure_release n b) = usize_saturating_sub (bp_current_bytes b) n"
  by (simp_all add: Backpressure_release_def Let_def)

lemma bp_ok_new [keeps]: "bp_ok (BackpressureController_new m)"
  by (simp add: bp_ok_def BackpressureController_new_def)

lemma bp_ok_try_enqueue [keeps]: "bp_ok b \<Longrightarrow> bp_ok (snd (Backpressure_try_enqueue n b))"
  by (auto simp: bp_ok_def Backpressure_try_enqueue_def enqueue_next_def split: option.split)

lemma bp_ok_release [keeps]: "bp_ok b \<Longrightarrow> bp_ok (Backpressure_release n b)"
  by (auto simp: bp_ok_def word_le_nat_alt unat_sat_sub)

text \<open>Runs of a controller: any mix of enqueues, releases and strategy changes.\<close>

datatype bp_op = Enqueue usize | Release usize | SetStrategy BackpressureStrategy

primrec bp_apply :: "bp_op \<Rightarrow> BackpressureController \<Rightarrow> BackpressureController" where
  "bp_apply (Enqueue n) b = snd (Backpressure_try_enqueue n b)"
| "bp_apply (Release n) b = Backpressure_release n b"
| "bp_apply (SetStrategy s) b = Backpressure_set_strategy s b"

lemma bp_apply_max [simp]: "bp_max_bytes (bp_apply op b) = bp_max_bytes b"
  by (cases op) (auto simp: Backpressure_try_enqueue_def Backpressure_set_strategy_def
      split: option.split)

lemma bp_ok_apply [keeps]: "bp_ok b \<Longrightarrow> bp_ok (bp_apply op b)"
proof (cases op)
  case (SetStrategy s)
  then show "bp_ok b \<Longrightarrow> ?thesis" by (simp add: bp_ok_def Backpressure_set_strategy_def)
qed (simp_all add: keeps)

lemma bp_ok_run [keeps]: "bp_ok b \<Longrightarrow> bp_ok (foldl (\<lambda>b op. bp_apply op b) b ops)"
  by (induction ops arbitrary: b) (simp_all add: keeps)

section \<open>Properties\<close>

text \<open>The queue never exceeds its limit: after any sequence of enqueues, releases and
  strategy changes on a new controller, the queued bytes are within \<open>max_bytes\<close>, and
  \<open>available\<close> is exactly the remaining room.\<close>

theorem backpressure_bounded:
  assumes "b = foldl (\<lambda>b op. bp_apply op b) (BackpressureController_new m) ops"
  shows "bp_current_bytes b \<le> m \<and> unat (Backpressure_available b) + unat (bp_current_bytes b) = unat m"
proof -
  have "bp_max_bytes (foldl (\<lambda>b op. bp_apply op b) c ops) = bp_max_bytes c" for c
    by (induction ops arbitrary: c) simp_all
  then have mx: "bp_max_bytes b = m" using assms by (simp add: BackpressureController_new_def)
  have "bp_ok b" using bp_ok_run [OF bp_ok_new] assms by simp
  then show ?thesis
    by (simp add: bp_ok_def mx Backpressure_available_def unat_sat_sub word_le_nat_alt)
qed

theorem backpressure_bounded_witness:
  "bp_current_bytes (foldl (\<lambda>b op. bp_apply op b) (BackpressureController_new 10)
     [Enqueue 6, Enqueue 7, Release 2]) \<le> 10"
  using backpressure_bounded
    [of "foldl (\<lambda>b op. bp_apply op b) (BackpressureController_new 10) [Enqueue 6, Enqueue 7, Release 2]"
      10 "[Enqueue 6, Enqueue 7, Release 2]"] by simp

text \<open>Enqueue decision: for amounts that do not overflow the counter, the payload is
  accepted exactly when it fits and then its bytes are added; otherwise the byte count is
  unchanged, the decision is counted once, and the action is the one of the strategy.\<close>

lemma try_enqueue_decision:
  assumes "bp_ok b" and "amount_fits (bp_max_bytes b) n"
  shows "if unat (bp_current_bytes b) + unat n \<le> unat (bp_max_bytes b)
    then \<exists>b'. Backpressure_try_enqueue n b = (Accept, b')
       \<and> unat (bp_current_bytes b') = unat (bp_current_bytes b) + unat n
       \<and> bp_applied b' = bp_applied b
    else \<exists>a b'. Backpressure_try_enqueue n b = (a, b') \<and> a \<noteq> Accept
       \<and> bp_current_bytes b' = bp_current_bytes b \<and> bp_applied b' = bp_applied b + 1"
proof -
  have add: "unat (bp_current_bytes b + n) = unat (bp_current_bytes b) + unat n"
    using assms unat_add_fits by (simp add: bp_ok_def)
  show ?thesis
    using add refuse_frame [of b]
    by (cases "Backpressure_refuse b")
      (auto simp: Backpressure_try_enqueue_def enqueue_next_def word_le_nat_alt)
qed

lemma try_enqueue_decision_witness:
  "\<exists>a b'. Backpressure_try_enqueue 7 (BackpressureController_new 5) = (a, b') \<and> a \<noteq> Accept
     \<and> bp_applied b' = 1"
  using try_enqueue_decision [of "BackpressureController_new 5" 7]
  by (auto simp: bp_ok_def BackpressureController_new_def amount_fits_def)

text \<open>C18. Under any interleaving of tasks that enqueue and release on one controller, with
  retries and spurious exchange failures, the byte counter is at every moment the sum of
  the accepted and not yet released payloads, and within \<open>max_bytes\<close>.\<close>

theorem enqueue_interleaving_exact:
  assumes "cas_reach (enqueue_next m) usize_saturating_sub (amount_fits m) k (c, ts)"
  shows "unat c = held_total ts \<and> held_total ts \<le> unat m"
  using bp.reach_exact [OF assms] by simp

theorem enqueue_interleaving_exact_witness:
  "\<exists>c ts. cas_reach (enqueue_next 10) usize_saturating_sub (amount_fits 10) 2 (c, ts)
     \<and> ts = [Held 6, Loaded 7 0] \<and> unat c = 6 \<and> held_total ts = 6"
proof -
  let ?R = "cas_reach (enqueue_next 10) usize_saturating_sub (amount_fits 10) 2"
  let ?S = "cas_step (enqueue_next 10) usize_saturating_sub (amount_fits 10)"
  have "?R (0, [Idle, Idle])"
    using cas_reach.init [of "enqueue_next 10" usize_saturating_sub "amount_fits 10" 2]
    by (simp add: numeral_2_eq_2)
  moreover have "?S (0, [Idle, Idle]) (0, [Ready 6, Idle])"
    using cas_step.start [of 0 "[Idle, Idle]" "amount_fits 10" 6] by (simp add: amount_fits_def)
  moreover have "?S (0, [Ready 6, Idle]) (0, [Ready 6, Ready 7])"
    using cas_step.start [of 1 "[Ready 6, Idle]" "amount_fits 10" 7] by (simp add: amount_fits_def)
  moreover have "?S (0, [Ready 6, Ready 7]) (0, [Loaded 6 0, Ready 7])"
    using cas_step.load [of 0 "[Ready 6, Ready 7]" 6] by simp
  moreover have "?S (0, [Loaded 6 0, Ready 7]) (0, [Loaded 6 0, Loaded 7 0])"
    using cas_step.load [of 1 "[Loaded 6 0, Ready 7]" 7] by simp
  moreover have "?S (0, [Loaded 6 0, Loaded 7 0]) (6, [Held 6, Loaded 7 0])"
    using cas_step.cas_ok [of 0 "[Loaded 6 0, Loaded 7 0]" 6 0 "enqueue_next 10" 6 0]
    by (simp add: enqueue_next_def)
  ultimately have r: "?R (6, [Held 6, Loaded 7 0])" by (meson cas_reach.step)
  from enqueue_interleaving_exact [OF r] r show ?thesis by auto
qed

end
