(* ===== verification/Fanout.thy ===== *)
theory Fanout
  imports Messages Metrics Backpressure
begin

text \<open>
  Subscription fan-out (\<open>rifts-broker/src/broker/fanout.rs\<close> and \<open>fanout/conn_sink.rs\<close>): the engine
  with its three indexes, delivery to the sinks of a topic, the sink that feeds a
  connection's outbound queue, and the counting sink.

  A sink is addressed by its id; the sinks' states live in a world \<open>'w\<close> that
  the \<open>FanoutSink\<close> operation \<open>deliver\<close> transforms.
\<close>

section \<open>The engine\<close>

type_synonym SubscriptionId = u64
type_synonym sink_id = u64

record Subscription =
  sub_id :: SubscriptionId
  sub_topic :: string
  sub_intent :: SubscribeIntent
  sub_cancelled :: bool

datatype FanoutError = Closed | Backpressured usize usize

type_synonym 'w sink_deliver = "sink_id \<Rightarrow> bytes \<Rightarrow> 'w \<Rightarrow> (FanoutError + unit) \<times> 'w"

record FanoutEngine =
  fe_by_topic :: "(string, (SubscriptionId \<times> sink_id) list) hmap"
  fe_by_id :: "(SubscriptionId, string \<times> sink_id) hmap"
  fe_by_sink :: "(sink_id, SubscriptionId list) hmap"
  fe_seq :: u64

definition FanoutEngine_new :: FanoutEngine where
  "FanoutEngine_new = \<lparr> fe_by_topic = [], fe_by_id = [], fe_by_sink = [], fe_seq = 0 \<rparr>"

definition FanoutEngine_subscribe ::
  "string \<Rightarrow> SubscribeIntent \<Rightarrow> sink_id \<Rightarrow> FanoutEngine \<Rightarrow> SubscriptionId \<times> FanoutEngine" where
  "FanoutEngine_subscribe topic intent sink f =
    (let new_id = fe_seq f + 1
     in (new_id,
         \<lparr> fe_by_topic = hm_put topic (hm_get_or [] (fe_by_topic f) topic @ [(new_id, sink)]) (fe_by_topic f),
           fe_by_id = hm_put new_id (topic, sink) (fe_by_id f),
           fe_by_sink = hm_put sink (hm_get_or [] (fe_by_sink f) sink @ [new_id]) (fe_by_sink f),
           fe_seq = new_id \<rparr>))"

text \<open>\<open>retain\<close> on a list of an index, dropping the key when the list became empty.\<close>

definition prune :: "'k \<Rightarrow> ('a \<Rightarrow> bool) \<Rightarrow> ('k, 'a list) hmap \<Rightarrow> ('k, 'a list) hmap" where
  "prune k keep m =
    (case hm_get m k of
       None \<Rightarrow> m
     | Some l \<Rightarrow> (let l' = filter keep l in if l' = [] then hm_del k m else hm_put k l' m))"

definition FanoutEngine_unsubscribe ::
  "SubscriptionId \<Rightarrow> FanoutEngine \<Rightarrow> string option \<times> FanoutEngine" where
  "FanoutEngine_unsubscribe sid f =
    (case hm_get (fe_by_id f) sid of
       Some (topic, sink) \<Rightarrow>
         (Some topic,
          f\<lparr>fe_by_id := hm_del sid (fe_by_id f),
            fe_by_topic := prune topic (\<lambda>p. fst p \<noteq> sid) (fe_by_topic f),
            fe_by_sink := prune sink (\<lambda>i. i \<noteq> sid) (fe_by_sink f)\<rparr>)
     | None \<Rightarrow> (None, f))"

definition FanoutEngine_drop_sink :: "sink_id \<Rightarrow> FanoutEngine \<Rightarrow> string list \<times> FanoutEngine" where
  "FanoutEngine_drop_sink sink f =
    (let ids = hm_get_or [] (fe_by_sink f) sink
     in foldl (\<lambda>(topics, f) i.
          case FanoutEngine_unsubscribe i f of
            (Some topic, f') \<Rightarrow> (topics @ [topic], f')
          | (None, f') \<Rightarrow> (topics, f')) ([], f) ids)"

definition FanoutEngine_deliver ::
  "'w sink_deliver \<Rightarrow> string \<Rightarrow> bytes \<Rightarrow> FanoutEngine \<Rightarrow> 'w \<Rightarrow> nat \<times> 'w" where
  "FanoutEngine_deliver deliver topic frame f w =
    (case hm_get (fe_by_topic f) topic of
       None \<Rightarrow> (0, w)
     | Some l \<Rightarrow>
         foldl (\<lambda>(ok, w) sink.
           case deliver sink frame w of
             (Inr _, w') \<Rightarrow> (ok + 1, w')
           | (Inl _, w') \<Rightarrow> (ok, w')) (0, w) (map snd l))"

definition FanoutEngine_subscription_count :: "FanoutEngine \<Rightarrow> nat" where
  "FanoutEngine_subscription_count f = length (fe_by_id f)"

definition FanoutEngine_topic_subscriber_count :: "string \<Rightarrow> FanoutEngine \<Rightarrow> nat" where
  "FanoutEngine_topic_subscriber_count topic f =
    (case hm_get (fe_by_topic f) topic of None \<Rightarrow> 0 | Some l \<Rightarrow> length l)"

text \<open>The first eight bytes of a fresh UUID, read little-endian.\<close>

definition new_sink_id :: "bytes \<Rightarrow> u64" where
  "new_sink_id uuid = word_of_nat (from_be (rev (take 8 uuid)))"

section \<open>The connection sink\<close>

text \<open>A connection's outbound channel as a bounded queue; \<open>cs_open\<close> is false once the receiver
  is gone.\<close>

record ConnSink =
  cs_queue :: "Frame list"
  cs_capacity :: nat
  cs_open :: bool
  cs_in_flight_bytes :: usize
  cs_max_bytes :: usize
  cs_codec :: EncodingFormat

type_synonym conn_world = "(sink_id, ConnSink) hmap \<times> Metrics"

text \<open>One pass of the reservation loop; its interleaved runs are those of \<open>Reservations\<close>.\<close>

definition sink_next :: "usize \<Rightarrow> usize \<Rightarrow> usize \<Rightarrow> usize option" where
  "sink_next max_bytes prev n = (if max_bytes < prev + n then None else Some (prev + n))"

definition fanout_frame :: "EncodingFormat \<Rightarrow> bytes \<Rightarrow> Frame" where
  "fanout_frame codec payload =
    Frame_default\<lparr>fr_frame_type := FrameType.Data, fr_codec := codec, fr_payload := Some payload,
      fr_flags := 0\<rparr>"

definition ConnSink_deliver ::
  "bytes \<Rightarrow> ConnSink \<Rightarrow> Metrics \<Rightarrow> (FanoutError + unit) \<times> ConnSink \<times> Metrics" where
  "ConnSink_deliver frame s m =
    (let n = word_of_nat (length frame)
     in case sink_next (cs_max_bytes s) (cs_in_flight_bytes s) n of
          None \<Rightarrow> (Inl (FanoutError.Backpressured (cs_in_flight_bytes s) (cs_max_bytes s)),
                  s, Metrics_inc m_flow_pause_total_update m)
        | Some c \<Rightarrow>
            let s1 = s\<lparr>cs_in_flight_bytes := c\<rparr>;
                s0 = s1\<lparr>cs_in_flight_bytes := cs_in_flight_bytes s1 - n\<rparr>
            in if \<not> cs_open s then (Inl FanoutError.Closed, s0, m)
               else if cs_capacity s \<le> length (cs_queue s)
               then (Inl (FanoutError.Backpressured (cs_in_flight_bytes s0) (cs_max_bytes s)), s0, m)
               else (Inr (), s1\<lparr>cs_queue := cs_queue s1 @ [fanout_frame (cs_codec s) frame]\<rparr>,
                     Metrics_inc m_messages_out_total_update m))"

text \<open>Delivery by sink id in the world of connections; a sink whose connection is gone
  behaves as a closed channel.\<close>

definition conn_deliver :: "conn_world sink_deliver" where
  "conn_deliver k frame w =
    (case hm_get (fst w) k of
       None \<Rightarrow> (Inl FanoutError.Closed, w)
     | Some s \<Rightarrow> (case ConnSink_deliver frame s (snd w) of
         (r, s', m') \<Rightarrow> (r, (hm_put k s' (fst w), m'))))"

section \<open>The counting sink\<close>

record CountingSink =
  ct_delivered :: u64
  ct_log :: "bytes list"

definition CountingSink_new :: CountingSink where
  "CountingSink_new = \<lparr> ct_delivered = 0, ct_log = [] \<rparr>"

definition CountingSink_deliver :: "bytes \<Rightarrow> CountingSink \<Rightarrow> (FanoutError + unit) \<times> CountingSink" where
  "CountingSink_deliver frame s =
    (Inr (), s\<lparr>ct_delivered := ct_delivered s + 1, ct_log := ct_log s @ [frame]\<rparr>)"

definition counting_deliver :: "(sink_id \<Rightarrow> CountingSink) sink_deliver" where
  "counting_deliver k frame w =
    (case CountingSink_deliver frame (w k) of (r, s') \<Rightarrow> (r, w(k := s')))"

section \<open>The indexes\<close>

definition topic_subs :: "FanoutEngine \<Rightarrow> string \<Rightarrow> (SubscriptionId \<times> sink_id) list" where
  "topic_subs f t = hm_get_or [] (fe_by_topic f) t"

definition sink_subs :: "FanoutEngine \<Rightarrow> sink_id \<Rightarrow> SubscriptionId list" where
  "sink_subs f k = hm_get_or [] (fe_by_sink f) k"

text \<open>The subscriptions the engine stands for.\<close>

abbreviation subs :: "FanoutEngine \<Rightarrow> SubscriptionId \<Rightarrow> (string \<times> sink_id) option" where
  "subs f \<equiv> hm_get (fe_by_id f)"

definition fanout_ok :: "FanoutEngine \<Rightarrow> bool" where
  "fanout_ok f \<longleftrightarrow> hm_wf (fe_by_id f) \<and> hm_wf (fe_by_topic f) \<and> hm_wf (fe_by_sink f)
    \<and> (\<forall>t. distinct (map fst (topic_subs f t))) \<and> (\<forall>k. distinct (sink_subs f k))
    \<and> (\<forall>t i k. (i, k) \<in> set (topic_subs f t) \<longleftrightarrow> subs f i = Some (t, k))
    \<and> (\<forall>k i. i \<in> set (sink_subs f k) \<longleftrightarrow> (\<exists>t. subs f i = Some (t, k)))
    \<and> (\<forall>t. hm_get (fe_by_topic f) t \<noteq> Some []) \<and> (\<forall>k. hm_get (fe_by_sink f) k \<noteq> Some [])
    \<and> (\<forall>i. subs f i \<noteq> None \<longrightarrow> i \<le> fe_seq f)"

lemma fanout_okD:
  assumes "fanout_ok f"
  shows "hm_wf (fe_by_id f)" "distinct (map fst (topic_subs f t))" "distinct (sink_subs f k)"
    "(i, k) \<in> set (topic_subs f t) \<longleftrightarrow> subs f i = Some (t, k)"
    "i \<in> set (sink_subs f k) \<longleftrightarrow> (\<exists>t. subs f i = Some (t, k))"
    "subs f i \<noteq> None \<Longrightarrow> i \<le> fe_seq f"
  using assms by (auto simp: fanout_ok_def)

lemma fanout_ok_new: "fanout_ok FanoutEngine_new"
  by (simp add: fanout_ok_def FanoutEngine_new_def topic_subs_def sink_subs_def hm_get_or_def)

lemma prune_or:
  "hm_get_or [] (prune k keep m) k' = (if k' = k then filter keep (hm_get_or [] m k) else hm_get_or [] m k')"
  by (auto simp: prune_def hm_get_or_def Let_def split: option.split)

lemma prune_nonempty: "(\<forall>j. hm_get m j \<noteq> Some []) \<Longrightarrow> hm_get (prune k keep m) j \<noteq> Some []"
  by (auto simp: prune_def Let_def split: option.split)

lemma prune_wf: "hm_wf m \<Longrightarrow> hm_wf (prune k keep m)"
  by (simp add: prune_def Let_def split: option.split)

lemma subscribe_subs:
  "FanoutEngine_subscribe t intent k f = (i, f') \<Longrightarrow>
    i = fe_seq f + 1 \<and> fe_seq f' = i \<and> subs f' = (subs f)(i \<mapsto> (t, k))
    \<and> topic_subs f' t' = (if t' = t then topic_subs f t @ [(i, k)] else topic_subs f t')
    \<and> sink_subs f' k' = (if k' = k then sink_subs f k @ [i] else sink_subs f k')"
  by (auto simp: FanoutEngine_subscribe_def Let_def fun_eq_iff topic_subs_def sink_subs_def hm_get_or_def)

lemma u64_less_inc: "(x :: u64) \<noteq> - 1 \<Longrightarrow> x < x + 1"
proof -
  assume "x \<noteq> - 1"
  then have "x < - 1" using word_order.extremum [of x] by (rule order.not_eq_order_implies_strict)
  then show ?thesis using unat_inc_less [of x "- 1"] by (simp add: word_less_nat_alt)
qed

lemma subscribe_fresh:
  assumes "fanout_ok f" "fe_seq f \<noteq> - 1"
  shows "subs f (fe_seq f + 1) = None"
proof -
  have "fe_seq f < fe_seq f + 1"
    using assms(2) by (simp add: u64_less_inc)
  then show ?thesis using fanout_okD(6) [OF assms(1), of "fe_seq f + 1"] by fastforce
qed

lemma subscribe_ok [keeps]:
  assumes "fanout_ok f" "fe_seq f \<noteq> - 1" "FanoutEngine_subscribe t intent k f = (i, f')"
  shows "fanout_ok f'"
proof -
  note s = subscribe_subs [OF assms(3)] and ok = fanout_okD [OF assms(1)]
  have new: "subs f i = None" using subscribe_fresh [OF assms(1,2)] s by simp
  have le: "fe_seq f \<le> i" using assms(2) s by (simp add: less_imp_le u64_less_inc)
  have nt: "i \<notin> fst ` set (topic_subs f t)" using ok(4) [of i _ t] new by auto
  have nk: "i \<notin> set (sink_subs f k)" using ok(5) new by auto
  have wf: "hm_wf (fe_by_id f')" "hm_wf (fe_by_topic f')" "hm_wf (fe_by_sink f')"
    "\<forall>t. hm_get (fe_by_topic f') t \<noteq> Some []" "\<forall>k. hm_get (fe_by_sink f') k \<noteq> Some []"
    using assms(1,3) by (auto simp: fanout_ok_def FanoutEngine_subscribe_def Let_def split: if_splits)
  have "distinct (map fst (topic_subs f' t'))" "distinct (sink_subs f' k')"
    "(j, k') \<in> set (topic_subs f' t') \<longleftrightarrow> subs f' j = Some (t', k')"
    "j \<in> set (sink_subs f' k') \<longleftrightarrow> (\<exists>t. subs f' j = Some (t, k'))"
    "subs f' j \<noteq> None \<longrightarrow> j \<le> fe_seq f'" for t' k' j
    using s ok(2-5) nt nk new ok(6) [of j] le
    by (auto intro: order.trans)
  with wf show ?thesis unfolding fanout_ok_def by blast
qed

lemma unsubscribe_subs:
  assumes "fanout_ok f" "FanoutEngine_unsubscribe i f = (r, f')"
  shows "r = map_option fst (subs f i)" and "subs f' = (subs f)(i := None)" and "fe_seq f' = fe_seq f"
    and "topic_subs f' t = filter (\<lambda>p. fst p \<noteq> i) (topic_subs f t)"
    and "sink_subs f' k = filter (\<lambda>j. j \<noteq> i) (sink_subs f k)"
    and "fanout_ok f'"
proof -
  note ok = fanout_okD [OF assms(1)]
  have none: "filter (\<lambda>p. fst p \<noteq> i) (topic_subs f t) = topic_subs f t" if "\<forall>k. subs f i \<noteq> Some (t, k)" for t
    using that ok(4) by (force simp: filter_id_conv)
  have none': "filter (\<lambda>j. j \<noteq> i) (sink_subs f k) = sink_subs f k" if "\<forall>t. subs f i \<noteq> Some (t, k)" for k
    using that ok(5) by (force simp: filter_id_conv)
  show r: "r = map_option fst (subs f i)" and sub: "subs f' = (subs f)(i := None)" and seq: "fe_seq f' = fe_seq f"
    using assms(2) by (auto simp: FanoutEngine_unsubscribe_def fun_eq_iff split: option.splits)
  show t: "topic_subs f' t = filter (\<lambda>p. fst p \<noteq> i) (topic_subs f t)" for t
    using assms(2) none [of t]
    by (auto simp: FanoutEngine_unsubscribe_def topic_subs_def prune_or split: option.splits)
  show k: "sink_subs f' k = filter (\<lambda>j. j \<noteq> i) (sink_subs f k)" for k
    using assms(2) none' [of k]
    by (auto simp: FanoutEngine_unsubscribe_def sink_subs_def prune_or split: option.splits)
  have wf: "hm_wf (fe_by_id f')" "hm_wf (fe_by_topic f')" "hm_wf (fe_by_sink f')"
    "\<forall>t. hm_get (fe_by_topic f') t \<noteq> Some []" "\<forall>k. hm_get (fe_by_sink f') k \<noteq> Some []"
    using assms by (auto simp: fanout_ok_def FanoutEngine_unsubscribe_def prune_wf prune_nonempty split: option.splits)
  have "distinct (map fst (topic_subs f' t'))" "distinct (sink_subs f' k')"
    "(j, k') \<in> set (topic_subs f' t') \<longleftrightarrow> subs f' j = Some (t', k')"
    "j \<in> set (sink_subs f' k') \<longleftrightarrow> (\<exists>t. subs f' j = Some (t, k'))"
    "subs f' j \<noteq> None \<longrightarrow> j \<le> fe_seq f'" for t' k' j
    using ok(2-5) ok(6) [of j] by (auto simp: t k sub seq distinct_map_filter)
  with wf show "fanout_ok f'" unfolding fanout_ok_def by blast
qed

lemma drop_sink_ids:
  assumes "fanout_ok f" "distinct ids" "\<forall>i \<in> set ids. subs f i \<noteq> None"
  shows "\<exists>f'. foldl (\<lambda>(topics, f) i. case FanoutEngine_unsubscribe i f of
            (Some topic, f') \<Rightarrow> (topics @ [topic], f') | (None, f') \<Rightarrow> (topics, f')) (ts, f) ids
      = (ts @ map (\<lambda>i. fst (the (subs f i))) ids, f')
    \<and> fanout_ok f' \<and> subs f' = (subs f) |` (- set ids) \<and> fe_seq f' = fe_seq f
    \<and> (\<forall>t. topic_subs f' t = filter (\<lambda>p. fst p \<notin> set ids) (topic_subs f t))"
  using assms
proof (induction ids arbitrary: f ts)
  case Nil
  then show ?case by (simp add: restrict_map_def)
next
  case (Cons i ids)
  obtain r f1 where u: "FanoutEngine_unsubscribe i f = (r, f1)" by fastforce
  note un = unsubscribe_subs [OF Cons.prems(1) u]
  obtain tk where tk: "subs f i = Some tk" using Cons.prems(3) by auto
  have "\<forall>j \<in> set ids. subs f1 j \<noteq> None" using Cons.prems(2,3) un(2) by auto
  from Cons.IH [OF un(6) _ this, of "ts @ [fst tk]"] Cons.prems(2)
  obtain f' where f': "foldl (\<lambda>(topics, f) i. case FanoutEngine_unsubscribe i f of
            (Some topic, f') \<Rightarrow> (topics @ [topic], f') | (None, f') \<Rightarrow> (topics, f')) (ts @ [fst tk], f1) ids
      = (ts @ [fst tk] @ map (\<lambda>i. fst (the (subs f1 i))) ids, f')"
    "fanout_ok f'" "subs f' = (subs f1) |` (- set ids)" "fe_seq f' = fe_seq f1"
    "\<forall>t. topic_subs f' t = filter (\<lambda>p. fst p \<notin> set ids) (topic_subs f1 t)" by auto
  have eq: "map (\<lambda>i. fst (the (subs f1 i))) ids = map (\<lambda>i. fst (the (subs f i))) ids"
    using Cons.prems(2) un(2) by auto
  have sub: "subs f' = (subs f) |` (- set (i # ids))"
    unfolding f'(3) un(2) by (auto simp: restrict_map_def fun_eq_iff)
  have top: "\<forall>t. topic_subs f' t = filter (\<lambda>p. fst p \<notin> set (i # ids)) (topic_subs f t)"
    using f'(5) un(4) by (auto intro!: filter_cong)
  show ?case
    using f'(1,2,4) eq sub top un(1,3) tk u by (intro exI [of _ f']) simp
qed

lemma drop_sink_subs:
  assumes "fanout_ok f" "FanoutEngine_drop_sink k f = (topics, f')"
  shows "topics = map (\<lambda>i. fst (the (subs f i))) (sink_subs f k)" and "fanout_ok f'"
    and "fe_seq f' = fe_seq f"
    and "subs f' = (\<lambda>i. case subs f i of None \<Rightarrow> None | Some tk \<Rightarrow> if snd tk = k then None else Some tk)"
    and "topic_subs f' t = filter (\<lambda>p. snd p \<noteq> k) (topic_subs f t)"
proof -
  note ok = fanout_okD [OF assms(1)]
  have in_sub: "i \<in> set (sink_subs f k) \<longleftrightarrow> (\<exists>t. subs f i = Some (t, k))" for i by (rule ok(5))
  then have "\<forall>i \<in> set (sink_subs f k). subs f i \<noteq> None" by auto
  from drop_sink_ids [OF assms(1) ok(3) this, of "[]"] assms(2)
  have f': "topics = map (\<lambda>i. fst (the (subs f i))) (sink_subs f k)" "fanout_ok f'" "fe_seq f' = fe_seq f"
    "subs f' = (subs f) |` (- set (sink_subs f k))"
    "topic_subs f' t = filter (\<lambda>p. fst p \<notin> set (sink_subs f k)) (topic_subs f t)"
    unfolding FanoutEngine_drop_sink_def Let_def sink_subs_def by auto
  show "topics = map (\<lambda>i. fst (the (subs f i))) (sink_subs f k)" "fanout_ok f'" "fe_seq f' = fe_seq f"
    using f' by auto
  show "subs f' = (\<lambda>i. case subs f i of None \<Rightarrow> None | Some tk \<Rightarrow> if snd tk = k then None else Some tk)"
    unfolding f'(4) by (auto simp: restrict_map_def fun_eq_iff in_sub split: option.split)
  show "topic_subs f' t = filter (\<lambda>p. snd p \<noteq> k) (topic_subs f t)"
    unfolding f'(5)
  proof (rule filter_cong [OF refl])
    fix p assume "p \<in> set (topic_subs f t)"
    then have "subs f (fst p) = Some (t, snd p)" using ok(4) [of "fst p" "snd p" t] by simp
    then show "(fst p \<notin> set (sink_subs f k)) = (snd p \<noteq> k)" using in_sub by auto
  qed
qed

lemma topic_count: "FanoutEngine_topic_subscriber_count t f = length (topic_subs f t)"
  by (simp add: FanoutEngine_topic_subscriber_count_def topic_subs_def hm_get_or_def split: option.split)

lemma topic_count_card:
  assumes "fanout_ok f"
  shows "length (topic_subs f t) = card {i. \<exists>k. subs f i = Some (t, k)}"
proof -
  have "{i. \<exists>k. subs f i = Some (t, k)} = set (map fst (topic_subs f t))"
    using fanout_okD(4) [OF assms] by force
  then show ?thesis using distinct_card [OF fanout_okD(2) [OF assms, of t]] by simp
qed

lemma topic_subs_of_sink:
  assumes "fanout_ok f"
  shows "count_list (map snd (topic_subs f t)) k = card {i. subs f i = Some (t, k)}"
proof -
  have "count_list (map snd xs) k = length (filter (\<lambda>p. snd p = k) xs)" for xs :: "(SubscriptionId \<times> sink_id) list"
    by (induction xs) auto
  moreover have "{i. subs f i = Some (t, k)} = set (map fst (filter (\<lambda>p. snd p = k) (topic_subs f t)))"
    using fanout_okD(4) [OF assms] by force
  moreover have d: "distinct (map fst (filter (\<lambda>p. snd p = k) (topic_subs f t)))"
    using fanout_okD(2) [OF assms] by (rule distinct_map_filter)
  ultimately show ?thesis using distinct_card [OF d] by simp
qed

section \<open>Delivery\<close>

text \<open>\<open>FanoutSink\<close>: a sink either takes a frame, which it then holds last, or refuses it and
  holds what it held; other sinks are not touched.\<close>

locale fanout_sink =
  fixes deliver :: "'w sink_deliver"
    and taken :: "'w \<Rightarrow> sink_id \<Rightarrow> bytes list"
  assumes deliver_ok: "deliver k b w = (Inr u, w') \<Longrightarrow> taken w' = (taken w)(k := taken w k @ [b])"
    and deliver_err: "deliver k b w = (Inl e, w') \<Longrightarrow> taken w' = taken w"
begin

abbreviation offer :: "bytes \<Rightarrow> nat \<times> 'w \<Rightarrow> sink_id \<Rightarrow> nat \<times> 'w" where
  "offer b \<equiv> (\<lambda>(ok, w) sink. case deliver sink b w of (Inr _, w') \<Rightarrow> (ok + 1, w') | (Inl _, w') \<Rightarrow> (ok, w'))"

lemma offer_all:
  "foldl (offer b) (n, w) ks = (n', w') \<Longrightarrow>
    \<exists>m. (\<forall>k. taken w' k = taken w k @ replicate (m k) b \<and> m k \<le> count_list ks k)
      \<and> n' = n + sum m (set ks)"
proof (induction ks arbitrary: n w)
  case Nil
  then show ?case by (intro exI [of _ "\<lambda>_. 0"]) simp
next
  case (Cons k ks)
  obtain r w1 where d: "deliver k b w = (r, w1)" by fastforce
  define a :: nat where "a = (case r of Inl _ \<Rightarrow> 0 | Inr _ \<Rightarrow> 1)"
  have w1: "taken w1 = (taken w)(k := taken w k @ replicate a b)"
    using deliver_ok deliver_err d by (cases r) (auto simp: a_def)
  have "foldl (offer b) (n + a, w1) ks = (n', w')"
    using Cons.prems d by (cases r) (simp_all add: a_def)
  from Cons.IH [OF this] obtain m where m: "\<And>j. taken w' j = taken w1 j @ replicate (m j) b"
    "\<And>j. m j \<le> count_list ks j" "n' = n + a + sum m (set ks)" by blast
  define m' where "m' = m(k := m k + a)"
  have "taken w' j = taken w j @ replicate (m' j) b" for j
    using m(1) [of j] w1 by (simp add: m'_def replicate_add [symmetric] add.commute)
  moreover have "m' j \<le> count_list (k # ks) j" for j
    using m(2) [of j] by (auto simp: m'_def a_def split: sum.splits)
  moreover have "n' = n + sum m' (set (k # ks))"
  proof -
    have z: "m k = 0" if "k \<notin> set ks" using m(2) [of k] that by (simp add: count_list_0_iff)
    have "sum m' (insert k (set ks)) = m' k + sum m' (set ks - {k})" by (simp add: sum.insert_remove)
    also have "sum m' (set ks - {k}) = sum m (set ks - {k})" by (rule sum.cong) (auto simp: m'_def)
    also have "m' k + sum m (set ks - {k}) = a + sum m (set ks)"
      using z by (cases "k \<in> set ks") (auto simp: m'_def sum.remove [of "set ks" k])
    finally show ?thesis using m(3) by simp
  qed
  ultimately show ?case by (intro exI [of _ m']) blast
qed

text \<open>Publication to a topic: every sink takes at most one copy per subscription of its own to
  the topic, appended in order, and the result counts the copies taken.\<close>

lemma deliver_topic:
  assumes "FanoutEngine_deliver deliver t b f w = (n, w')"
  shows "\<exists>m. (\<forall>k. taken w' k = taken w k @ replicate (m k) b \<and> m k \<le> count_list (map snd (topic_subs f t)) k)
    \<and> n = sum m (snd ` set (topic_subs f t))"
proof (cases "hm_get (fe_by_topic f) t")
  case None
  then show ?thesis
    using assms by (intro exI [of _ "\<lambda>_. 0"]) (simp add: FanoutEngine_deliver_def topic_subs_def hm_get_or_def)
next
  case (Some l)
  then have "foldl (offer b) (0, w) (map snd l) = (n, w')" "topic_subs f t = l"
    using assms by (simp_all add: FanoutEngine_deliver_def topic_subs_def hm_get_or_def)
  with offer_all [of b 0 w "map snd l" n w'] show ?thesis by simp
qed

end

interpretation counting: fanout_sink counting_deliver "\<lambda>w k. ct_log (w k)"
  by unfold_locales (auto simp: counting_deliver_def CountingSink_deliver_def)

definition frame_payload :: "Frame \<Rightarrow> bytes" where
  "frame_payload f = (case fr_payload f of None \<Rightarrow> [] | Some p \<Rightarrow> p)"

definition sink_taken :: "conn_world \<Rightarrow> sink_id \<Rightarrow> bytes list" where
  "sink_taken w k = (case hm_get (fst w) k of None \<Rightarrow> [] | Some s \<Rightarrow> map frame_payload (cs_queue s))"

lemma ConnSink_deliver_queue:
  "ConnSink_deliver b s m = (r, s', m') \<Longrightarrow>
    cs_queue s' = (case r of Inr _ \<Rightarrow> cs_queue s @ [fanout_frame (cs_codec s) b] | Inl _ \<Rightarrow> cs_queue s)
    \<and> cs_capacity s' = cs_capacity s \<and> cs_open s' = cs_open s \<and> cs_max_bytes s' = cs_max_bytes s
    \<and> cs_codec s' = cs_codec s"
  by (auto simp: ConnSink_deliver_def Let_def split: option.splits if_splits)

lemma frame_payload_fanout [simp]: "frame_payload (fanout_frame c b) = b"
  by (simp add: frame_payload_def fanout_frame_def)

interpretation conn: fanout_sink conn_deliver sink_taken
proof unfold_locales
  fix k b w u e and w' :: conn_world
  show "conn_deliver k b w = (Inr u, w') \<Longrightarrow> sink_taken w' = (sink_taken w)(k := sink_taken w k @ [b])"
    by (auto simp: conn_deliver_def sink_taken_def fun_eq_iff split: option.splits prod.splits if_splits
        dest: ConnSink_deliver_queue)
  show "conn_deliver k b w = (Inl e, w') \<Longrightarrow> sink_taken w' = sink_taken w"
    by (auto simp: conn_deliver_def sink_taken_def fun_eq_iff split: option.splits prod.splits if_splits
        dest: ConnSink_deliver_queue)
qed

section \<open>The connection sink's budget\<close>

interpretation conn_budget: reservation "sink_next m" "(-)" "amount_fits m" m for m
proof unfold_locales
  fix c n c'
  assume c: "c \<le> m" and n: "amount_fits m n"
  note add = unat_add_fits [OF c n]
  show "sink_next m c n = Some c' \<Longrightarrow> c' \<le> m \<and> unat c' = unat c + unat n"
    using add by (auto simp: sink_next_def split: if_splits)
  show "sink_next m c n = None \<Longrightarrow> unat m < unat c + unat n"
    using add by (auto simp: sink_next_def word_less_nat_alt split: if_splits)
next
  fix n c :: usize
  show "unat n \<le> unat c \<Longrightarrow> unat (c - n) = unat c - unat n"
    by (simp add: unat_sub word_le_nat_alt)
qed

definition queued_bytes :: "ConnSink \<Rightarrow> nat" where
  "queued_bytes s = sum_list (map (\<lambda>f. length (frame_payload f)) (cs_queue s))"

text \<open>The counter is the number of payload bytes in the queue, within both limits.\<close>

definition conn_sink_ok :: "ConnSink \<Rightarrow> bool" where
  "conn_sink_ok s \<longleftrightarrow> unat (cs_in_flight_bytes s) = queued_bytes s
    \<and> cs_in_flight_bytes s \<le> cs_max_bytes s \<and> length (cs_queue s) \<le> cs_capacity s"

section \<open>Runs of the engine\<close>

datatype fanout_op = Sub string SubscribeIntent sink_id | Unsub SubscriptionId | DropSink sink_id

primrec fanout_apply :: "fanout_op \<Rightarrow> FanoutEngine \<Rightarrow> FanoutEngine" where
  "fanout_apply (Sub t intent k) f = snd (FanoutEngine_subscribe t intent k f)"
| "fanout_apply (Unsub i) f = snd (FanoutEngine_unsubscribe i f)"
| "fanout_apply (DropSink k) f = snd (FanoutEngine_drop_sink k f)"

text \<open>The specification: a counter and a map from ids to topic and sink.\<close>

primrec spec_apply ::
  "fanout_op \<Rightarrow> u64 \<times> (SubscriptionId \<Rightarrow> (string \<times> sink_id) option)
    \<Rightarrow> u64 \<times> (SubscriptionId \<Rightarrow> (string \<times> sink_id) option)" where
  "spec_apply (Sub t intent k) s = (fst s + 1, (snd s)(fst s + 1 \<mapsto> (t, k)))"
| "spec_apply (Unsub i) s = (fst s, (snd s)(i := None))"
| "spec_apply (DropSink k) s =
    (fst s, \<lambda>i. case snd s i of None \<Rightarrow> None | Some tk \<Rightarrow> if snd tk = k then None else Some tk)"

fun sub_count :: "fanout_op list \<Rightarrow> nat" where
  "sub_count [] = 0"
| "sub_count (Sub t intent k # ops) = Suc (sub_count ops)"
| "sub_count (_ # ops) = sub_count ops"

lemma fanout_run:
  "\<lbrakk>fanout_ok f; unat (fe_seq f) + sub_count ops < 2 ^ 64\<rbrakk> \<Longrightarrow>
    fanout_ok (foldl (\<lambda>f op. fanout_apply op f) f ops)
    \<and> (fe_seq (foldl (\<lambda>f op. fanout_apply op f) f ops), subs (foldl (\<lambda>f op. fanout_apply op f) f ops))
        = foldl (\<lambda>s op. spec_apply op s) (fe_seq f, subs f) ops"
proof (induction ops arbitrary: f)
  case (Cons op ops)
  have step: "fanout_ok (fanout_apply op f)
      \<and> (fe_seq (fanout_apply op f), subs (fanout_apply op f)) = spec_apply op (fe_seq f, subs f)
      \<and> unat (fe_seq (fanout_apply op f)) + sub_count ops < 2 ^ 64"
  proof (cases op)
    case (Sub t intent k)
    obtain i f' where s: "FanoutEngine_subscribe t intent k f = (i, f')" by fastforce
    have ne: "fe_seq f \<noteq> - 1" using Cons.prems(2) Sub unat_minus_one_u64 by auto
    have "unat (fe_seq f + 1) = Suc (unat (fe_seq f))"
      using unat_inc_less [of "fe_seq f" "fe_seq f + 1"] u64_less_inc [OF ne] by simp
    then show ?thesis
      using Sub s subscribe_ok [OF Cons.prems(1) ne s] subscribe_subs [OF s] Cons.prems(2) by simp
  next
    case (Unsub i)
    obtain r f' where u: "FanoutEngine_unsubscribe i f = (r, f')" by fastforce
    then show ?thesis using Unsub unsubscribe_subs [OF Cons.prems(1) u] Cons.prems(2) by simp
  next
    case (DropSink k)
    obtain ts f' where d: "FanoutEngine_drop_sink k f = (ts, f')" by fastforce
    then show ?thesis using DropSink drop_sink_subs [OF Cons.prems(1) d] Cons.prems(2) by simp
  qed
  then show ?case using Cons.IH [of "fanout_apply op f"] by simp
qed simp

section \<open>Properties\<close>

text \<open>C12. The fan-out engine implements a map of subscriptions: over any sequence of
  subscribe, unsubscribe and drop-sink calls its three indexes stay consistent and
  stand for the same map from subscription ids to topic and sink as the specification,
  every new id is unused, and the subscriber count of a topic is the number of its subscriptions.\<close>

theorem fanout_refines_map:
  assumes "sub_count ops < 2 ^ 64"
  defines "f \<equiv> foldl (\<lambda>f op. fanout_apply op f) FanoutEngine_new ops"
  shows "fanout_ok f
    \<and> (fe_seq f, subs f) = foldl (\<lambda>s op. spec_apply op s) (0, Map.empty) ops
    \<and> FanoutEngine_topic_subscriber_count t f = card {i. \<exists>k. subs f i = Some (t, k)}
    \<and> FanoutEngine_subscription_count f = card (dom (subs f))
    \<and> (fe_seq f \<noteq> - 1 \<longrightarrow> subs f (fst (FanoutEngine_subscribe t intent k f)) = None)"
proof -
  have "fanout_ok f \<and> (fe_seq f, subs f) = foldl (\<lambda>s op. spec_apply op s) (0, Map.empty) ops"
    using fanout_run [OF fanout_ok_new, of ops] assms(1)
    by (simp add: f_def FanoutEngine_new_def)
  moreover have "length (fe_by_id f) = card (dom (subs f))"
    using distinct_card [OF fanout_okD(1) [OF conjunct1 [OF calculation]]] by (simp add: dom_map_of_conv_image_fst)
  ultimately show ?thesis
    using subscribe_fresh topic_count_card
    by (simp add: topic_count FanoutEngine_subscription_count_def FanoutEngine_subscribe_def Let_def)
qed

theorem fanout_refines_map_witness:
  "FanoutEngine_topic_subscriber_count ''t''
      (foldl (\<lambda>f op. fanout_apply op f) FanoutEngine_new
        [Sub ''t'' Live 7, Sub ''t'' Live 8, Sub ''u'' Live 7, DropSink 7])
    = card {i. \<exists>k. subs (foldl (\<lambda>f op. fanout_apply op f) FanoutEngine_new
        [Sub ''t'' Live 7, Sub ''t'' Live 8, Sub ''u'' Live 7, DropSink 7]) i = Some (''t'', k)}"
  using fanout_refines_map [of "[Sub ''t'' Live 7, Sub ''t'' Live 8, Sub ''u'' Live 7, DropSink 7]" "''t''"]
  by simp



text \<open>A connection sink stays within its byte and length limits, and its counter is exactly
  the number of payload bytes queued, after every delivery, accepted or not; a frame
  is accepted exactly when the channel is open, has room, and the bytes fit.\<close>

theorem conn_sink_bounded:
  assumes "conn_sink_ok s" "unat (cs_max_bytes s) + length b < 2 ^ 64"
    and "ConnSink_deliver b s m = (r, s', m')"
  shows "conn_sink_ok s'
    \<and> (r = Inr () \<longleftrightarrow> cs_open s \<and> length (cs_queue s) < cs_capacity s
          \<and> queued_bytes s + length b \<le> unat (cs_max_bytes s))
    \<and> queued_bytes s' = queued_bytes s + (if r = Inr () then length b else 0)"
proof -
  let ?n = "word_of_nat (length b) :: usize"
  have n: "unat ?n = length b" using assms(2) by (simp add: unat_of_nat)
  have c: "cs_in_flight_bytes s \<le> cs_max_bytes s" "unat (cs_in_flight_bytes s) = queued_bytes s"
    using assms(1) by (auto simp: conn_sink_ok_def)
  have add: "unat (cs_in_flight_bytes s + ?n) = queued_bytes s + length b"
    using unat_add_fits [OF c(1), of ?n] n c(2) assms(2) by (simp add: amount_fits_def)
  have fits: "cs_max_bytes s < cs_in_flight_bytes s + ?n \<longleftrightarrow> unat (cs_max_bytes s) < queued_bytes s + length b"
    by (simp add: word_less_nat_alt add)
  have q: "queued_bytes s' = queued_bytes s + (if r = Inr () then length b else 0)"
    using ConnSink_deliver_queue [OF assms(3)] by (cases r) (auto simp: queued_bytes_def)
  show ?thesis
    using assms(1,3) q c add fits
    by (auto simp: ConnSink_deliver_def sink_next_def Let_def conn_sink_ok_def word_le_nat_alt not_less
        split: if_splits)
qed

theorem conn_sink_bounded_witness:
  "fst (ConnSink_deliver [1, 2, 3]
      \<lparr> cs_queue = [], cs_capacity = 1, cs_open = True, cs_in_flight_bytes = 0, cs_max_bytes = 3,
        cs_codec = EncodingFormat.Json \<rparr> Metrics_new) = Inr ()"
proof -
  let ?s = "\<lparr> cs_queue = [], cs_capacity = 1, cs_open = True, cs_in_flight_bytes = 0, cs_max_bytes = 3,
        cs_codec = EncodingFormat.Json \<rparr>"
  obtain r s' m' where d: "ConnSink_deliver [1, 2, 3] ?s Metrics_new = (r, s', m')" by (metis prod_cases3)
  have "conn_sink_ok ?s" by (simp add: conn_sink_ok_def queued_bytes_def)
  from conn_sink_bounded [OF this _ d] d show ?thesis by (simp add: queued_bytes_def)
qed

end
