(* ===== verification/Storage_Keys.thy ===== *)
theory Storage_Keys
  imports Topics "HOL-Library.List_Lexorder"
begin

text \<open>
  The key layout of \<open>rifts-storage/src/encode.rs\<close>: every key is the topic, a NUL
  separator and a suffix.  The lemmas show what the stores rely on: keys of different
  (valid) topics never share a prefix, keys are injective, and the lexicographic
  order of log keys is the numeric order of offsets.
\<close>

section \<open>Keys\<close>

definition SEP :: byte where "SEP = 0"

definition offset_key :: "string \<Rightarrow> bytes" where
  "offset_key topic = as_bytes topic @ [SEP] @ as_bytes ''head''"

definition offset_prefix :: "string \<Rightarrow> bytes" where
  "offset_prefix topic = as_bytes topic @ [SEP]"

text \<open>\<open>{offset:020}\<close>: zero padded to 20 columns, the sign included.\<close>

definition zero_pad :: "nat \<Rightarrow> string \<Rightarrow> string" where
  "zero_pad w s = replicate (w - length s) (CHR ''0'') @ s"

definition fmt020 :: "i64 \<Rightarrow> string" where
  "fmt020 x = (if x < 0 then CHR ''-'' # zero_pad 19 (dec (nat (- x))) else zero_pad 20 (dec (nat x)))"

definition log_key :: "string \<Rightarrow> i64 \<Rightarrow> bytes" where
  "log_key topic off = as_bytes topic @ [SEP] @ as_bytes (fmt020 off)"

definition log_prefix :: "string \<Rightarrow> bytes" where
  "log_prefix topic = as_bytes topic @ [SEP]"

definition log_range_start :: "string \<Rightarrow> i64 \<Rightarrow> bytes" where
  "log_range_start topic from = log_key topic from"

definition log_range_end :: "string \<Rightarrow> i64 \<Rightarrow> bytes" where
  "log_range_end topic to = log_key topic to @ [0xFF]"

definition dedupe_key :: "string \<Rightarrow> string \<Rightarrow> bytes" where
  "dedupe_key topic message_id = as_bytes topic @ [SEP] @ as_bytes message_id @ [SEP]"

definition dedupe_prefix :: "string \<Rightarrow> bytes" where
  "dedupe_prefix topic = as_bytes topic @ [SEP]"

definition snapshot_key :: "string \<Rightarrow> string \<Rightarrow> bytes" where
  "snapshot_key topic snapshot_id = as_bytes topic @ [SEP] @ as_bytes snapshot_id"

definition snapshot_prefix :: "string \<Rightarrow> bytes" where
  "snapshot_prefix topic = as_bytes topic @ [SEP]"

lemmas key_defs = offset_key_def offset_prefix_def log_key_def log_prefix_def dedupe_key_def
  dedupe_prefix_def snapshot_key_def snapshot_prefix_def

section \<open>Separation of topics\<close>

definition nul_free :: "string \<Rightarrow> bool" where
  "nul_free s \<longleftrightarrow> CHR 0x00 \<notin> set s"

lemma of_char_zero_iff: "(of_char c :: byte) = 0 \<longleftrightarrow> c = CHR 0x00"
proof
  assume "(of_char c :: byte) = 0"
  then have "(of_char c :: byte) = of_char (CHR 0x00)" by simp
  then show "c = CHR 0x00" by (rule of_char_byte_inj)
qed simp

lemma nul_free_bytes: "nul_free s \<Longrightarrow> SEP \<notin> set (as_bytes s)"
  by (auto simp: nul_free_def as_bytes_def SEP_def of_char_zero_iff dest: sym)

text \<open>A separator-free field followed by a separator determines the split.\<close>

lemma split_at_sep:
  "\<lbrakk>z \<notin> set xs; z \<notin> set ys; xs @ [z] @ r = ys @ [z] @ s\<rbrakk> \<Longrightarrow> xs = ys \<and> r = s"
proof (induction xs arbitrary: ys)
  case Nil
  then show ?case by (cases ys) auto
next
  case (Cons x xs)
  then show ?case by (cases ys) auto
qed

lemma topic_field_inj:
  assumes "nul_free t" "nul_free t'" "as_bytes t @ [SEP] @ r = as_bytes t' @ [SEP] @ s"
  shows "t = t' \<and> r = s"
  using split_at_sep [OF nul_free_bytes [OF assms(1)] nul_free_bytes [OF assms(2)] assms(3)]
  by (auto dest: as_bytes_inj)

lemma topic_prefix_iff:
  assumes "nul_free t" "nul_free t'"
  shows "prefix (as_bytes t @ [SEP]) (as_bytes t' @ [SEP] @ r) \<longleftrightarrow> t = t'"
proof
  assume "prefix (as_bytes t @ [SEP]) (as_bytes t' @ [SEP] @ r)"
  then obtain s where "as_bytes t' @ [SEP] @ r = as_bytes t @ [SEP] @ s" by (auto simp: prefix_def)
  then show "t = t'" using topic_field_inj [OF assms(2,1)] by blast
qed (auto simp: prefix_def)

section \<open>Order of log keys\<close>

fun digits :: "nat \<Rightarrow> nat \<Rightarrow> string" where
  "digits 0 n = []"
| "digits (Suc w) n = digits w (n div 10) @ [digit (n mod 10)]"

lemma length_digits [simp]: "length (digits w n) = w"
  by (induction w arbitrary: n) auto

lemma digit_0: "digit 0 = CHR ''0''"
proof -
  have "(of_char (digit 0) :: nat) = of_char (CHR ''0'')" by (simp add: digit_def)
  then show ?thesis by (rule of_char_eqI)
qed

lemma digits_zero: "digits w 0 = replicate w (CHR ''0'')"
  by (induction w) (simp_all add: digit_0 replicate_append_same)

lemma zero_pad_snoc: "length s \<le> w \<Longrightarrow> zero_pad (Suc w) (s @ [c]) = zero_pad w s @ [c]"
  by (simp add: zero_pad_def)

lemma dec_length: "n < 10 ^ Suc w \<Longrightarrow> length (dec n) \<le> Suc w"
proof (induction w arbitrary: n)
  case 0
  then show ?case by (subst dec.simps) simp
next
  case (Suc w)
  then show ?case by (subst dec.simps) auto
qed

lemma zero_pad_dec: "n < 10 ^ Suc w \<Longrightarrow> zero_pad (Suc w) (dec n) = digits (Suc w) n"
proof (induction w arbitrary: n)
  case 0
  then show ?case by (subst dec.simps) (simp add: zero_pad_def)
next
  case (Suc w)
  show ?case
  proof (cases "n < 10")
    case True
    then have "dec n = [digit n]" by (subst dec.simps) simp
    with True show ?thesis
      by (simp add: zero_pad_def digits_zero replicate_append_same [symmetric])
  next
    case False
    from Suc.prems have d: "n div 10 < 10 ^ Suc w" by auto
    have "zero_pad (Suc (Suc w)) (dec n) = zero_pad (Suc w) (dec (n div 10)) @ [digit (n mod 10)]"
      using False dec_length [OF d] by (subst dec.simps) (simp add: zero_pad_snoc)
    also have "\<dots> = digits (Suc w) (n div 10) @ [digit (n mod 10)]" using Suc.IH [OF d] by simp
    finally show ?thesis by simp
  qed
qed

lemma zero_pad_dec_pos: "0 < w \<Longrightarrow> n < 10 ^ w \<Longrightarrow> zero_pad w (dec n) = digits w n"
  using zero_pad_dec [of n "w - 1"] by (simp only: Suc_diff_1)

lemma fmt020_nonneg: "0 \<le> x \<Longrightarrow> x \<le> i64_max \<Longrightarrow> fmt020 x = digits 20 (nat x)"
  by (simp only: fmt020_def if_False not_less [symmetric], rule zero_pad_dec_pos)
    (simp_all add: i64_max_def)

lemma digit_byte: "d < 10 \<Longrightarrow> (of_char (digit d) :: byte) = word_of_nat (48 + d)"
proof -
  assume "d < 10"
  then have "(of_char (digit d) :: nat) = 48 + d" by (simp add: digit_def)
  then have "word_of_nat (of_char (digit d)) = (word_of_nat (48 + d) :: byte)" by simp
  then show ?thesis by (simp only: of_nat_of_char)
qed

lemma digit_byte_less: "d < 10 \<Longrightarrow> e < 10 \<Longrightarrow>
    (of_char (digit d) :: byte) < of_char (digit e) \<longleftrightarrow> d < e"
  by (simp add: digit_byte word_less_nat_alt del: of_nat_add)

lemma list_less_snoc:
  fixes xs ys :: "'a::linorder list"
  shows "length xs = length ys \<Longrightarrow> xs @ [x] < ys @ [y] \<longleftrightarrow> xs < ys \<or> xs = ys \<and> x < y"
  by (induction xs ys rule: list_induct2) auto

lemma list_less_append_same:
  fixes xs ys :: "'a::linorder list"
  shows "p @ xs < p @ ys \<longleftrightarrow> xs < ys"
  by (induction p) auto

lemma digits_inj: "a < 10 ^ w \<Longrightarrow> b < 10 ^ w \<Longrightarrow>
    as_bytes (digits w a) = as_bytes (digits w b) \<longleftrightarrow> a = b"
proof (induction w arbitrary: a b)
  case (Suc w)
  have "as_bytes [digit (a mod 10)] = as_bytes [digit (b mod 10)] \<longleftrightarrow> a mod 10 = b mod 10"
    using digit_byte_less [of "a mod 10" "b mod 10"] digit_byte_less [of "b mod 10" "a mod 10"]
    by (auto simp: as_bytes_def)
  moreover have "a div 10 < 10 ^ w" "b div 10 < 10 ^ w" using Suc.prems by auto
  moreover have "a = b \<longleftrightarrow> a div 10 = b div 10 \<and> a mod 10 = b mod 10"
    by (metis div_mult_mod_eq)
  ultimately show ?case using Suc.IH [of "a div 10" "b div 10"] by auto
qed simp

lemma digits_less: "a < 10 ^ w \<Longrightarrow> b < 10 ^ w \<Longrightarrow>
    as_bytes (digits w a) < as_bytes (digits w b) \<longleftrightarrow> a < b"
proof (induction w arbitrary: a b)
  case (Suc w)
  have d: "a div 10 < 10 ^ w" "b div 10 < 10 ^ w" using Suc.prems by auto
  have "as_bytes (digits (Suc w) a) < as_bytes (digits (Suc w) b) \<longleftrightarrow>
      a div 10 < b div 10 \<or> a div 10 = b div 10 \<and> a mod 10 < b mod 10"
    using Suc.IH [OF d] digits_inj [OF d] digit_byte_less [of "a mod 10" "b mod 10"]
    by (simp add: as_bytes_def list_less_snoc)
  also have "\<dots> \<longleftrightarrow> a < b"
    using div_mult_mod_eq [of a 10] div_mult_mod_eq [of b 10]
      mod_less_divisor [of 10 a] mod_less_divisor [of 10 b] by linarith
  finally show ?case .
qed simp

lemma log_key_less:
  assumes "0 \<le> a" "a \<le> i64_max" "0 \<le> b" "b \<le> i64_max"
  shows "log_key t a < log_key t b \<longleftrightarrow> a < b"
proof -
  have n: "nat a < 10 ^ 20" "nat b < 10 ^ 20" using assms by (simp_all add: i64_max_def)
  have "log_key t a < log_key t b \<longleftrightarrow> as_bytes (fmt020 a) < as_bytes (fmt020 b)"
    by (simp add: log_key_def list_less_append_same)
  also have "\<dots> \<longleftrightarrow> nat a < nat b"
    unfolding fmt020_nonneg [OF assms(1,2)] fmt020_nonneg [OF assms(3,4)] by (rule digits_less [OF n])
  finally show ?thesis using assms by auto
qed

lemma log_key_eq_iff:
  assumes "0 \<le> a" "a \<le> i64_max" "0 \<le> b" "b \<le> i64_max"
  shows "log_key t a = log_key t b \<longleftrightarrow> a = b"
  using log_key_less [OF assms, of t] log_key_less [OF assms(3,4,1,2), of t]
  by (metis less_irrefl linorder_cases)

section \<open>Properties\<close>

text \<open>Topic isolation: for two valid topic names, a scan by one topic's prefix never
  reaches a key of the other, in any of the four key spaces; and within the offset,
  dedupe and snapshot spaces different arguments give different keys.\<close>

theorem topic_keys_isolated:
  assumes "validate_name t = Inr ()" and "validate_name t' = Inr ()"
  shows "(prefix (offset_prefix t) (offset_key t') \<longleftrightarrow> t = t')
    \<and> (prefix (log_prefix t) (log_key t' off) \<longleftrightarrow> t = t')
    \<and> (prefix (dedupe_prefix t) (dedupe_key t' mid) \<longleftrightarrow> t = t')
    \<and> (prefix (snapshot_prefix t) (snapshot_key t' sid) \<longleftrightarrow> t = t')
    \<and> (offset_key t = offset_key t' \<longleftrightarrow> t = t')
    \<and> (dedupe_key t mid = dedupe_key t' mid' \<longleftrightarrow> t = t' \<and> mid = mid')
    \<and> (snapshot_key t sid = snapshot_key t' sid' \<longleftrightarrow> t = t' \<and> sid = sid')"
proof -
  have n: "nul_free t" "nul_free t'" using assms valid_name_no_NUL by (auto simp: nul_free_def)
  have "offset_key t = offset_key t' \<longleftrightarrow> t = t'"
    using topic_field_inj [OF n] by (auto simp: offset_key_def)
  moreover have "dedupe_key t mid = dedupe_key t' mid' \<longleftrightarrow> t = t' \<and> mid = mid'"
    using topic_field_inj [OF n, of "as_bytes mid @ [SEP]" "as_bytes mid' @ [SEP]"] as_bytes_inj
    by (auto simp: dedupe_key_def)
  moreover have "snapshot_key t sid = snapshot_key t' sid' \<longleftrightarrow> t = t' \<and> sid = sid'"
    using topic_field_inj [OF n, of "as_bytes sid" "as_bytes sid'"] as_bytes_inj
    by (auto simp: snapshot_key_def)
  ultimately show ?thesis using topic_prefix_iff [OF n] by (simp add: key_defs)
qed

theorem topic_keys_isolated_witness:
  "\<not> prefix (log_prefix ''a'') (log_key ''ab'' 7)"
  using topic_keys_isolated [of "''a''" "''ab''" 7] by (simp add: validate_name_def)

text \<open>Log keys sort by offset: for non-negative 64-bit offsets the byte-wise lexicographic
  order of the keys of a topic is the numeric order, so the range bounds include
  exactly the offsets of the closed range.\<close>

lemma log_keys_sorted_by_offset:
  assumes "0 \<le> from" "0 \<le> to" "0 \<le> off" "from \<le> i64_max" "to \<le> i64_max" "off \<le> i64_max"
  shows "(log_key t from < log_key t off \<longleftrightarrow> from < off)
    \<and> (log_range_start t from \<le> log_key t off \<and> log_key t off < log_range_end t to
        \<longleftrightarrow> from \<le> off \<and> off \<le> to)"
proof -
  have lt: "log_key t from < log_key t off \<longleftrightarrow> from < off"
    using log_key_less assms by simp
  moreover have "log_range_start t from \<le> log_key t off \<longleftrightarrow> from \<le> off"
    using log_key_less [of off "from" t] assms by (auto simp: log_range_start_def not_less [symmetric])
  moreover have "log_key t off < log_range_end t to \<longleftrightarrow> off \<le> to"
  proof -
    have len: "length (log_key t x) = length t + 21" if "0 \<le> x" "x \<le> i64_max" for x
      using that by (simp add: log_key_def fmt020_nonneg)
    have "xs < ys @ [b] \<longleftrightarrow> xs \<le> ys" if "length xs = length ys" for xs ys :: bytes and b
      using that by (induction xs ys rule: list_induct2) auto
    then have "log_key t off < log_range_end t to \<longleftrightarrow> log_key t off \<le> log_key t to"
      using assms len by (simp add: log_range_end_def)
    then show ?thesis using log_key_less [of to off t] assms by (auto simp: not_less [symmetric])
  qed
  ultimately show ?thesis by blast
qed

lemma log_keys_sorted_by_offset_witness:
  "log_key ''t'' 9 < log_key ''t'' 10"
  using log_keys_sorted_by_offset [of 9 20 10 "''t''"] by (simp add: i64_max_def)

end
