(* ===== verification/Storage_Engine.thy ===== *)
theory Storage_Engine
  imports Storage_Keys
begin

text \<open>
  The key-value engines of \<open>rifts-storage/src/engine.rs\<close>: the \<open>StorageEngine\<close> trait as a
  record of operations, the in-memory engine, and the engine over a sled tree.
  The sled crate is not part of the repository: a tree is a parameter, a
  record of its operations, and \<open>sled_tree_ok\<close> states the documented behaviour of
  an ordered map that the engine relies on.
\<close>

section \<open>The trait\<close>

record 't Engine =
  eng_get :: "bytes \<Rightarrow> 't \<Rightarrow> bytes option"
  eng_put :: "bytes \<Rightarrow> bytes \<Rightarrow> 't \<Rightarrow> (StorageError + nat) \<times> 't"
  eng_delete :: "bytes \<Rightarrow> 't \<Rightarrow> (StorageError + unit) \<times> 't"
  eng_scan_prefix :: "bytes \<Rightarrow> 't \<Rightarrow> (bytes \<times> bytes) list"
  eng_flush :: "'t \<Rightarrow> StorageError + nat"

section \<open>The memory engine\<close>

type_synonym MemoryEngine = "(bytes, bytes) hmap"

definition MemoryEngine_new :: MemoryEngine where "MemoryEngine_new = []"

definition MemoryEngine_get :: "bytes \<Rightarrow> MemoryEngine \<Rightarrow> bytes option" where
  "MemoryEngine_get key m = hm_get m key"

definition MemoryEngine_put ::
  "bytes \<Rightarrow> bytes \<Rightarrow> MemoryEngine \<Rightarrow> (StorageError + nat) \<times> MemoryEngine" where
  "MemoryEngine_put key val m = (Inr (length val), hm_put key val m)"

definition MemoryEngine_delete ::
  "bytes \<Rightarrow> MemoryEngine \<Rightarrow> (StorageError + unit) \<times> MemoryEngine" where
  "MemoryEngine_delete key m = (Inr (), hm_del key m)"

definition MemoryEngine_scan_prefix :: "bytes \<Rightarrow> MemoryEngine \<Rightarrow> (bytes \<times> bytes) list" where
  "MemoryEngine_scan_prefix p m = filter (\<lambda>kv. prefix p (fst kv)) m"

definition MemoryEngine_flush :: "MemoryEngine \<Rightarrow> StorageError + nat" where
  "MemoryEngine_flush m = Inr 0"

definition MemoryEngine_ops :: "MemoryEngine Engine" where
  "MemoryEngine_ops =
    \<lparr> eng_get = MemoryEngine_get, eng_put = MemoryEngine_put, eng_delete = MemoryEngine_delete,
      eng_scan_prefix = MemoryEngine_scan_prefix, eng_flush = MemoryEngine_flush \<rparr>"

section \<open>The sled engine\<close>

text \<open>The operations of \<open>sled::Tree\<close> that the engine calls; \<open>Inl\<close> is a \<open>sled::Error\<close>.  The
  result of \<open>tree_cas\<close> is true when the exchange happened.\<close>

record 't SledTree =
  tree_get :: "bytes \<Rightarrow> 't \<Rightarrow> string + bytes option"
  tree_insert :: "bytes \<Rightarrow> bytes \<Rightarrow> 't \<Rightarrow> (string + bytes option) \<times> 't"
  tree_remove :: "bytes \<Rightarrow> 't \<Rightarrow> (string + bytes option) \<times> 't"
  tree_scan_prefix :: "bytes \<Rightarrow> 't \<Rightarrow> (string + bytes \<times> bytes) list"
  tree_cas :: "bytes \<Rightarrow> bytes option \<Rightarrow> bytes option \<Rightarrow> 't \<Rightarrow> (string + bool) \<times> 't"
  tree_flush :: "'t \<Rightarrow> string + nat"

definition SledEngine_cas ::
  "'t SledTree \<Rightarrow> bytes \<Rightarrow> bytes option \<Rightarrow> bytes \<Rightarrow> 't \<Rightarrow> (string + bool) \<times> 't" where
  "SledEngine_cas tree key expected new_value t = tree_cas tree key expected (Some new_value) t"

definition SledEngine_get :: "'t SledTree \<Rightarrow> bytes \<Rightarrow> 't \<Rightarrow> bytes option" where
  "SledEngine_get tree key t = (case tree_get tree key t of Inl _ \<Rightarrow> None | Inr v \<Rightarrow> v)"

definition SledEngine_put ::
  "'t SledTree \<Rightarrow> bytes \<Rightarrow> bytes \<Rightarrow> 't \<Rightarrow> (StorageError + nat) \<times> 't" where
  "SledEngine_put tree key val t =
    (case tree_insert tree key val t of
       (Inl e, t') \<Rightarrow> (Inl (StorageError.Engine e), t')
     | (Inr _, t') \<Rightarrow> (Inr (length val), t'))"

definition SledEngine_delete :: "'t SledTree \<Rightarrow> bytes \<Rightarrow> 't \<Rightarrow> (StorageError + unit) \<times> 't" where
  "SledEngine_delete tree key t =
    (case tree_remove tree key t of
       (Inl e, t') \<Rightarrow> (Inl (StorageError.Engine e), t')
     | (Inr _, t') \<Rightarrow> (Inr (), t'))"

definition SledEngine_scan_prefix :: "'t SledTree \<Rightarrow> bytes \<Rightarrow> 't \<Rightarrow> (bytes \<times> bytes) list" where
  "SledEngine_scan_prefix tree p t =
    List.map_filter (\<lambda>r. case r of Inr kv \<Rightarrow> Some kv | Inl _ \<Rightarrow> None) (tree_scan_prefix tree p t)"

definition SledEngine_flush :: "'t SledTree \<Rightarrow> 't \<Rightarrow> StorageError + nat" where
  "SledEngine_flush tree t =
    (case tree_flush tree t of Inl e \<Rightarrow> Inl (StorageError.Engine e) | Inr n \<Rightarrow> Inr n)"

definition SledEngine_ops :: "'t SledTree \<Rightarrow> 't Engine" where
  "SledEngine_ops tree =
    \<lparr> eng_get = SledEngine_get tree, eng_put = SledEngine_put tree,
      eng_delete = SledEngine_delete tree, eng_scan_prefix = SledEngine_scan_prefix tree,
      eng_flush = SledEngine_flush tree \<rparr>"

section \<open>The contract\<close>

text \<open>\<open>contents\<close> is the map an engine state stands for.\<close>

locale storage_engine =
  fixes eng :: "'t Engine"
    and contents :: "'t \<Rightarrow> bytes \<Rightarrow> bytes option"
    and einv :: "'t \<Rightarrow> bool"
  assumes get_contents: "einv t \<Longrightarrow> eng_get eng k t = contents t k"
    and put_contents: "einv t \<Longrightarrow> fst (eng_put eng k v t) = Inr (length v)
      \<and> einv (snd (eng_put eng k v t)) \<and> contents (snd (eng_put eng k v t)) = (contents t)(k \<mapsto> v)"
    and delete_contents: "einv t \<Longrightarrow> fst (eng_delete eng k t) = Inr ()
      \<and> einv (snd (eng_delete eng k t)) \<and> contents (snd (eng_delete eng k t)) = (contents t)(k := None)"
    and scan_contents: "einv t \<Longrightarrow> distinct (map fst (eng_scan_prefix eng p t))
      \<and> set (eng_scan_prefix eng p t) = {(k, v). contents t k = Some v \<and> prefix p k}"
begin

text \<open>Deleting a list of keys, as the stores do after a scan.\<close>

lemma delete_all:
  "einv t \<Longrightarrow> einv (foldl (\<lambda>t k. snd (eng_delete eng k t)) t ks)
    \<and> contents (foldl (\<lambda>t k. snd (eng_delete eng k t)) t ks) = (contents t) |` (- set ks)"
proof (induction ks arbitrary: t)
  case (Cons k ks)
  let ?t = "snd (eng_delete eng k t)"
  have "einv ?t" "contents ?t = (contents t)(k := None)" using delete_contents Cons.prems by auto
  with Cons.IH [of ?t] show ?case
    by (auto simp: restrict_map_def fun_eq_iff)
qed (simp add: restrict_map_def)

end

interpretation mem_engine: storage_engine MemoryEngine_ops map_of hm_wf
proof unfold_locales
  fix t :: MemoryEngine and p
  assume "hm_wf t"
  then show "distinct (map fst (eng_scan_prefix MemoryEngine_ops p t))
      \<and> set (eng_scan_prefix MemoryEngine_ops p t) = {(k, v). hm_get t k = Some v \<and> prefix p k}"
    by (auto simp: MemoryEngine_ops_def MemoryEngine_scan_prefix_def map_of_eq_Some_iff)
qed (auto simp: MemoryEngine_ops_def MemoryEngine_get_def MemoryEngine_put_def MemoryEngine_delete_def
    fun_eq_iff)

text \<open>The documented behaviour of a sled tree whose operations do not fail: an ordered map,
  with prefix scans in key order and compare-and-swap on the stored value.\<close>

definition sled_tree_ok ::
  "'t SledTree \<Rightarrow> ('t \<Rightarrow> bytes \<Rightarrow> bytes option) \<Rightarrow> ('t \<Rightarrow> bool) \<Rightarrow> bool" where
  "sled_tree_ok tree contents tinv \<longleftrightarrow> (\<forall>t. tinv t \<longrightarrow>
     (\<forall>k. tree_get tree k t = Inr (contents t k))
     \<and> (\<forall>k v. fst (tree_insert tree k v t) = Inr (contents t k) \<and> tinv (snd (tree_insert tree k v t))
           \<and> contents (snd (tree_insert tree k v t)) = (contents t)(k \<mapsto> v))
     \<and> (\<forall>k. fst (tree_remove tree k t) = Inr (contents t k) \<and> tinv (snd (tree_remove tree k t))
           \<and> contents (snd (tree_remove tree k t)) = (contents t)(k := None))
     \<and> (\<forall>p. \<exists>kvs. tree_scan_prefix tree p t = map Inr kvs \<and> sorted_wrt (<) (map fst kvs)
           \<and> set kvs = {(k, v). contents t k = Some v \<and> prefix p k})
     \<and> (\<forall>k old new. fst (tree_cas tree k old new t) = Inr (contents t k = old)
           \<and> tinv (snd (tree_cas tree k old new t))
           \<and> contents (snd (tree_cas tree k old new t)) =
               (if contents t k = old then (contents t)(k := new) else contents t)))"

lemma sled_tree_okD:
  assumes "sled_tree_ok tree contents tinv" and "tinv t"
  shows "tree_get tree k t = Inr (contents t k)"
    and "fst (tree_insert tree k v t) = Inr (contents t k)"
    and "tinv (snd (tree_insert tree k v t))"
    and "contents (snd (tree_insert tree k v t)) = (contents t)(k \<mapsto> v)"
    and "fst (tree_remove tree k t) = Inr (contents t k)"
    and "tinv (snd (tree_remove tree k t))"
    and "contents (snd (tree_remove tree k t)) = (contents t)(k := None)"
    and "fst (tree_cas tree k old new t) = Inr (contents t k = old)"
    and "tinv (snd (tree_cas tree k old new t))"
    and "contents (snd (tree_cas tree k old new t)) =
      (if contents t k = old then (contents t)(k := new) else contents t)"
    and "\<exists>kvs. tree_scan_prefix tree p t = map Inr kvs \<and> sorted_wrt (<) (map fst kvs)
      \<and> set kvs = {(k, v). contents t k = Some v \<and> prefix p k}"
  using assms(1) [unfolded sled_tree_ok_def, THEN spec, THEN mp, OF assms(2)] by blast+

lemma sled_scan:
  assumes "sled_tree_ok tree contents tinv" and "tinv t"
  shows "sorted_wrt (<) (map fst (SledEngine_scan_prefix tree p t))
    \<and> set (SledEngine_scan_prefix tree p t) = {(k, v). contents t k = Some v \<and> prefix p k}"
proof -
  obtain kvs where kvs: "tree_scan_prefix tree p t = map Inr kvs" "sorted_wrt (<) (map fst kvs)"
    "set kvs = {(k, v). contents t k = Some v \<and> prefix p k}"
    using sled_tree_okD(11) [OF assms] by blast
  have "List.map_filter (\<lambda>r. case r of Inr kv \<Rightarrow> Some kv | Inl _ \<Rightarrow> None) (map Inr xs) = xs"
    for xs :: "(bytes \<times> bytes) list"
    by (induction xs) (simp_all add: List.map_filter_simps)
  then have "SledEngine_scan_prefix tree p t = kvs"
    unfolding SledEngine_scan_prefix_def kvs(1) .
  with kvs show ?thesis by simp
qed

lemma sled_storage_engine:
  assumes "sled_tree_ok tree contents tinv"
  shows "storage_engine (SledEngine_ops tree) contents tinv"
proof unfold_locales
  fix t k v p
  assume t: "tinv t"
  note laws = sled_tree_okD [OF assms t]
  show "eng_get (SledEngine_ops tree) k t = contents t k"
    by (simp add: SledEngine_ops_def SledEngine_get_def laws)
  show "fst (eng_put (SledEngine_ops tree) k v t) = Inr (length v)
      \<and> tinv (snd (eng_put (SledEngine_ops tree) k v t))
      \<and> contents (snd (eng_put (SledEngine_ops tree) k v t)) = (contents t)(k \<mapsto> v)"
    using laws(2-4) [of k v] by (simp add: SledEngine_ops_def SledEngine_put_def case_prod_unfold)
  show "fst (eng_delete (SledEngine_ops tree) k t) = Inr ()
      \<and> tinv (snd (eng_delete (SledEngine_ops tree) k t))
      \<and> contents (snd (eng_delete (SledEngine_ops tree) k t)) = (contents t)(k := None)"
    using laws(5-7) [of k] by (simp add: SledEngine_ops_def SledEngine_delete_def case_prod_unfold)
  show "distinct (map fst (eng_scan_prefix (SledEngine_ops tree) p t))
      \<and> set (eng_scan_prefix (SledEngine_ops tree) p t) = {(k, v). contents t k = Some v \<and> prefix p k}"
    using sled_scan [OF assms t, of p] by (simp add: SledEngine_ops_def strict_sorted_iff)
qed

text \<open>The behaviour is realisable: an association list with sorted scans.\<close>

definition alist_tree :: "(bytes, bytes) hmap SledTree" where
  "alist_tree =
    \<lparr> tree_get = (\<lambda>k t. Inr (hm_get t k)),
      tree_insert = (\<lambda>k v t. (Inr (hm_get t k), hm_put k v t)),
      tree_remove = (\<lambda>k t. (Inr (hm_get t k), hm_del k t)),
      tree_scan_prefix = (\<lambda>p t. map Inr (sort_key fst (filter (\<lambda>kv. prefix p (fst kv)) t))),
      tree_cas = (\<lambda>k old new t. if hm_get t k = old
         then (Inr True, case new of None \<Rightarrow> hm_del k t | Some v \<Rightarrow> hm_put k v t)
         else (Inr False, t)),
      tree_flush = (\<lambda>t. Inr 0) \<rparr>"

lemma alist_tree_ok: "sled_tree_ok alist_tree map_of hm_wf"
proof -
  have "sorted_wrt (<) (map fst (sort_key fst (filter (\<lambda>kv. prefix p (fst kv)) t)))
      \<and> set (sort_key fst (filter (\<lambda>kv. prefix p (fst kv)) t)) =
          {(k, v). hm_get t k = Some v \<and> prefix p k}" if "hm_wf t" for t :: "(bytes, bytes) hmap" and p
    using that by (auto simp: strict_sorted_iff map_of_eq_Some_iff distinct_map_filter
        distinct_map inj_on_def)
  then show ?thesis
    by (auto simp: sled_tree_ok_def alist_tree_def fun_eq_iff split: option.split)
qed

end
