(* ===== verification/Offset_Store.thy ===== *)
theory Offset_Store
  imports Storage_Engine
begin

text \<open>
  Offset allocation (\<open>rifts-storage/src/offset.rs\<close>): the in-memory store, the store over
  a key-value engine with its cache, and the contract both satisfy: offsets
  of a topic are 1, 2, 3, ... without gaps, independently of other topics.
\<close>

section \<open>The memory store\<close>

text \<open>One \<open>AtomicI64\<close> per topic, holding the next offset.\<close>

type_synonym MemoryOffsetStore = "(string, i64) hmap"

definition MemoryOffsetStore_alloc :: "string \<Rightarrow> MemoryOffsetStore \<Rightarrow> i64 \<times> MemoryOffsetStore" where
  "MemoryOffsetStore_alloc topic s =
    (let s' = hm_or_insert topic 1 s; c = hm_get_or 1 s' topic
     in (c, hm_put topic (wrap_i64 (c + 1)) s'))"

definition MemoryOffsetStore_head :: "string \<Rightarrow> MemoryOffsetStore \<Rightarrow> i64" where
  "MemoryOffsetStore_head topic s =
    (case hm_get s topic of Some c \<Rightarrow> wrap_i64 (c - 1) | None \<Rightarrow> 0)"

definition MemoryOffsetStore_remove :: "string \<Rightarrow> MemoryOffsetStore \<Rightarrow> MemoryOffsetStore" where
  "MemoryOffsetStore_remove topic s = hm_del topic s"

section \<open>The engine-backed store\<close>

record 't SledOffsetStore =
  so_engine :: 't
  so_cache :: "(string, i64) hmap"

text \<open>\<open>i64::from_be_bytes(v[..8])\<close> when the value has at least 8 bytes.\<close>

definition read_i64 :: "bytes \<Rightarrow> i64 option" where
  "read_i64 v = (if 8 \<le> length v then Some (i64_from_be (take 8 v)) else None)"

text \<open>\<open>String::from_utf8_lossy\<close>, on the valid UTF-8 the store writes.\<close>

definition from_utf8_lossy :: "bytes \<Rightarrow> string" where
  "from_utf8_lossy bs = map (\<lambda>b. char_of (unat b)) bs"

definition key_topic :: "bytes \<Rightarrow> string" where
  "key_topic key = from_utf8_lossy (take (length key - 5) key)"

text \<open>One round of the loading loop.\<close>

definition load_entry :: "(string, i64) hmap \<Rightarrow> bytes \<times> bytes \<Rightarrow> (string, i64) hmap" where
  "load_entry cache kv =
    (case read_i64 (snd kv) of Some head \<Rightarrow> hm_put (key_topic (fst kv)) head cache | None \<Rightarrow> cache)"

definition SledOffsetStore_new :: "'t Engine \<Rightarrow> 't \<Rightarrow> 't SledOffsetStore" where
  "SledOffsetStore_new eng t =
    \<lparr> so_engine = t,
      so_cache = foldl load_entry []
        (filter (\<lambda>kv. suffix (as_bytes ''head'') (fst kv)) (eng_scan_prefix eng [] t)) \<rparr>"

definition stored_head :: "'t Engine \<Rightarrow> string \<Rightarrow> 't \<Rightarrow> i64" where
  "stored_head eng topic t =
    (case Option.bind (eng_get eng (offset_key topic) t) read_i64 of None \<Rightarrow> 0 | Some h \<Rightarrow> h)"

definition SledOffsetStore_alloc ::
  "'t Engine \<Rightarrow> string \<Rightarrow> 't SledOffsetStore \<Rightarrow> i64 \<times> 't SledOffsetStore" where
  "SledOffsetStore_alloc eng topic s =
    (let next = (case hm_get (so_cache s) topic of
                   Some h \<Rightarrow> wrap_i64 (h + 1)
                 | None \<Rightarrow> wrap_i64 (stored_head eng topic (so_engine s) + 1));
         cache = hm_put topic next (so_cache s);
         key = offset_key topic;
         engine = snd (eng_put eng key (i64_be_bytes next) (so_engine s))
     in (next, \<lparr> so_engine = engine, so_cache = cache \<rparr>))"

definition SledOffsetStore_head :: "'t Engine \<Rightarrow> string \<Rightarrow> 't SledOffsetStore \<Rightarrow> i64" where
  "SledOffsetStore_head eng topic s =
    (case hm_get (so_cache s) topic of
       Some h \<Rightarrow> h
     | None \<Rightarrow> stored_head eng topic (so_engine s))"

definition SledOffsetStore_remove ::
  "'t Engine \<Rightarrow> string \<Rightarrow> 't SledOffsetStore \<Rightarrow> 't SledOffsetStore" where
  "SledOffsetStore_remove eng topic s =
    \<lparr> so_engine = snd (eng_delete eng (offset_key topic) (so_engine s)),
      so_cache = hm_del topic (so_cache s) \<rparr>"

section \<open>The contract\<close>

text \<open>\<open>OffsetStore\<close>: each allocation returns one more than the topic's head, which becomes
  the new head; other topics are untouched.\<close>

locale offset_store =
  fixes alloc :: "string \<Rightarrow> 's \<Rightarrow> i64 \<times> 's"
    and head :: "string \<Rightarrow> 's \<Rightarrow> i64"
    and remove :: "string \<Rightarrow> 's \<Rightarrow> 's"
    and sinv :: "'s \<Rightarrow> bool"
    and topic_ok :: "string \<Rightarrow> bool"
  assumes alloc_next: "\<lbrakk>sinv s; topic_ok t; head t s < i64_max - 1\<rbrakk>
      \<Longrightarrow> fst (alloc t s) = head t s + 1 \<and> head t (snd (alloc t s)) = head t s + 1"
    and alloc_inv: "\<lbrakk>sinv s; topic_ok t; head t s < i64_max - 1\<rbrakk> \<Longrightarrow> sinv (snd (alloc t s))"
    and alloc_other: "\<lbrakk>sinv s; topic_ok t; topic_ok t'; t' \<noteq> t\<rbrakk> \<Longrightarrow> head t' (snd (alloc t s)) = head t' s"
    and head_nonneg: "sinv s \<Longrightarrow> topic_ok t \<Longrightarrow> 0 \<le> head t s"
    and remove_head: "\<lbrakk>sinv s; topic_ok t; topic_ok t'\<rbrakk>
      \<Longrightarrow> head t' (remove t s) = (if t' = t then 0 else head t' s)"
    and remove_inv: "\<lbrakk>sinv s; topic_ok t\<rbrakk> \<Longrightarrow> sinv (remove t s)"

text \<open>A sequence of allocations, with the topic each one was for.\<close>

fun alloc_all :: "(string \<Rightarrow> 's \<Rightarrow> i64 \<times> 's) \<Rightarrow> string list \<Rightarrow> 's \<Rightarrow> (string \<times> i64) list \<times> 's" where
  "alloc_all alloc [] s = ([], s)"
| "alloc_all alloc (t # ts) s =
    (case alloc t s of
       (off, s') \<Rightarrow> (case alloc_all alloc ts s' of (offs, s'') \<Rightarrow> ((t, off) # offs, s'')))"

definition offsets_of :: "string \<Rightarrow> (string \<times> i64) list \<Rightarrow> i64 list" where
  "offsets_of t offs = map snd (filter (\<lambda>p. fst p = t) offs)"

context offset_store
begin

lemma alloc_all_consecutive:
  "\<lbrakk>sinv s; \<forall>t \<in> set ts. topic_ok t; \<forall>t. topic_ok t \<longrightarrow> head t s + int (length ts) < i64_max - 1;
    alloc_all alloc ts s = (offs, s'); topic_ok t\<rbrakk>
   \<Longrightarrow> offsets_of t offs = map (\<lambda>i. head t s + 1 + int i) [0..<count_list ts t]
     \<and> head t s' = head t s + int (count_list ts t) \<and> sinv s'"
proof (induction ts arbitrary: s offs s')
  case Nil
  then show ?case by (simp add: offsets_of_def)
next
  case (Cons x ts)
  obtain off s1 where a: "alloc x s = (off, s1)" by fastforce
  obtain offs1 s2 where r: "alloc_all alloc ts s1 = (offs1, s2)" by fastforce
  have eq: "offs = (x, off) # offs1" "s' = s2" using Cons.prems(4) a r by auto
  have bound: "head x s < i64_max - 1" using Cons.prems(2,3) by force
  have off: "off = head x s + 1" "head x s1 = head x s + 1"
    using alloc_next [OF Cons.prems(1) _ bound] Cons.prems(2) a by auto
  have inv1: "sinv s1" using alloc_inv [OF Cons.prems(1) _ bound] Cons.prems(2) a by auto
  have other: "topic_ok t' \<Longrightarrow> t' \<noteq> x \<Longrightarrow> head t' s1 = head t' s" for t'
    using alloc_other [OF Cons.prems(1), of x t'] Cons.prems(2) a by auto
  have "head t' s1 + int (length ts) < i64_max - 1" if "topic_ok t'" for t'
    using Cons.prems(3) [rule_format, OF that] off(2) other [OF that] by (cases "t' = x") auto
  then have "\<forall>t. topic_ok t \<longrightarrow> head t s1 + int (length ts) < i64_max - 1" by blast
  from Cons.IH [OF inv1 _ this r Cons.prems(5)] Cons.prems(2)
  have ih: "offsets_of t offs1 = map (\<lambda>i. head t s1 + 1 + int i) [0..<count_list ts t]"
    "head t s2 = head t s1 + int (count_list ts t)" "sinv s2" by auto
  show ?case
  proof (cases "x = t")
    case True
    have "map (\<lambda>i. head t s + 1 + int i) [0..<Suc n]
        = (head t s + 1) # map (\<lambda>i. head t s + 1 + 1 + int i) [0..<n]" for n
      by (simp add: map_upt_Suc algebra_simps del: upt_Suc)
    with True show ?thesis using ih off eq by (simp add: offsets_of_def del: upt_Suc)
  next
    case False
    with ih other [OF Cons.prems(5)] eq show ?thesis by (simp add: offsets_of_def)
  qed
qed

end

section \<open>The memory store meets the contract\<close>

definition mem_offsets_ok :: "MemoryOffsetStore \<Rightarrow> bool" where
  "mem_offsets_ok s \<longleftrightarrow> (\<forall>t c. hm_get s t = Some c \<longrightarrow> 1 \<le> c \<and> c \<le> i64_max)"

lemma mem_offsets_okD: "mem_offsets_ok s \<Longrightarrow> hm_get s t = Some c \<Longrightarrow> 1 \<le> c \<and> c \<le> i64_max"
  by (simp add: mem_offsets_ok_def)

lemma mem_head: "mem_offsets_ok s \<Longrightarrow>
    MemoryOffsetStore_head t s = (case hm_get s t of Some c \<Rightarrow> c - 1 | None \<Rightarrow> 0)"
  by (auto simp: MemoryOffsetStore_head_def i64_ok_def i64_min_def i64_max_def
      intro!: wrap_i64_id dest!: mem_offsets_okD split: option.split)

interpretation mem_offsets: offset_store MemoryOffsetStore_alloc MemoryOffsetStore_head
  MemoryOffsetStore_remove mem_offsets_ok "\<lambda>_. True"
proof unfold_locales
  fix s t t'
  assume ok: "mem_offsets_ok s"
  show nn: "0 \<le> MemoryOffsetStore_head t s"
    using ok by (auto simp: mem_head dest: mem_offsets_okD split: option.split)
  show rem: "mem_offsets_ok (MemoryOffsetStore_remove t s)"
    using ok by (simp add: mem_offsets_ok_def MemoryOffsetStore_remove_def)
  show "MemoryOffsetStore_head t' (MemoryOffsetStore_remove t s) =
      (if t' = t then 0 else MemoryOffsetStore_head t' s)"
    by (simp add: MemoryOffsetStore_head_def MemoryOffsetStore_remove_def)
  show "t' \<noteq> t \<Longrightarrow> MemoryOffsetStore_head t' (snd (MemoryOffsetStore_alloc t s)) = MemoryOffsetStore_head t' s"
    by (simp add: MemoryOffsetStore_head_def MemoryOffsetStore_alloc_def Let_def)
  assume bound: "MemoryOffsetStore_head t s < i64_max - 1"
  let ?c = "hm_get_or 1 s t"
  have c: "1 \<le> ?c" "?c + 1 \<le> i64_max" "?c = MemoryOffsetStore_head t s + 1"
    using ok bound unfolding mem_head [OF ok]
    by (auto simp: hm_get_or_def i64_max_def dest: mem_offsets_okD split: option.splits)
  have w: "wrap_i64 (?c + 1) = ?c + 1"
    using c by (auto simp: i64_ok_def i64_min_def intro!: wrap_i64_id)
  have al: "MemoryOffsetStore_alloc t s = (?c, hm_put t (?c + 1) (hm_or_insert t 1 s))"
    by (simp add: MemoryOffsetStore_alloc_def Let_def hm_get_or_def w [unfolded hm_get_or_def])
  show inv': "mem_offsets_ok (snd (MemoryOffsetStore_alloc t s))"
    using ok c by (simp add: al mem_offsets_ok_def)
  show "fst (MemoryOffsetStore_alloc t s) = MemoryOffsetStore_head t s + 1 \<and>
      MemoryOffsetStore_head t (snd (MemoryOffsetStore_alloc t s)) = MemoryOffsetStore_head t s + 1"
    using c mem_head [OF inv'] by (simp add: al)
qed

section \<open>The engine-backed store meets the contract\<close>

text \<open>The cache never disagrees with the engine, and stored heads are non-negative.\<close>

definition sled_offsets_ok ::
  "'t Engine \<Rightarrow> ('t \<Rightarrow> bool) \<Rightarrow> 't SledOffsetStore \<Rightarrow> bool" where
  "sled_offsets_ok eng einv s \<longleftrightarrow> einv (so_engine s)
     \<and> (\<forall>t. nul_free t \<longrightarrow> 0 \<le> stored_head eng t (so_engine s))
     \<and> (\<forall>t h. nul_free t \<longrightarrow> hm_get (so_cache s) t = Some h \<longrightarrow> h = stored_head eng t (so_engine s))"

lemma offset_key_inj: "nul_free t \<Longrightarrow> nul_free t' \<Longrightarrow> offset_key t = offset_key t' \<longleftrightarrow> t = t'"
  unfolding offset_key_def
  using topic_field_inj [of t t' "as_bytes ''head''" "as_bytes ''head''"] by blast

lemma read_i64_be [simp]: "i64_ok x \<Longrightarrow> read_i64 (i64_be_bytes x) = Some x"
  by (simp add: read_i64_def i64_from_be_bytes)

lemma sled_head: "sled_offsets_ok eng einv s \<Longrightarrow> nul_free t \<Longrightarrow>
    SledOffsetStore_head eng t s = stored_head eng t (so_engine s)"
  by (auto simp: SledOffsetStore_head_def sled_offsets_ok_def split: option.split)

context storage_engine
begin

lemma stored_head_put:
  assumes "einv t" "nul_free a" "nul_free b" "i64_ok x"
  shows "stored_head eng b (snd (eng_put eng (offset_key a) (i64_be_bytes x) t)) =
    (if b = a then x else stored_head eng b t)"
  using put_contents [OF assms(1)] assms get_contents offset_key_inj
  by (simp add: stored_head_def)

lemma stored_head_delete:
  assumes "einv t" "nul_free a" "nul_free b"
  shows "stored_head eng b (snd (eng_delete eng (offset_key a) t)) =
    (if b = a then 0 else stored_head eng b t)"
  using delete_contents [OF assms(1)] assms get_contents offset_key_inj
  by (simp add: stored_head_def)

lemma engine_offset_store:
  "offset_store (SledOffsetStore_alloc eng) (SledOffsetStore_head eng) (SledOffsetStore_remove eng)
     (sled_offsets_ok eng einv) nul_free"
proof unfold_locales
  fix s t t'
  assume ok: "sled_offsets_ok eng einv s" and t: "nul_free t"
  then have ei: "einv (so_engine s)" by (simp add: sled_offsets_ok_def)
  note head = sled_head [OF ok t]
  show nn: "0 \<le> SledOffsetStore_head eng t s" using ok t by (simp add: head sled_offsets_ok_def)
  show rem: "sled_offsets_ok eng einv (SledOffsetStore_remove eng t s)"
    using ok conjunct1 [OF conjunct2 [OF delete_contents [OF ei, of "offset_key t"]]]
    by (simp add: sled_offsets_ok_def SledOffsetStore_remove_def stored_head_delete [OF ei t])
  show "SledOffsetStore_head eng t' (SledOffsetStore_remove eng t s) =
      (if t' = t then 0 else SledOffsetStore_head eng t' s)" if t': "nul_free t'"
    unfolding sled_head [OF rem t'] sled_head [OF ok t']
    using stored_head_delete [OF ei t t'] by (simp add: SledOffsetStore_remove_def)
  define n where "n = wrap_i64 (SledOffsetStore_head eng t s + 1)"
  have al: "SledOffsetStore_alloc eng t s = (n,
      \<lparr> so_engine = snd (eng_put eng (offset_key t) (i64_be_bytes n) (so_engine s)),
        so_cache = hm_put t n (so_cache s) \<rparr>)"
    by (simp add: n_def SledOffsetStore_alloc_def SledOffsetStore_head_def Let_def split: option.split)
  have stored: "stored_head eng b (snd (eng_put eng (offset_key t) (i64_be_bytes n) (so_engine s)))
      = (if b = t then n else stored_head eng b (so_engine s))" if "nul_free b" for b
    using stored_head_put [OF ei t that, of n] by (simp add: n_def)
  show "SledOffsetStore_head eng t' (snd (SledOffsetStore_alloc eng t s)) = SledOffsetStore_head eng t' s"
    if "nul_free t'" "t' \<noteq> t"
    unfolding SledOffsetStore_head_def al using stored [OF that(1)] that(2) by (simp split: option.split)
  assume bound: "SledOffsetStore_head eng t s < i64_max - 1"
  have w: "n = SledOffsetStore_head eng t s + 1"
    using nn bound by (auto simp: n_def i64_ok_def i64_min_def i64_max_def intro!: wrap_i64_id)
  have n0: "0 \<le> n" using nn w by simp
  have ep: "einv (snd (eng_put eng (offset_key t) (i64_be_bytes n) (so_engine s)))"
    by (rule conjunct1 [OF conjunct2 [OF put_contents [OF ei]]])
  show "sled_offsets_ok eng einv (snd (SledOffsetStore_alloc eng t s))"
    using ok n0 ep unfolding sled_offsets_ok_def al by (simp add: stored)
  have "SledOffsetStore_head eng t (snd (SledOffsetStore_alloc eng t s)) = n"
    by (simp add: al SledOffsetStore_head_def)
  then show "fst (SledOffsetStore_alloc eng t s) = SledOffsetStore_head eng t s + 1 \<and>
      SledOffsetStore_head eng t (snd (SledOffsetStore_alloc eng t s)) = SledOffsetStore_head eng t s + 1"
    by (simp only: al fst_conv w [symmetric])
qed

end

interpretation mem_engine_offsets: offset_store "SledOffsetStore_alloc MemoryEngine_ops"
  "SledOffsetStore_head MemoryEngine_ops" "SledOffsetStore_remove MemoryEngine_ops"
  "sled_offsets_ok MemoryEngine_ops hm_wf" nul_free
  by (rule mem_engine.engine_offset_store)

section \<open>Restart\<close>

lemma from_utf8_lossy_as_bytes [simp]: "from_utf8_lossy (as_bytes s) = s"
  by (induction s) (simp_all add: from_utf8_lossy_def as_bytes_def unat_of_char_byte)

text \<open>A tree that holds offset keys of valid topics only.\<close>

definition offset_keys_only :: "(bytes \<Rightarrow> bytes option) \<Rightarrow> bool" where
  "offset_keys_only m \<longleftrightarrow>
    (\<forall>k v. m k = Some v \<longrightarrow> (\<exists>topic. nul_free topic \<and> k = offset_key topic \<and> length v = 8))"

lemma key_topic_offset_key [simp]: "key_topic (offset_key t) = t"
proof -
  have "take (length (offset_key t) - 5) (offset_key t) = as_bytes t"
    by (simp add: offset_key_def)
  then show ?thesis by (simp only: key_topic_def from_utf8_lossy_as_bytes)
qed

lemma suffix_head_offset_key: "suffix (as_bytes ''head'') (offset_key t)"
  by (simp only: offset_key_def suffix_appendI suffix_order.refl)

text \<open>The cache built from a list of offset entries with distinct keys.\<close>

lemma load_entries:
  "\<lbrakk>distinct (map fst kvs); \<forall>(k, v) \<in> set kvs. \<exists>t. k = offset_key t \<and> length v = 8\<rbrakk>
   \<Longrightarrow> hm_get (foldl load_entry [] kvs) topic =
     (case hm_get kvs (offset_key topic) of Some v \<Rightarrow> Some (i64_from_be v) | None \<Rightarrow> None)"
proof (induction kvs rule: rev_induct)
  case (snoc kv kvs)
  obtain k v where kv: "kv = (k, v)" by fastforce
  from snoc.prems obtain t where t: "k = offset_key t" and l: "length v = 8" by (auto simp: kv)
  have fresh: "hm_get kvs k = None" using snoc.prems(1) by (auto simp: kv map_of_eq_None_iff)
  have ih: "hm_get (foldl load_entry [] kvs) topic =
      (case hm_get kvs (offset_key topic) of Some v \<Rightarrow> Some (i64_from_be v) | None \<Rightarrow> None)"
    using snoc by auto
  have ld: "load_entry c (offset_key t, v) = hm_put t (i64_from_be v) c" for c
    by (simp add: load_entry_def l read_i64_def)
  have inj: "offset_key topic = offset_key t \<longleftrightarrow> topic = t"
    using key_topic_offset_key by metis
  show ?case
  proof (cases "topic = t")
    case True
    with fresh show ?thesis by (simp add: ld kv t map_add_def)
  next
    case False
    with ih inj show ?thesis by (simp add: ld kv t map_add_def split: option.split)
  qed
qed simp

context storage_engine
begin

lemma sled_new_cache:
  assumes "einv t" and "offset_keys_only (contents t)"
  shows "hm_get (so_cache (SledOffsetStore_new eng t)) topic =
    (case contents t (offset_key topic) of Some v \<Rightarrow> Some (i64_from_be v) | None \<Rightarrow> None)"
proof -
  let ?kvs = "eng_scan_prefix eng [] t"
  have d: "distinct (map fst ?kvs)" and set: "set ?kvs = {(k, v). contents t k = Some v}"
    using scan_contents [OF assms(1), of "[]"] by auto
  have "suffix (as_bytes ''head'') (fst kv)" if kv: "kv \<in> set ?kvs" for kv
  proof -
    obtain topic where "fst kv = offset_key topic"
      using assms(2) kv unfolding set offset_keys_only_def by fastforce
    then show ?thesis by (simp only: suffix_head_offset_key)
  qed
  then have "filter (\<lambda>kv. suffix (as_bytes ''head'') (fst kv)) ?kvs = ?kvs"
    unfolding filter_id_conv by blast
  then have "so_cache (SledOffsetStore_new eng t) = foldl load_entry [] ?kvs"
    by (simp only: SledOffsetStore_new_def SledOffsetStore.simps)
  moreover have "hm_get ?kvs k = contents t k" for k
    using map_of_eq_Some_iff [OF d, of k] set by (cases "contents t k"; cases "hm_get ?kvs k") auto
  moreover have "\<forall>(k, v) \<in> set ?kvs. \<exists>t. k = offset_key t \<and> length v = 8"
    using assms(2) set by (auto simp: offset_keys_only_def)
  ultimately show ?thesis using load_entries [OF d] by simp
qed

lemma sled_new_head:
  assumes "einv t" and "offset_keys_only (contents t)"
  shows "SledOffsetStore_head eng topic (SledOffsetStore_new eng t) = stored_head eng topic t"
proof -
  have "so_engine (SledOffsetStore_new eng t) = t" by (simp add: SledOffsetStore_new_def)
  moreover have "length v = 8" if "contents t (offset_key topic) = Some v" for v
    using assms(2) that by (auto simp: offset_keys_only_def)
  ultimately show ?thesis
    using sled_new_cache [OF assms] get_contents [OF assms(1)]
    by (auto simp: SledOffsetStore_head_def stored_head_def read_i64_def split: option.split)
qed

lemma offset_keys_only_alloc:
  assumes "einv (so_engine s)" "offset_keys_only (contents (so_engine s))" "nul_free t"
  shows "einv (so_engine (snd (SledOffsetStore_alloc eng t s)))
    \<and> offset_keys_only (contents (so_engine (snd (SledOffsetStore_alloc eng t s))))"
  using put_contents [OF assms(1), of "offset_key t"] assms(2,3)
  by (auto simp: SledOffsetStore_alloc_def Let_def offset_keys_only_def)

lemma offset_keys_only_alloc_all:
  "\<lbrakk>einv (so_engine s); offset_keys_only (contents (so_engine s)); \<forall>t \<in> set ts. nul_free t;
    alloc_all (SledOffsetStore_alloc eng) ts s = (offs, s')\<rbrakk>
   \<Longrightarrow> einv (so_engine s') \<and> offset_keys_only (contents (so_engine s'))"
proof (induction ts arbitrary: s offs)
  case (Cons t ts)
  obtain off s1 where a: "SledOffsetStore_alloc eng t s = (off, s1)" by fastforce
  obtain offs1 s2 where r: "alloc_all (SledOffsetStore_alloc eng) ts s1 = (offs1, s2)" by fastforce
  have "einv (so_engine s1) \<and> offset_keys_only (contents (so_engine s1))"
    using offset_keys_only_alloc [OF Cons.prems(1,2), of t] Cons.prems(3) a by simp
  with Cons.IH [of s1 offs1] Cons.prems a r show ?case by auto
qed simp

lemma sled_new_empty_ok:
  assumes "einv t" and "contents t = Map.empty"
  shows "sled_offsets_ok eng einv (SledOffsetStore_new eng t)"
    and "SledOffsetStore_head eng topic (SledOffsetStore_new eng t) = 0"
proof -
  have o: "offset_keys_only (contents t)" by (simp add: offset_keys_only_def assms(2))
  have z: "stored_head eng b t = 0" for b
    using get_contents [OF assms(1)] by (simp add: stored_head_def assms(2))
  show "SledOffsetStore_head eng topic (SledOffsetStore_new eng t) = 0"
    using sled_new_head [OF assms(1) o] z by simp
  have "so_engine (SledOffsetStore_new eng t) = t" by (simp add: SledOffsetStore_new_def)
  then show "sled_offsets_ok eng einv (SledOffsetStore_new eng t)"
    using assms sled_new_cache [OF assms(1) o] z by (simp add: sled_offsets_ok_def)
qed

text \<open>Allocating on a fresh store, then reopening the same engine.\<close>

lemma sled_restart:
  assumes "einv t0" "contents t0 = Map.empty" "\<forall>t \<in> set ts. nul_free t"
    "int (length ts) < i64_max - 1"
    "alloc_all (SledOffsetStore_alloc eng) ts (SledOffsetStore_new eng t0) = (offs, s)" "nul_free t"
  shows "offsets_of t offs = map (\<lambda>i. 1 + int i) [0..<count_list ts t]"
    and "SledOffsetStore_head eng t (SledOffsetStore_new eng (so_engine s)) = int (count_list ts t)"
proof -
  note os = engine_offset_store
  let ?s0 = "SledOffsetStore_new eng t0"
  have "\<forall>t. nul_free t \<longrightarrow> SledOffsetStore_head eng t ?s0 + int (length ts) < i64_max - 1"
    using sled_new_empty_ok(2) [OF assms(1,2)] assms(4) by simp
  from offset_store.alloc_all_consecutive [OF os sled_new_empty_ok(1) [OF assms(1,2)] assms(3) this
      assms(5,6)] sled_new_empty_ok(2) [OF assms(1,2)]
  have r: "offsets_of t offs = map (\<lambda>i. 1 + int i) [0..<count_list ts t]"
    "SledOffsetStore_head eng t s = int (count_list ts t)" "sled_offsets_ok eng einv s" by auto
  show "offsets_of t offs = map (\<lambda>i. 1 + int i) [0..<count_list ts t]" by (rule r)
  have o0: "offset_keys_only (contents (so_engine ?s0))" "einv (so_engine ?s0)"
    using assms(1,2) by (simp_all add: SledOffsetStore_new_def offset_keys_only_def)
  from offset_keys_only_alloc_all [OF o0(2,1) assms(3,5)]
  have "SledOffsetStore_head eng t (SledOffsetStore_new eng (so_engine s)) = stored_head eng t (so_engine s)"
    using sled_new_head by blast
  then show "SledOffsetStore_head eng t (SledOffsetStore_new eng (so_engine s)) = int (count_list ts t)"
    using sled_head [OF r(3) assms(6)] r(2) by simp
qed

end

section \<open>Properties\<close>

text \<open>Offsets are gap-free per topic: in any sequence of allocations on a new in-memory
  store, interleaved over any topics, the offsets handed out for a topic are exactly
  1, 2, ..., k in order, and its head is k.\<close>

lemma memory_offsets_consecutive:
  assumes "alloc_all MemoryOffsetStore_alloc ts [] = (offs, s)" and "int (length ts) < i64_max - 1"
  shows "offsets_of t offs = map (\<lambda>i. 1 + int i) [0..<count_list ts t]
    \<and> MemoryOffsetStore_head t s = int (count_list ts t)"
proof -
  have ok: "mem_offsets_ok []" by (simp add: mem_offsets_ok_def)
  have h: "MemoryOffsetStore_head t [] = 0" for t by (simp add: MemoryOffsetStore_head_def)
  show ?thesis
    using mem_offsets.alloc_all_consecutive [OF ok _ _ assms(1), of t] assms(2) by (simp add: h)
qed

lemma memory_offsets_consecutive_witness:
  "\<exists>s. alloc_all MemoryOffsetStore_alloc [''a'', ''b'', ''a''] [] =
     ([(''a'', 1), (''b'', 1), (''a'', 2)], s) \<and> MemoryOffsetStore_head ''a'' s = 2"
proof -
  obtain s where s: "alloc_all MemoryOffsetStore_alloc [''a'', ''b'', ''a''] [] =
      ([(''a'', 1), (''b'', 1), (''a'', 2)], s)"
    by (simp add: MemoryOffsetStore_alloc_def Let_def hm_or_insert_def hm_get_or_def wrap_i64_def)
  from memory_offsets_consecutive [OF s, of "''a''"] s show ?thesis by (simp add: i64_max_def)
qed

text \<open>C15. Durable offsets: on a sled tree, allocations for valid topics are gap-free, and a
  store reopened on the same tree continues from the same head for every topic.\<close>

theorem sled_offsets_survive_restart:
  assumes "sled_tree_ok tree contents tinv" and "eng = SledEngine_ops tree"
    and "tinv t0" and "contents t0 = Map.empty"
    and "\<forall>t \<in> set ts. validate_name t = Inr ()" and "int (length ts) < i64_max - 1"
    and "alloc_all (SledOffsetStore_alloc eng) ts (SledOffsetStore_new eng t0) = (offs, s)"
    and "validate_name t = Inr ()"
  shows "offsets_of t offs = map (\<lambda>i. 1 + int i) [0..<count_list ts t]
    \<and> SledOffsetStore_head eng t (SledOffsetStore_new eng (so_engine s)) = int (count_list ts t)"
proof -
  have "\<forall>t \<in> set ts. nul_free t" "nul_free t"
    using assms(5,8) valid_name_no_NUL by (auto simp: nul_free_def)
  with storage_engine.sled_restart [OF sled_storage_engine [OF assms(1)] assms(3,4)] assms
  show ?thesis by simp
qed

theorem sled_offsets_survive_restart_witness:
  "\<exists>offs s. alloc_all (SledOffsetStore_alloc (SledEngine_ops alist_tree)) [''a'', ''b'', ''a'']
      (SledOffsetStore_new (SledEngine_ops alist_tree) []) = (offs, s)
    \<and> SledOffsetStore_head (SledEngine_ops alist_tree) ''a''
        (SledOffsetStore_new (SledEngine_ops alist_tree) (so_engine s)) = 2"
proof -
  let ?e = "SledEngine_ops alist_tree"
  obtain offs s where r: "alloc_all (SledOffsetStore_alloc ?e) [''a'', ''b'', ''a'']
      (SledOffsetStore_new ?e []) = (offs, s)" by fastforce
  have v: "validate_name ''a'' = Inr ()" "validate_name ''b'' = Inr ()"
    by (simp_all add: validate_name_def)
  from sled_offsets_survive_restart [OF alist_tree_ok refl _ _ _ _ r v(1)] v
  have "SledOffsetStore_head ?e ''a'' (SledOffsetStore_new ?e (so_engine s)) = 2"
    by (simp add: i64_max_def fun_eq_iff)
  with r show ?thesis by blast
qed

end
