(* ===== verification/Dedupe_Store.thy ===== *)
theory Dedupe_Store
  imports Offset_Store
begin

text \<open>
  Message deduplication (\<open>rifts-storage/src/dedupe.rs\<close>): the in-memory store, the store on
  a sled tree with its compare-and-swap loop, and their contract: a message id is fresh
  at most once per window.
\<close>

definition dedupe_expiry :: "i64 \<Rightarrow> nat \<Rightarrow> i64" where
  "dedupe_expiry now window = wrap_i64 (now + wrap_i64 (int window))"

section \<open>The memory store\<close>

type_synonym MemoryDedupeStore = "(string \<times> string, i64) hmap"

definition MemoryDedupeStore_check_and_record ::
  "i64 \<Rightarrow> string \<Rightarrow> string \<Rightarrow> nat \<Rightarrow> MemoryDedupeStore \<Rightarrow> bool \<times> MemoryDedupeStore" where
  "MemoryDedupeStore_check_and_record now topic key window s =
    (let expires = dedupe_expiry now window; k = (topic, key)
     in case hm_get s k of
          Some v \<Rightarrow> if v \<le> now then (True, hm_put k expires s) else (False, s)
        | None \<Rightarrow> (True, hm_put k expires s))"

definition MemoryDedupeStore_sweep :: "i64 \<Rightarrow> MemoryDedupeStore \<Rightarrow> nat \<times> MemoryDedupeStore" where
  "MemoryDedupeStore_sweep now s =
    (let expired = map fst (filter (\<lambda>kv. snd kv \<le> now) s)
     in foldl (\<lambda>(removed, s) k.
          case hm_get s k of Some _ \<Rightarrow> (removed + 1, hm_del k s) | None \<Rightarrow> (removed, s))
        (0, s) expired)"

section \<open>The sled store\<close>

text \<open>One task's loop; every pass reads the record and tries to exchange it.  \<open>None\<close> means
  that the fuel ran out.\<close>

fun SledDedupeStore_loop ::
  "'t SledTree \<Rightarrow> nat \<Rightarrow> i64 \<Rightarrow> bytes \<Rightarrow> bytes \<Rightarrow> 't \<Rightarrow> (bool \<times> 't) option" where
  "SledDedupeStore_loop tree 0 now k new_bytes t = None"
| "SledDedupeStore_loop tree (Suc fuel) now k new_bytes t =
    (let stored = SledEngine_get tree k t;
         pending = (case stored of Some v \<Rightarrow> (case read_i64 v of Some prev \<Rightarrow> now < prev | None \<Rightarrow> False)
                              | None \<Rightarrow> False);
         expected = (case stored of Some v \<Rightarrow> if 8 \<le> length v then Some v else None | None \<Rightarrow> None)
     in if pending then Some (False, t)
        else case SledEngine_cas tree k expected new_bytes t of
               (Inr True, t') \<Rightarrow> Some (True, t')
             | (Inr False, t') \<Rightarrow> SledDedupeStore_loop tree fuel now k new_bytes t'
             | (Inl _, t') \<Rightarrow> Some (False, t'))"

definition SledDedupeStore_check_and_record ::
  "'t SledTree \<Rightarrow> nat \<Rightarrow> i64 \<Rightarrow> string \<Rightarrow> string \<Rightarrow> nat \<Rightarrow> 't \<Rightarrow> (bool \<times> 't) option" where
  "SledDedupeStore_check_and_record tree fuel now topic key window t =
    SledDedupeStore_loop tree fuel now (dedupe_key topic key)
      (i64_be_bytes (dedupe_expiry now window)) t"

text \<open>The topic part of a key: the bytes before the first separator.  The keys come from
  strings, on which \<open>from_utf8\<close> succeeds.\<close>

definition key_topic_part :: "bytes \<Rightarrow> bytes option" where
  "key_topic_part k = (if SEP \<in> set k then Some (takeWhile (\<lambda>b. b \<noteq> SEP) k) else None)"

definition dedupe_expired :: "i64 \<Rightarrow> bytes \<Rightarrow> bool" where
  "dedupe_expired now v = (case read_i64 v of Some e \<Rightarrow> e \<le> now | None \<Rightarrow> False)"

definition SledDedupeStore_sweep :: "'t SledTree \<Rightarrow> i64 \<Rightarrow> 't \<Rightarrow> nat \<times> 't" where
  "SledDedupeStore_sweep tree now t0 =
    (let topics = remdups (List.map_filter (\<lambda>kv. key_topic_part (fst kv))
                    (SledEngine_scan_prefix tree [] t0))
     in foldl (\<lambda>(swept, t) topic.
          let expired = map fst (filter (\<lambda>kv. dedupe_expired now (snd kv))
                          (SledEngine_scan_prefix tree (topic @ [SEP]) t))
          in (swept + length expired, foldl (\<lambda>t k. snd (SledEngine_delete tree k t)) t expired))
        (0, t0) topics)"

section \<open>The contract\<close>

locale dedupe_store =
  fixes check :: "i64 \<Rightarrow> string \<Rightarrow> string \<Rightarrow> nat \<Rightarrow> 's \<Rightarrow> bool \<times> 's"
    and sweep :: "i64 \<Rightarrow> 's \<Rightarrow> nat \<times> 's"
    and expiry :: "'s \<Rightarrow> string \<Rightarrow> string \<Rightarrow> i64 option"
    and sinv :: "'s \<Rightarrow> bool"
    and topic_ok :: "string \<Rightarrow> bool"
  assumes check_fresh: "\<lbrakk>sinv s; topic_ok t\<rbrakk> \<Longrightarrow>
      fst (check now t k w s) \<longleftrightarrow> (case expiry s t k of None \<Rightarrow> True | Some e \<Rightarrow> e \<le> now)"
    and check_expiry: "\<lbrakk>sinv s; topic_ok t; topic_ok t'\<rbrakk> \<Longrightarrow>
      expiry (snd (check now t k w s)) t' k' =
        (if t' = t \<and> k' = k \<and> fst (check now t k w s) then Some (dedupe_expiry now w)
         else expiry s t' k')"
    and check_inv: "\<lbrakk>sinv s; topic_ok t\<rbrakk> \<Longrightarrow> sinv (snd (check now t k w s))"
    and sweep_expiry: "\<lbrakk>sinv s; topic_ok t\<rbrakk> \<Longrightarrow>
      expiry (snd (sweep now s)) t k =
        (case expiry s t k of None \<Rightarrow> None | Some e \<Rightarrow> if e \<le> now then None else Some e)"
    and sweep_inv: "sinv s \<Longrightarrow> sinv (snd (sweep now s))"

text \<open>Runs of a store: checks and sweeps with the clock of each call.\<close>

datatype dedupe_op = Check i64 string string nat | Sweep i64

primrec op_time :: "dedupe_op \<Rightarrow> i64" where
  "op_time (Check now t k w) = now"
| "op_time (Sweep now) = now"

primrec op_topic_ok :: "(string \<Rightarrow> bool) \<Rightarrow> dedupe_op \<Rightarrow> bool" where
  "op_topic_ok ok (Check now t k w) = ok t"
| "op_topic_ok ok (Sweep now) = True"

lemma op_topic_ok_True [simp]: "op_topic_ok (\<lambda>_. True) op"
  by (cases op) auto

primrec dedupe_apply ::
  "(i64 \<Rightarrow> string \<Rightarrow> string \<Rightarrow> nat \<Rightarrow> 's \<Rightarrow> bool \<times> 's) \<Rightarrow> (i64 \<Rightarrow> 's \<Rightarrow> nat \<times> 's)
    \<Rightarrow> dedupe_op \<Rightarrow> 's \<Rightarrow> 's" where
  "dedupe_apply check sweep (Check now t k w) s = snd (check now t k w s)"
| "dedupe_apply check sweep (Sweep now) s = snd (sweep now s)"

context dedupe_store
begin

lemma apply_keeps_record:
  assumes "sinv s" "topic_ok t" "op_topic_ok topic_ok op" "expiry s t k = Some e" "op_time op < e"
  shows "expiry (dedupe_apply check sweep op s) t k = Some e" "sinv (dedupe_apply check sweep op s)"
proof -
  show "sinv (dedupe_apply check sweep op s)"
    using assms(1,3) check_inv sweep_inv by (cases op) auto
  show "expiry (dedupe_apply check sweep op s) t k = Some e"
  proof (cases op)
    case (Check now t' k' w)
    have "\<not> fst (check now t k w s)"
      using check_fresh [OF assms(1,2)] assms(4,5) Check by simp
    then show ?thesis
      using check_expiry [OF assms(1) _ assms(2), of t' now k' w k] assms(3,4) Check by auto
  next
    case (Sweep now)
    then show ?thesis using sweep_expiry [OF assms(1,2)] assms(4,5) by simp
  qed
qed

lemma run_keeps_record:
  "\<lbrakk>sinv s; topic_ok t; expiry s t k = Some e;
    \<forall>op \<in> set ops. op_topic_ok topic_ok op \<and> op_time op < e\<rbrakk>
   \<Longrightarrow> expiry (foldl (\<lambda>s op. dedupe_apply check sweep op s) s ops) t k = Some e
     \<and> sinv (foldl (\<lambda>s op. dedupe_apply check sweep op s) s ops)"
proof (induction ops arbitrary: s)
  case (Cons op ops)
  then show ?case using apply_keeps_record [of s t op k e] by simp
qed simp

lemma once_per_window:
  assumes "sinv s" "topic_ok t" "check n1 t k w s = (True, s1)"
    and "\<forall>op \<in> set ops. op_topic_ok topic_ok op \<and> op_time op < dedupe_expiry n1 w"
    and "s2 = foldl (\<lambda>s op. dedupe_apply check sweep op s) s1 ops"
  shows "fst (check n2 t k w2 s2) \<longleftrightarrow> dedupe_expiry n1 w \<le> n2"
proof -
  have i1: "sinv s1" using check_inv [OF assms(1,2), of n1 k w] assms(3) by simp
  have e1: "expiry s1 t k = Some (dedupe_expiry n1 w)"
    using check_expiry [OF assms(1,2,2), of n1 k w k] assms(3) by simp
  from run_keeps_record [OF i1 assms(2) e1 assms(4)]
  have "sinv s2" "expiry s2 t k = Some (dedupe_expiry n1 w)" using assms(5) by auto
  then show ?thesis using check_fresh [OF _ assms(2)] by simp
qed

end

section \<open>The memory store meets the contract\<close>

lemma memory_sweep:
  assumes "hm_wf s"
  shows "MemoryDedupeStore_sweep now s =
    (length (filter (\<lambda>kv. snd kv \<le> now) s), filter (\<lambda>kv. \<not> snd kv \<le> now) s)"
proof -
  let ?step = "\<lambda>(removed, s) k. case hm_get s k of Some _ \<Rightarrow> (removed + 1, hm_del k s) | None \<Rightarrow> (removed, s)"
  have "foldl ?step (n, m) ks = (n + length ks, hm_del_all ks m)"
    if "distinct ks" "\<forall>k \<in> set ks. hm_get m k \<noteq> None" for n and m :: MemoryDedupeStore and ks
    using that
  proof (induction ks arbitrary: n m)
    case (Cons k ks)
    then obtain v where v: "hm_get m k = Some v" by auto
    have "distinct ks" "\<forall>j \<in> set ks. hm_get (hm_del k m) j \<noteq> None"
      using Cons.prems by auto
    from Cons.IH [OF this, of "n + 1"] v show ?case by (simp add: hm_del_all_def)
  qed (simp add: hm_del_all_def)
  moreover have "distinct (map fst (filter (\<lambda>kv. snd kv \<le> now) s))"
    using assms by (simp add: distinct_map_filter)
  moreover have "\<forall>k \<in> set (map fst (filter (\<lambda>kv. snd kv \<le> now) s)). hm_get s k \<noteq> None"
    by (auto simp: map_of_eq_None_iff)
  ultimately have "MemoryDedupeStore_sweep now s =
      (0 + length (map fst (filter (\<lambda>kv. snd kv \<le> now) s)),
       hm_del_all (map fst (filter (\<lambda>kv. snd kv \<le> now) s)) s)"
    unfolding MemoryDedupeStore_sweep_def Let_def by blast
  then show ?thesis using hm_del_all_filter_keys [OF assms, of "\<lambda>kv. snd kv \<le> now"] by simp
qed

interpretation mem_dedupe: dedupe_store MemoryDedupeStore_check_and_record MemoryDedupeStore_sweep
  "\<lambda>s t k. hm_get s (t, k)" hm_wf "\<lambda>_. True"
proof unfold_locales
  fix s :: MemoryDedupeStore and now t t' k k' w
  assume wf: "hm_wf s"
  show "fst (MemoryDedupeStore_check_and_record now t k w s) =
      (case hm_get s (t, k) of None \<Rightarrow> True | Some e \<Rightarrow> e \<le> now)"
    by (simp add: MemoryDedupeStore_check_and_record_def Let_def split: option.split)
  show "hm_get (snd (MemoryDedupeStore_check_and_record now t k w s)) (t', k') =
      (if t' = t \<and> k' = k \<and> fst (MemoryDedupeStore_check_and_record now t k w s)
       then Some (dedupe_expiry now w) else hm_get s (t', k'))"
    by (auto simp: MemoryDedupeStore_check_and_record_def Let_def split: option.split)
  show "hm_wf (snd (MemoryDedupeStore_check_and_record now t k w s))"
    using wf by (simp add: MemoryDedupeStore_check_and_record_def Let_def split: option.split)
  show "hm_get (snd (MemoryDedupeStore_sweep now s)) (t, k) =
      (case hm_get s (t, k) of None \<Rightarrow> None | Some e \<Rightarrow> if e \<le> now then None else Some e)"
    using wf by (simp add: memory_sweep hm_get_filter split: option.split)
  show "hm_wf (snd (MemoryDedupeStore_sweep now s))"
    using wf by (simp add: memory_sweep)
qed

section \<open>The sled store meets the contract\<close>

definition dedupe_record :: "(bytes \<Rightarrow> bytes option) \<Rightarrow> string \<Rightarrow> string \<Rightarrow> i64 option" where
  "dedupe_record c t k = Option.bind (c (dedupe_key t k)) read_i64"

definition dedupe_fresh :: "(bytes \<Rightarrow> bytes option) \<Rightarrow> i64 \<Rightarrow> string \<Rightarrow> string \<Rightarrow> bool" where
  "dedupe_fresh c now t k = (case dedupe_record c t k of None \<Rightarrow> True | Some e \<Rightarrow> e \<le> now)"

text \<open>Every stored value has the eight bytes the store writes.\<close>

definition records_wf :: "(bytes \<Rightarrow> bytes option) \<Rightarrow> bool" where
  "records_wf c \<longleftrightarrow> (\<forall>k v. c k = Some v \<longrightarrow> 8 \<le> length v)"

lemma dedupe_key_inj:
  assumes "nul_free t" "nul_free t'"
  shows "dedupe_key t k = dedupe_key t' k' \<longleftrightarrow> t = t' \<and> k = k'"
proof
  assume "dedupe_key t k = dedupe_key t' k'"
  from topic_field_inj [OF assms this [unfolded dedupe_key_def]]
  have "t = t'" "as_bytes k = as_bytes k'" by simp_all
  then show "t = t' \<and> k = k'" using as_bytes_inj [of k k'] by simp
qed simp

lemma key_topic_part_dedupe: "nul_free t \<Longrightarrow> key_topic_part (dedupe_key t k) = Some (as_bytes t)"
  using nul_free_bytes [of t] by (auto simp: key_topic_part_def dedupe_key_def takeWhile_append)

lemma key_topic_partD: "key_topic_part k = Some p \<Longrightarrow> prefix (p @ [SEP]) k"
proof -
  assume a: "key_topic_part k = Some p"
  then have p: "p = takeWhile (\<lambda>b. b \<noteq> SEP) k" and sep: "SEP \<in> set k"
    by (auto simp: key_topic_part_def split: if_splits)
  obtain d ds where d: "dropWhile (\<lambda>b. b \<noteq> SEP) k = d # ds"
    using sep by (cases "dropWhile (\<lambda>b. b \<noteq> SEP) k") auto
  then have "d = SEP" using hd_dropWhile [of "\<lambda>b. b \<noteq> SEP" k] by auto
  then have "k = (p @ [SEP]) @ ds"
    using takeWhile_dropWhile_id [of "\<lambda>b. b \<noteq> SEP" k] d p by simp
  then show ?thesis by (rule prefixI)
qed

lemma key_topic_part_prefix:
  assumes "key_topic_part k0 = Some p"
  shows "prefix (p @ [SEP]) k \<longleftrightarrow> key_topic_part k = Some p"
proof
  have nosep: "SEP \<notin> set p"
    using assms by (auto simp: key_topic_part_def dest: set_takeWhileD split: if_splits)
  assume "prefix (p @ [SEP]) k"
  then obtain z where "k = p @ SEP # z" by (auto simp: prefix_def)
  moreover have "takeWhile (\<lambda>b. b \<noteq> SEP) (p @ SEP # z) = p"
    using nosep by (subst takeWhile_append2) auto
  ultimately show "key_topic_part k = Some p" by (simp add: key_topic_part_def)
qed (rule key_topic_partD)

text \<open>One pass of the loop settles a well-formed record: more fuel changes nothing.\<close>

lemma sled_check_step:
  assumes tree: "sled_tree_ok tree contents tinv" and t: "tinv t"
    and wf: "records_wf (contents t)" and fuel: "0 < fuel"
  shows "\<exists>t'. SledDedupeStore_check_and_record tree fuel now topic key w t
      = Some (dedupe_fresh (contents t) now topic key, t') \<and> tinv t'
    \<and> contents t' = (if dedupe_fresh (contents t) now topic key then (contents t)(dedupe_key topic key \<mapsto>
          i64_be_bytes (dedupe_expiry now w)) else contents t)"
proof -
  note laws = sled_tree_okD [OF tree t]
  let ?k = "dedupe_key topic key" and ?n = "i64_be_bytes (dedupe_expiry now w)"
  obtain f where f: "fuel = Suc f" using fuel by (cases fuel) auto
  have get: "SledEngine_get tree ?k t = contents t ?k" by (simp add: SledEngine_get_def laws(1))
  have len: "8 \<le> length v" if "contents t ?k = Some v" for v using wf that by (auto simp: records_wf_def)
  obtain r t1 where cas: "tree_cas tree ?k (contents t ?k) (Some ?n) t = (r, t1)" by fastforce
  have r: "r = Inr True" "tinv t1" "contents t1 = (contents t)(?k \<mapsto> ?n)"
    using laws(8,9,10) [of ?k "contents t ?k" "Some ?n"] cas by auto
  show ?thesis
  proof (cases "contents t ?k")
    case None
    then show ?thesis
      using cas r by (simp add: f SledDedupeStore_check_and_record_def get SledEngine_cas_def dedupe_fresh_def
          dedupe_record_def)
  next
    case (Some v)
    then have "8 \<le> length v" by (rule len)
    then show ?thesis
      using Some cas r t by (auto simp: f SledDedupeStore_check_and_record_def get SledEngine_cas_def dedupe_fresh_def
          dedupe_record_def read_i64_def)
  qed
qed

text \<open>One topic of the sweep, and the whole sweep.\<close>

definition sweep_topic :: "'t SledTree \<Rightarrow> i64 \<Rightarrow> nat \<times> 't \<Rightarrow> bytes \<Rightarrow> nat \<times> 't" where
  "sweep_topic tree now st topic =
    (let expired = map fst (filter (\<lambda>kv. dedupe_expired now (snd kv))
                     (SledEngine_scan_prefix tree (topic @ [SEP]) (snd st)))
     in (fst st + length expired, foldl (\<lambda>t k. snd (SledEngine_delete tree k t)) (snd st) expired))"

lemma sweep_topic_contents:
  assumes tree: "sled_tree_ok tree contents tinv" and t: "tinv (snd st)"
    and p: "key_topic_part k0 = Some p"
  shows "tinv (snd (sweep_topic tree now st p)) \<and>
    contents (snd (sweep_topic tree now st p)) = (\<lambda>k. case contents (snd st) k of None \<Rightarrow> None
      | Some v \<Rightarrow> if key_topic_part k = Some p \<and> dedupe_expired now v then None else Some v)"
proof -
  let ?ex = "map fst (filter (\<lambda>kv. dedupe_expired now (snd kv))
    (SledEngine_scan_prefix tree (p @ [SEP]) (snd st)))"
  have set: "set ?ex = {k. \<exists>v. contents (snd st) k = Some v \<and> key_topic_part k = Some p
      \<and> dedupe_expired now v}"
    using sled_scan [OF tree t, of "p @ [SEP]"] key_topic_part_prefix [OF p] by (force simp: image_iff)
  have del: "eng_delete (SledEngine_ops tree) = SledEngine_delete tree" by (simp add: SledEngine_ops_def)
  note all = storage_engine.delete_all [OF sled_storage_engine [OF tree] t, of ?ex, unfolded del]
  have "snd (sweep_topic tree now st p) = foldl (\<lambda>t k. snd (SledEngine_delete tree k t)) (snd st) ?ex"
    by (simp add: sweep_topic_def Let_def)
  with all have "tinv (snd (sweep_topic tree now st p))"
    "contents (snd (sweep_topic tree now st p)) = contents (snd st) |` (- set ?ex)" by simp_all
  then show ?thesis
    unfolding set by (auto simp: restrict_map_def fun_eq_iff split: option.split)
qed

lemma sweep_topics_contents:
  assumes "sled_tree_ok tree contents tinv" "tinv (snd st)" "\<forall>p \<in> set ps. \<exists>k. key_topic_part k = Some p"
  shows "tinv (snd (foldl (sweep_topic tree now) st ps)) \<and>
    contents (snd (foldl (sweep_topic tree now) st ps)) = (\<lambda>k. case contents (snd st) k of None \<Rightarrow> None
      | Some v \<Rightarrow> if key_topic_part k \<in> Some ` set ps \<and> dedupe_expired now v then None else Some v)"
  using assms(2,3)
proof (induction ps arbitrary: st)
  case (Cons p ps)
  obtain k0 where "key_topic_part k0 = Some p" using Cons.prems(2) by auto
  note one = sweep_topic_contents [OF assms(1) Cons.prems(1) this, of now]
  then show ?case using Cons.IH [of "sweep_topic tree now st p"] Cons.prems(2)
    by (auto simp: fun_eq_iff split: option.split)
qed (simp add: fun_eq_iff split: option.split)

lemma sled_sweep_contents:
  assumes "sled_tree_ok tree contents tinv" "tinv t"
  shows "tinv (snd (SledDedupeStore_sweep tree now t)) \<and>
    contents (snd (SledDedupeStore_sweep tree now t)) = (\<lambda>k. case contents t k of None \<Rightarrow> None
      | Some v \<Rightarrow> if SEP \<in> set k \<and> dedupe_expired now v then None else Some v)"
proof -
  let ?ps = "remdups (List.map_filter (\<lambda>kv. key_topic_part (fst kv)) (SledEngine_scan_prefix tree [] t))"
  have eq: "SledDedupeStore_sweep tree now t = foldl (sweep_topic tree now) (0, t) ?ps"
    unfolding SledDedupeStore_sweep_def Let_def
    by (rule arg_cong [where f = "\<lambda>f. foldl f (0, t) ?ps"])
       (simp add: fun_eq_iff sweep_topic_def Let_def)
  have "\<forall>p \<in> set ?ps. \<exists>k. key_topic_part k = Some p"
    by (auto simp: List.map_filter_def)
  note all = sweep_topics_contents [OF assms(1), of "(0, t)", simplified, OF assms(2) this, of now]
  have "key_topic_part k \<in> Some ` set ?ps \<longleftrightarrow> SEP \<in> set k" if "contents t k = Some v" for k v
    using that sled_scan [OF assms, of "[]"]
    by (force simp: List.map_filter_def key_topic_part_def image_iff)
  with all show ?thesis
    unfolding eq by (auto simp: fun_eq_iff split: option.split)
qed

text \<open>The store's answer as a total function: one pass is enough.\<close>

definition sled_check :: "'t SledTree \<Rightarrow> i64 \<Rightarrow> string \<Rightarrow> string \<Rightarrow> nat \<Rightarrow> 't \<Rightarrow> bool \<times> 't" where
  "sled_check tree now topic key window t =
    (case SledDedupeStore_check_and_record tree 1 now topic key window t of
       Some r \<Rightarrow> r | None \<Rightarrow> (False, t))"

lemma sled_check_eq:
  assumes "sled_tree_ok tree contents tinv" "tinv t" "records_wf (contents t)" "0 < fuel"
  shows "SledDedupeStore_check_and_record tree fuel now topic key w t = Some (sled_check tree now topic key w t)"
proof -
  obtain f where f: "fuel = Suc f" using assms(4) by (cases fuel) auto
  note laws = sled_tree_okD [OF assms(1,2)]
  let ?k = "dedupe_key topic key" and ?n = "i64_be_bytes (dedupe_expiry now w)"
  have get: "SledEngine_get tree ?k t = contents t ?k" by (simp add: SledEngine_get_def laws(1))
  have len: "8 \<le> length v" if "contents t ?k = Some v" for v
    using assms(3) that by (auto simp: records_wf_def)
  obtain r t1 where cas: "tree_cas tree ?k (contents t ?k) (Some ?n) t = (r, t1)" by fastforce
  have "r = Inr True" using laws(8) [of ?k "contents t ?k" "Some ?n"] cas by auto
  with cas len show ?thesis
    by (cases "contents t ?k")
       (auto simp: f sled_check_def SledDedupeStore_check_and_record_def get SledEngine_cas_def read_i64_def)
qed

lemma sled_check_contents:
  assumes "sled_tree_ok tree contents tinv" "tinv t" "records_wf (contents t)"
  shows "fst (sled_check tree now topic key w t) = dedupe_fresh (contents t) now topic key"
    and "tinv (snd (sled_check tree now topic key w t))"
    and "contents (snd (sled_check tree now topic key w t)) =
      (if dedupe_fresh (contents t) now topic key
       then (contents t)(dedupe_key topic key \<mapsto> i64_be_bytes (dedupe_expiry now w)) else contents t)"
    and "records_wf (contents (snd (sled_check tree now topic key w t)))"
proof -
  from sled_check_step [OF assms, of 1 now topic key w] sled_check_eq [OF assms, of 1 now topic key w]
  obtain t' where t': "sled_check tree now topic key w t = (dedupe_fresh (contents t) now topic key, t')"
    "tinv t'" "contents t' = (if dedupe_fresh (contents t) now topic key
       then (contents t)(dedupe_key topic key \<mapsto> i64_be_bytes (dedupe_expiry now w)) else contents t)" by auto
  show "fst (sled_check tree now topic key w t) = dedupe_fresh (contents t) now topic key"
    "tinv (snd (sled_check tree now topic key w t))"
    "contents (snd (sled_check tree now topic key w t)) =
      (if dedupe_fresh (contents t) now topic key
       then (contents t)(dedupe_key topic key \<mapsto> i64_be_bytes (dedupe_expiry now w)) else contents t)"
    using t' by simp_all
  show "records_wf (contents (snd (sled_check tree now topic key w t)))"
    using t' assms(3) by (auto simp: records_wf_def)
qed

lemma dedupe_expiry_ok [simp]: "i64_ok (dedupe_expiry now w)"
  by (simp add: dedupe_expiry_def)

lemma sled_dedupe_store:
  assumes "sled_tree_ok tree contents tinv"
  shows "dedupe_store (sled_check tree) (SledDedupeStore_sweep tree) (\<lambda>t. dedupe_record (contents t))
    (\<lambda>t. tinv t \<and> records_wf (contents t)) nul_free"
proof
  fix s now t t' k k' w
  assume s: "tinv s \<and> records_wf (contents s)" and t: "nul_free t"
  note check = sled_check_contents [OF assms conjunct1 [OF s] conjunct2 [OF s]]
  note sweep = sled_sweep_contents [OF assms conjunct1 [OF s], of now]
  show "fst (sled_check tree now t k w s) =
      (case dedupe_record (contents s) t k of None \<Rightarrow> True | Some e \<Rightarrow> e \<le> now)"
    by (simp add: check dedupe_fresh_def)
  show "tinv (snd (sled_check tree now t k w s)) \<and> records_wf (contents (snd (sled_check tree now t k w s)))"
    using check(2,4) by simp
  show "dedupe_record (contents (snd (sled_check tree now t k w s))) t' k' =
      (if t' = t \<and> k' = k \<and> fst (sled_check tree now t k w s) then Some (dedupe_expiry now w)
       else dedupe_record (contents s) t' k')" if "nul_free t'"
    unfolding check(1,3) using dedupe_key_inj [OF that t] by (simp add: dedupe_record_def)
  have sep: "SEP \<in> set (dedupe_key t k)" by (simp add: dedupe_key_def)
  show "dedupe_record (contents (snd (SledDedupeStore_sweep tree now s))) t k =
      (case dedupe_record (contents s) t k of None \<Rightarrow> None | Some e \<Rightarrow> if e \<le> now then None else Some e)"
    using sweep sep by (simp add: dedupe_record_def dedupe_expired_def split: option.split)
next
  fix s now
  assume s: "tinv s \<and> records_wf (contents s)"
  show "tinv (snd (SledDedupeStore_sweep tree now s))
      \<and> records_wf (contents (snd (SledDedupeStore_sweep tree now s)))"
    using sled_sweep_contents [OF assms conjunct1 [OF s], of now] s
    by (auto simp: records_wf_def split: option.splits if_splits)
qed

interpretation alist_dedupe: dedupe_store "sled_check alist_tree" "SledDedupeStore_sweep alist_tree"
  "\<lambda>t. dedupe_record (hm_get t)" "\<lambda>t. hm_wf t \<and> records_wf (hm_get t)" nul_free
  by (rule sled_dedupe_store [OF alist_tree_ok])

text \<open>A run of the sled store; \<open>None\<close> when a check does not return within the fuel.\<close>

fun sled_dedupe_run :: "'t SledTree \<Rightarrow> nat \<Rightarrow> dedupe_op list \<Rightarrow> 't \<Rightarrow> 't option" where
  "sled_dedupe_run tree fuel [] t = Some t"
| "sled_dedupe_run tree fuel (Check now topic key w # ops) t =
    (case SledDedupeStore_check_and_record tree fuel now topic key w t of
       None \<Rightarrow> None | Some r \<Rightarrow> sled_dedupe_run tree fuel ops (snd r))"
| "sled_dedupe_run tree fuel (Sweep now # ops) t =
    sled_dedupe_run tree fuel ops (snd (SledDedupeStore_sweep tree now t))"

lemma sled_dedupe_run_total:
  assumes tree: "sled_tree_ok tree contents tinv" and fuel: "0 < fuel"
  shows "tinv t \<and> records_wf (contents t) \<Longrightarrow>
    sled_dedupe_run tree fuel ops t =
      Some (foldl (\<lambda>s op. dedupe_apply (sled_check tree) (SledDedupeStore_sweep tree) op s) t ops)"
proof (induction ops arbitrary: t)
  case (Cons op ops)
  then show ?case
    using sled_check_eq [OF tree _ _ fuel, of t] sled_check_contents(2,4) [OF tree, of t]
      dedupe_store.sweep_inv [OF sled_dedupe_store [OF tree], of t]
    by (cases op) auto
qed simp

lemma sled_dedupe_run_keeps:
  assumes tree: "sled_tree_ok tree contents tinv"
  shows "\<lbrakk>tinv t \<and> records_wf (contents t); \<forall>op \<in> set ops. op_topic_ok nul_free op\<rbrakk> \<Longrightarrow>
    tinv (foldl (\<lambda>s op. dedupe_apply (sled_check tree) (SledDedupeStore_sweep tree) op s) t ops) \<and>
    records_wf (contents (foldl (\<lambda>s op. dedupe_apply (sled_check tree) (SledDedupeStore_sweep tree) op s) t ops))"
proof (induction ops arbitrary: t)
  case (Cons op ops)
  have "tinv (dedupe_apply (sled_check tree) (SledDedupeStore_sweep tree) op t)
      \<and> records_wf (contents (dedupe_apply (sled_check tree) (SledDedupeStore_sweep tree) op t))"
    using sled_check_contents(2,4) [OF tree, of t] Cons.prems(1)
      dedupe_store.sweep_inv [OF sled_dedupe_store [OF tree], of t]
    by (cases op) auto
  then show ?case using Cons.IH Cons.prems(2) by simp
qed simp

section \<open>Properties\<close>

text \<open>Deduplication in memory: once a message id of a topic was reported fresh, no check
  or sweep before its expiry makes it fresh again, whatever other ids and topics
  were checked in between; from the expiry on it is fresh again.\<close>

theorem memory_dedupe_once_per_window:
  assumes "hm_wf s" "MemoryDedupeStore_check_and_record n1 topic key w s = (True, s1)"
    and "\<forall>op \<in> set ops. op_time op < dedupe_expiry n1 w"
    and "s2 = foldl (\<lambda>s op. dedupe_apply MemoryDedupeStore_check_and_record MemoryDedupeStore_sweep op s) s1 ops"
  shows "fst (MemoryDedupeStore_check_and_record n2 topic key w2 s2) \<longleftrightarrow> dedupe_expiry n1 w \<le> n2"
proof -
  have "\<forall>op \<in> set ops. op_topic_ok (\<lambda>_. True) op \<and> op_time op < dedupe_expiry n1 w"
    using assms(3) by simp
  from mem_dedupe.once_per_window [OF assms(1) TrueI assms(2) this assms(4)] show ?thesis .
qed

theorem memory_dedupe_once_per_window_witness:
  "\<not> fst (MemoryDedupeStore_check_and_record 14 ''t'' ''m'' 5
      (foldl (\<lambda>s op. dedupe_apply MemoryDedupeStore_check_and_record MemoryDedupeStore_sweep op s)
        (snd (MemoryDedupeStore_check_and_record 10 ''t'' ''m'' 5 []))
        [Sweep 12, Check 13 ''u'' ''m'' 5]))"
proof -
  have e: "dedupe_expiry 10 5 = 15" by (simp add: dedupe_expiry_def i64_defs)
  have c: "MemoryDedupeStore_check_and_record 10 ''t'' ''m'' 5 []
      = (True, snd (MemoryDedupeStore_check_and_record 10 ''t'' ''m'' 5 []))"
    by (simp add: MemoryDedupeStore_check_and_record_def Let_def)
  show ?thesis
    using memory_dedupe_once_per_window [OF _ c, of "[Sweep 12, Check 13 ''u'' ''m'' 5]" _ 14 5] e
    by simp
qed

text \<open>C16. Deduplication on a sled tree: with well-formed records every check of a run returns
  (any positive fuel is enough for its compare-and-swap loop), and once a message id
  was reported fresh it is a duplicate until its expiry and fresh from then on.\<close>

theorem sled_dedupe_once_per_window:
  assumes "sled_tree_ok tree contents tinv" "tinv t" "records_wf (contents t)" "nul_free topic" "0 < fuel"
    and "SledDedupeStore_check_and_record tree fuel n1 topic key w t = Some (True, t1)"
    and "\<forall>op \<in> set ops. op_topic_ok nul_free op \<and> op_time op < dedupe_expiry n1 w"
  shows "\<exists>t2 t3. sled_dedupe_run tree fuel ops t1 = Some t2
    \<and> SledDedupeStore_check_and_record tree fuel n2 topic key w2 t2 = Some (dedupe_expiry n1 w \<le> n2, t3)"
proof -
  note tree = assms(1)
  have inv: "tinv t \<and> records_wf (contents t)" using assms(2,3) by simp
  have c: "sled_check tree n1 topic key w t = (True, t1)"
    using assms(6) sled_check_eq [OF assms(1,2,3,5)] by simp
  have inv1: "tinv t1 \<and> records_wf (contents t1)"
    using sled_check_contents(2,4) [OF assms(1,2,3), of n1 topic key w] c by simp
  define t2 where "t2 = foldl (\<lambda>s op. dedupe_apply (sled_check tree) (SledDedupeStore_sweep tree) op s) t1 ops"
  have run: "sled_dedupe_run tree fuel ops t1 = Some t2"
    unfolding t2_def by (rule sled_dedupe_run_total [OF tree assms(5) inv1])
  have inv2: "tinv t2" "records_wf (contents t2)"
    using sled_dedupe_run_keeps [OF tree inv1, of ops] assms(7) by (auto simp: t2_def)
  have "fst (sled_check tree n2 topic key w2 t2) \<longleftrightarrow> dedupe_expiry n1 w \<le> n2"
    by (rule dedupe_store.once_per_window [OF sled_dedupe_store [OF tree] inv assms(4) c assms(7) t2_def])
  then have "SledDedupeStore_check_and_record tree fuel n2 topic key w2 t2
      = Some (dedupe_expiry n1 w \<le> n2, snd (sled_check tree n2 topic key w2 t2))"
    using sled_check_eq [OF tree inv2 assms(5), of n2 topic key w2]
    by (cases "sled_check tree n2 topic key w2 t2") simp
  with run show ?thesis by blast
qed

theorem sled_dedupe_once_per_window_witness:
  "\<exists>t2 t3. sled_dedupe_run alist_tree 1 [Sweep 12]
      (snd (sled_check alist_tree 10 ''t'' ''m'' 5 [])) = Some t2
    \<and> SledDedupeStore_check_and_record alist_tree 1 14 ''t'' ''m'' 5 t2 = Some (False, t3)"
proof -
  have e: "dedupe_expiry 10 5 = 15" by (simp add: dedupe_expiry_def i64_defs)
  have wf: "hm_wf ([] :: (bytes, bytes) hmap)" "records_wf (hm_get ([] :: (bytes, bytes) hmap))"
    by (simp_all add: records_wf_def)
  have "fst (sled_check alist_tree 10 ''t'' ''m'' 5 [])"
    using sled_check_contents(1) [OF alist_tree_ok wf, of 10 "''t''" "''m''" 5]
    by (simp add: dedupe_fresh_def dedupe_record_def)
  then have c: "SledDedupeStore_check_and_record alist_tree 1 10 ''t'' ''m'' 5 []
      = Some (True, snd (sled_check alist_tree 10 ''t'' ''m'' 5 []))"
    using sled_check_eq [OF alist_tree_ok wf, of 1 10 "''t''" "''m''" 5] by (simp add: prod_eq_iff)
  show ?thesis
    using sled_dedupe_once_per_window [OF alist_tree_ok wf _ _ c, of "[Sweep 12]" 14 5] e
    by (simp add: nul_free_def)
qed

text \<open>A record shorter than eight bytes is not handled: the check treats it as absent,
  its compare-and-swap expects no value and therefore never succeeds, and the loop
  does not return, whatever the fuel.\<close>

lemma short_dedupe_record_diverges:
  assumes "sled_tree_ok tree contents tinv" "tinv t"
    and "contents t (dedupe_key topic key) = Some v" "length v < 8"
  shows "SledDedupeStore_check_and_record tree fuel now topic key window t = None"
proof -
  have "SledDedupeStore_loop tree fuel now (dedupe_key topic key) n t = None" for n
    using assms(2,3)
  proof (induction fuel arbitrary: t)
    case (Suc fuel)
    note laws = sled_tree_okD [OF assms(1) Suc.prems(1)]
    let ?k = "dedupe_key topic key"
    obtain r t1 where cas: "tree_cas tree ?k None (Some n) t = (r, t1)" by fastforce
    have r: "r = Inr False" "tinv t1" "contents t1 = contents t"
      using laws(8-10) [of ?k None "Some n"] cas Suc.prems(2) by auto
    then have "SledDedupeStore_loop tree fuel now ?k n t1 = None" using Suc by simp
    then show ?case
      using Suc.prems(2) cas r(1) assms(4)
      by (simp add: SledEngine_get_def laws(1) SledEngine_cas_def read_i64_def)
  qed simp
  then show ?thesis by (simp add: SledDedupeStore_check_and_record_def)
qed

lemma short_dedupe_record_diverges_witness:
  "SledDedupeStore_check_and_record alist_tree 1000 7 ''t'' ''m'' 5 [(dedupe_key ''t'' ''m'', [1])] = None"
  by (rule short_dedupe_record_diverges [OF alist_tree_ok, of _ "''t''" "''m''" "[1]"]) simp_all

end
