(* ===== verification/Log_Store.thy ===== *)
theory Log_Store
  imports Storage_Engine
begin

text \<open>
  The message log (\<open>rifts-storage/src/log.rs\<close>): the in-memory store, the store on a sled
  tree, and the contract both satisfy.  The JSON serialisation of log entries
  (\<open>serde_json\<close>) is a parameter; the stores rely on its round trip only.
\<close>

section \<open>The memory store\<close>

type_synonym MemoryLogStore = "(string, LogEntry list) hmap"

definition memory_retain :: "i64 \<Rightarrow> RetentionPolicy \<Rightarrow> LogEntry \<Rightarrow> LogEntry list \<Rightarrow> LogEntry list" where
  "memory_retain now retention entry g =
    (case retention of
       NoRetention \<Rightarrow> []
     | Count n \<Rightarrow> keep_newest n g
     | Size max_bytes \<Rightarrow> size_drain (payload_total g) max_bytes g
     | Ttl ttl \<Rightarrow> filter (\<lambda>e. wrap_i64 (now - le_timestamp e) \<le> wrap_i64 (int ttl)) g
     | Latest \<Rightarrow> filter (\<lambda>e. le_offset e = le_offset entry) g
     | Durable \<Rightarrow> g)"

definition MemoryLogStore_append ::
  "i64 \<Rightarrow> string \<Rightarrow> LogEntry \<Rightarrow> RetentionPolicy \<Rightarrow> MemoryLogStore \<Rightarrow> MemoryLogStore" where
  "MemoryLogStore_append now topic entry retention s =
    (let g = hm_get_or [] s topic @ [entry]
     in hm_put topic (memory_retain now retention entry g) s)"

definition MemoryLogStore_range :: "string \<Rightarrow> i64 \<Rightarrow> i64 \<Rightarrow> MemoryLogStore \<Rightarrow> LogEntry list" where
  "MemoryLogStore_range topic lo hi s =
    (case hm_get s topic of
       None \<Rightarrow> []
     | Some g \<Rightarrow> filter (\<lambda>e. lo \<le> le_offset e \<and> le_offset e \<le> hi) g)"

definition MemoryLogStore_latest :: "string \<Rightarrow> MemoryLogStore \<Rightarrow> LogEntry option" where
  "MemoryLogStore_latest topic s =
    (case hm_get s topic of None \<Rightarrow> None | Some g \<Rightarrow> if g = [] then None else Some (last g))"

definition MemoryLogStore_remove :: "string \<Rightarrow> MemoryLogStore \<Rightarrow> MemoryLogStore" where
  "MemoryLogStore_remove topic s = hm_del topic s"

section \<open>The sled store\<close>

text \<open>\<open>serde_json::to_vec\<close> and \<open>from_slice\<close> at the stored type; \<open>None\<close> is an error.\<close>

record 'a Serde =
  to_vec :: "'a \<Rightarrow> bytes option"
  from_slice :: "bytes \<Rightarrow> 'a option"

definition serde_ok :: "'a Serde \<Rightarrow> bool" where
  "serde_ok S \<longleftrightarrow> (\<forall>x v. to_vec S x = Some v \<longrightarrow> from_slice S v = Some x)"

definition delete_keys :: "'t SledTree \<Rightarrow> bytes list \<Rightarrow> 't \<Rightarrow> 't" where
  "delete_keys tree ks t = foldl (\<lambda>t k. snd (SledEngine_delete tree k t)) t ks"

definition log_ttl_expired :: "LogEntry Serde \<Rightarrow> i64 \<Rightarrow> nat \<Rightarrow> bytes \<Rightarrow> bool" where
  "log_ttl_expired S now ttl v =
    (case from_slice S v of
       Some e \<Rightarrow> wrap_i64 (int ttl)
          < wrap_i64 (now - (case le_appended_at e of None \<Rightarrow> le_timestamp e | Some a \<Rightarrow> a))
     | None \<Rightarrow> False)"

definition SledLogStore_append ::
  "'t SledTree \<Rightarrow> LogEntry Serde \<Rightarrow> i64 \<Rightarrow> string \<Rightarrow> LogEntry \<Rightarrow> RetentionPolicy \<Rightarrow> 't \<Rightarrow> 't" where
  "SledLogStore_append tree S now topic entry retention t =
    (let key = log_key topic (le_offset entry)
     in case to_vec S entry of
          None \<Rightarrow> t
        | Some val \<Rightarrow>
            let t = snd (SledEngine_put tree key val t);
                all = SledEngine_scan_prefix tree (log_prefix topic) t
            in case retention of
                 Count n \<Rightarrow>
                   if n < length all
                   then delete_keys tree (map fst (take (length all - n) all)) t else t
               | Ttl ttl \<Rightarrow>
                   delete_keys tree (map fst (filter (\<lambda>kv. log_ttl_expired S now ttl (snd kv)) all)) t
               | Latest \<Rightarrow> delete_keys tree (map fst (filter (\<lambda>kv. fst kv \<noteq> key) all)) t
               | NoRetention \<Rightarrow> delete_keys tree (map fst all) t
               | Size _ \<Rightarrow> t
               | Durable \<Rightarrow> t)"

definition sled_entries :: "'t SledTree \<Rightarrow> LogEntry Serde \<Rightarrow> 't \<Rightarrow> string \<Rightarrow> LogEntry list" where
  "sled_entries tree S t topic =
    List.map_filter (\<lambda>kv. from_slice S (snd kv)) (SledEngine_scan_prefix tree (log_prefix topic) t)"

definition SledLogStore_range ::
  "'t SledTree \<Rightarrow> LogEntry Serde \<Rightarrow> string \<Rightarrow> i64 \<Rightarrow> i64 \<Rightarrow> 't \<Rightarrow> LogEntry list" where
  "SledLogStore_range tree S topic lo hi t =
    filter (\<lambda>e. lo \<le> le_offset e \<and> le_offset e \<le> hi) (sled_entries tree S t topic)"

definition SledLogStore_latest ::
  "'t SledTree \<Rightarrow> LogEntry Serde \<Rightarrow> string \<Rightarrow> 't \<Rightarrow> LogEntry option" where
  "SledLogStore_latest tree S topic t =
    (let entries = sort_key le_offset (sled_entries tree S t topic)
     in if entries = [] then None else Some (last entries))"

definition SledLogStore_remove :: "'t SledTree \<Rightarrow> string \<Rightarrow> 't \<Rightarrow> 't" where
  "SledLogStore_remove tree topic t =
    delete_keys tree (map fst (SledEngine_scan_prefix tree (log_prefix topic) t)) t"

section \<open>The contract\<close>

text \<open>\<open>entries\<close> is the log of a topic, oldest first; \<open>retain\<close> what the store's retention
  keeps of it.  Offsets grow along a log, so an entry with a new highest offset is
  appended at the end.\<close>

definition fresh_entry :: "LogEntry \<Rightarrow> LogEntry list \<Rightarrow> bool" where
  "fresh_entry e log \<longleftrightarrow> 0 \<le> le_offset e \<and> le_offset e \<le> i64_max
    \<and> (\<forall>x \<in> set log. le_offset x < le_offset e)"

locale log_store =
  fixes app :: "i64 \<Rightarrow> string \<Rightarrow> LogEntry \<Rightarrow> RetentionPolicy \<Rightarrow> 's \<Rightarrow> 's"
    and range :: "string \<Rightarrow> i64 \<Rightarrow> i64 \<Rightarrow> 's \<Rightarrow> LogEntry list"
    and latest :: "string \<Rightarrow> 's \<Rightarrow> LogEntry option"
    and remove :: "string \<Rightarrow> 's \<Rightarrow> 's"
    and entries :: "'s \<Rightarrow> string \<Rightarrow> LogEntry list"
    and retain :: "i64 \<Rightarrow> RetentionPolicy \<Rightarrow> LogEntry \<Rightarrow> LogEntry list \<Rightarrow> LogEntry list"
    and sinv :: "'s \<Rightarrow> bool"
    and topic_ok :: "string \<Rightarrow> bool"
    and entry_ok :: "LogEntry \<Rightarrow> bool"
  assumes range_entries: "\<lbrakk>sinv s; topic_ok t\<rbrakk> \<Longrightarrow>
      range t lo hi s = filter (\<lambda>e. lo \<le> le_offset e \<and> le_offset e \<le> hi) (entries s t)"
    and latest_entries: "\<lbrakk>sinv s; topic_ok t\<rbrakk> \<Longrightarrow>
      latest t s = (if entries s t = [] then None else Some (last (entries s t)))"
    and append_entries: "\<lbrakk>sinv s; topic_ok t; entry_ok e; fresh_entry e (entries s t)\<rbrakk> \<Longrightarrow>
      sinv (app now t e r s) \<and>
      (\<forall>t'. topic_ok t' \<longrightarrow> entries (app now t e r s) t' =
         (if t' = t then retain now r e (entries s t @ [e]) else entries s t'))"
    and remove_entries: "\<lbrakk>sinv s; topic_ok t\<rbrakk> \<Longrightarrow>
      sinv (remove t s) \<and>
      (\<forall>t'. topic_ok t' \<longrightarrow> entries (remove t s) t' = (if t' = t then [] else entries s t'))"
    and retain_sub: "set (retain now r e log) \<subseteq> set log"

text \<open>A run of appends, each with its clock, topic and policy.\<close>

datatype log_op = AppendOp (ao_now: i64) (ao_topic: string) (ao_entry: LogEntry) (ao_retention: RetentionPolicy)

definition run_log ::
  "(i64 \<Rightarrow> string \<Rightarrow> LogEntry \<Rightarrow> RetentionPolicy \<Rightarrow> 's \<Rightarrow> 's) \<Rightarrow> log_op list \<Rightarrow> 's \<Rightarrow> 's" where
  "run_log app ops s =
    foldl (\<lambda>s op. app (ao_now op) (ao_topic op) (ao_entry op) (ao_retention op) s) s ops"

text \<open>The entries of one topic in a run, as the specification keeps them.\<close>

definition log_spec ::
  "(i64 \<Rightarrow> RetentionPolicy \<Rightarrow> LogEntry \<Rightarrow> LogEntry list \<Rightarrow> LogEntry list) \<Rightarrow> string \<Rightarrow> log_op list
    \<Rightarrow> LogEntry list \<Rightarrow> LogEntry list" where
  "log_spec retain t ops log =
    foldl (\<lambda>log op. if ao_topic op = t
        then retain (ao_now op) (ao_retention op) (ao_entry op) (log @ [ao_entry op]) else log) log ops"

text \<open>Offsets grow per topic along the run.\<close>

definition offsets_grow :: "log_op list \<Rightarrow> bool" where
  "offsets_grow ops \<longleftrightarrow> sorted_wrt (\<lambda>a b. ao_topic a = ao_topic b \<longrightarrow>
      le_offset (ao_entry a) < le_offset (ao_entry b)) ops
    \<and> (\<forall>op \<in> set ops. 0 \<le> le_offset (ao_entry op) \<and> le_offset (ao_entry op) \<le> i64_max)"

context log_store
begin

lemma run_entries:
  "\<lbrakk>sinv s; \<forall>op \<in> set ops. topic_ok (ao_topic op) \<and> entry_ok (ao_entry op); offsets_grow ops;
    \<forall>op \<in> set ops. \<forall>x \<in> set (entries s (ao_topic op)). le_offset x < le_offset (ao_entry op)\<rbrakk>
   \<Longrightarrow> sinv (run_log app ops s) \<and>
      (\<forall>t. topic_ok t \<longrightarrow> entries (run_log app ops s) t = log_spec retain t ops (entries s t))"
proof (induction ops arbitrary: s)
  case Nil
  then show ?case by (simp add: run_log_def log_spec_def)
next
  case (Cons op ops)
  obtain now t e r where op: "op = AppendOp now t e r" by (cases op)
  have t: "topic_ok t" "entry_ok e" and fresh: "fresh_entry e (entries s t)"
    using Cons.prems op by (auto simp: fresh_entry_def offsets_grow_def)
  let ?s = "app now t e r s"
  have inv: "sinv ?s" and ent: "\<And>t'. topic_ok t' \<Longrightarrow> entries ?s t' =
      (if t' = t then retain now r e (entries s t @ [e]) else entries s t')"
    using append_entries [OF Cons.prems(1) t fresh, of now r] by auto
  have "\<forall>op \<in> set ops. \<forall>x \<in> set (entries ?s (ao_topic op)). le_offset x < le_offset (ao_entry op)"
  proof (intro ballI)
    fix op' x
    assume o: "op' \<in> set ops" and x: "x \<in> set (entries ?s (ao_topic op'))"
    have ok: "topic_ok (ao_topic op')" using Cons.prems(2) o by simp
    show "le_offset x < le_offset (ao_entry op')"
    proof (cases "ao_topic op' = t")
      case True
      then have "x \<in> set (entries s t) \<or> x = e"
        using x ent [OF ok] retain_sub [of now r e "entries s t @ [e]"] by auto
      moreover have "le_offset e < le_offset (ao_entry op')"
        using Cons.prems(3) o True op by (auto simp: offsets_grow_def)
      ultimately show ?thesis using Cons.prems(4) o True by auto
    next
      case False
      then show ?thesis using x ent [OF ok] Cons.prems(4) o by auto
    qed
  qed
  moreover have "offsets_grow ops" using Cons.prems(3) by (simp add: offsets_grow_def)
  ultimately have ih: "sinv (run_log app ops ?s)"
    "\<And>t'. topic_ok t' \<Longrightarrow> entries (run_log app ops ?s) t' = log_spec retain t' ops (entries ?s t')"
    using Cons.IH [OF inv] Cons.prems(2) by auto
  have run: "run_log app (op # ops) s = run_log app ops ?s" by (simp add: run_log_def op)
  have spec: "log_spec retain t' (op # ops) (entries s t') = log_spec retain t' ops (entries ?s t')"
    if "topic_ok t'" for t'
    using ent [OF that] by (simp add: log_spec_def op)
  show ?case using ih spec by (simp add: run)
qed

end

section \<open>The memory store meets the contract\<close>

lemma keep_newest_sub: "set (keep_newest n xs) \<subseteq> set xs"
  by (auto simp: keep_newest_def dest: in_set_dropD)

lemma size_drain_sub: "set (size_drain left m xs) \<subseteq> set xs"
  by (induction xs arbitrary: left) auto

lemma memory_retain_sub: "set (memory_retain now r e g) \<subseteq> set g"
  by (cases r) (auto simp: memory_retain_def dest: subsetD [OF keep_newest_sub] subsetD [OF size_drain_sub])

interpretation mem_log: log_store MemoryLogStore_append MemoryLogStore_range MemoryLogStore_latest
  MemoryLogStore_remove "hm_get_or []" memory_retain hm_wf "\<lambda>_. True" "\<lambda>_. True"
  by unfold_locales
    (auto simp: MemoryLogStore_range_def MemoryLogStore_latest_def MemoryLogStore_append_def
      MemoryLogStore_remove_def hm_get_or_def Let_def split: option.split
      dest: subsetD [OF memory_retain_sub])

section \<open>The sled store meets the contract\<close>

text \<open>What a prefix scan returns is determined by the contents.\<close>

lemma scan_unique:
  fixes xs ys :: "(bytes \<times> 'a) list"
  assumes "sorted_wrt (<) (map fst xs)" "sorted_wrt (<) (map fst ys)" "set xs = set ys"
  shows "xs = ys"
proof -
  have d: "distinct (map fst xs)" "distinct (map fst ys)" using assms(1,2) strict_sorted_iff by blast+
  have len: "length xs = length ys"
    using d assms(3) by (metis distinct_card distinct_map)
  have keys: "map fst xs = map fst ys"
    using strict_sorted_equal [OF assms(1,2)] assms(3) by simp
  show ?thesis
  proof (rule nth_equalityI [OF len])
    fix i assume i: "i < length xs"
    have "fst (xs ! i) = fst (ys ! i)" using keys i len by (metis nth_map)
    moreover have "xs ! i \<in> set ys" "ys ! i \<in> set ys" using i len assms(3) nth_mem by metis+
    ultimately show "xs ! i = ys ! i"
      using d(2) by (metis eq_key_imp_eq_value prod.collapse)
  qed
qed

lemma sled_scan_eqI:
  assumes "sled_tree_ok tree contents tinv" "tinv t" "sorted_wrt (<) (map fst kvs)"
    and "set kvs = {(k, v). contents t k = Some v \<and> prefix p k}"
  shows "SledEngine_scan_prefix tree p t = kvs"
  using sled_scan [OF assms(1,2), of p] assms(3,4) by (auto intro: scan_unique)

lemma delete_keys_contents:
  assumes "sled_tree_ok tree contents tinv" "tinv t"
  shows "tinv (delete_keys tree ks t)" "contents (delete_keys tree ks t) = (contents t) |` (- set ks)"
  using storage_engine.delete_all [OF sled_storage_engine [OF assms(1)] assms(2), of ks]
  by (simp_all add: delete_keys_def SledEngine_ops_def)

lemma put_contents:
  assumes "sled_tree_ok tree contents tinv" "tinv t"
  shows "tinv (snd (SledEngine_put tree k v t))"
    "contents (snd (SledEngine_put tree k v t)) = (contents t)(k \<mapsto> v)"
  using storage_engine.put_contents [OF sled_storage_engine [OF assms(1)] assms(2), of k v]
  by (simp_all add: SledEngine_ops_def)

lemma delete_keys_scan:
  assumes "sled_tree_ok tree contents tinv" "tinv t"
  shows "SledEngine_scan_prefix tree p (delete_keys tree ks t)
    = filter (\<lambda>kv. fst kv \<notin> set ks) (SledEngine_scan_prefix tree p t)"
proof (rule sled_scan_eqI [OF assms(1) delete_keys_contents(1) [OF assms]])
  note scan = sled_scan [OF assms, of p]
  show "sorted_wrt (<) (map fst (filter (\<lambda>kv. fst kv \<notin> set ks) (SledEngine_scan_prefix tree p t)))"
    using scan by (simp add: sorted_wrt_map sorted_wrt_filter)
  show "set (filter (\<lambda>kv. fst kv \<notin> set ks) (SledEngine_scan_prefix tree p t)) =
      {(k, v). contents (delete_keys tree ks t) k = Some v \<and> prefix p k}"
    using scan by (auto simp: delete_keys_contents(2) [OF assms] restrict_map_def split: if_splits)
qed

lemma filter_not_taken:
  assumes "distinct (map fst xs)"
  shows "filter (\<lambda>kv. fst kv \<notin> set (map fst (take d xs))) xs = drop d xs"
proof -
  have "filter (\<lambda>kv. fst kv \<notin> fst ` set (take d xs)) (take d xs @ drop d xs) = drop d xs"
    using assms set_take_disj_set_drop_if_distinct [OF assms, of d d]
    unfolding filter_append by (auto simp: filter_empty_conv filter_id_conv take_map drop_map)
  then show ?thesis by simp
qed

text \<open>Every stored key of the topic space is the log key of the entry stored there.\<close>

definition sled_log_ok :: "LogEntry Serde \<Rightarrow> (bytes \<Rightarrow> bytes option) \<Rightarrow> bool" where
  "sled_log_ok S c \<longleftrightarrow> (\<forall>t k v. nul_free t \<longrightarrow> c k = Some v \<longrightarrow> prefix (log_prefix t) k \<longrightarrow>
    (\<exists>e. to_vec S e = Some v \<and> k = log_key t (le_offset e) \<and> 0 \<le> le_offset e \<and> le_offset e \<le> i64_max))"

lemma sled_log_ok_restrict: "sled_log_ok S c \<Longrightarrow> sled_log_ok S (c |` A)"
  unfolding sled_log_ok_def restrict_map_def by (metis option.distinct(1))

lemma log_prefix_same:
  assumes "nul_free t" "nul_free t'" "prefix (log_prefix t) k" "prefix (log_prefix t') k"
  shows "t = t'"
proof -
  obtain r where r: "k = as_bytes t @ [SEP] @ r"
    using assms(3) unfolding prefix_def log_prefix_def append_assoc by blast
  obtain s where "k = as_bytes t' @ [SEP] @ s"
    using assms(4) unfolding prefix_def log_prefix_def append_assoc by blast
  with r show ?thesis using topic_field_inj [OF assms(1,2), of r s] by simp
qed

lemma log_prefix_key: "prefix (log_prefix t) (log_key t off)"
  by (simp add: log_prefix_def log_key_def prefix_def)

text \<open>A topic's scan lists its entries with their keys.\<close>

definition log_kv :: "LogEntry Serde \<Rightarrow> string \<Rightarrow> LogEntry \<Rightarrow> bytes \<times> bytes" where
  "log_kv S topic e = (log_key topic (le_offset e), the (to_vec S e))"

definition stored_ok :: "LogEntry Serde \<Rightarrow> LogEntry \<Rightarrow> bool" where
  "stored_ok S e \<longleftrightarrow> to_vec S e \<noteq> None \<and> 0 \<le> le_offset e \<and> le_offset e \<le> i64_max"

lemma from_slice_kv: "serde_ok S \<Longrightarrow> stored_ok S e \<Longrightarrow> from_slice S (snd (log_kv S topic e)) = Some e"
  by (auto simp: serde_ok_def stored_ok_def log_kv_def)

lemma map_filter_kv:
  "serde_ok S \<Longrightarrow> \<forall>e \<in> set es. stored_ok S e \<Longrightarrow>
    List.map_filter (\<lambda>kv. from_slice S (snd kv)) (map (log_kv S topic) es) = es"
  by (induction es) (simp_all add: List.map_filter_simps from_slice_kv)

lemma sled_log_scan:
  assumes "sled_tree_ok tree contents tinv" "tinv t" "serde_ok S" "sled_log_ok S (contents t)" "nul_free topic"
  shows "SledEngine_scan_prefix tree (log_prefix topic) t = map (log_kv S topic) (sled_entries tree S t topic)
    \<and> (\<forall>e \<in> set (sled_entries tree S t topic). stored_ok S e)"
proof -
  let ?scan = "SledEngine_scan_prefix tree (log_prefix topic) t"
  have each: "\<exists>e. kv = log_kv S topic e \<and> stored_ok S e" if "kv \<in> set ?scan" for kv
  proof -
    have "contents t (fst kv) = Some (snd kv)" "prefix (log_prefix topic) (fst kv)"
      using that sled_scan [OF assms(1,2), of "log_prefix topic"] by auto
    then obtain e where "to_vec S e = Some (snd kv)" "fst kv = log_key topic (le_offset e)"
      "0 \<le> le_offset e" "le_offset e \<le> i64_max"
      using assms(4,5) unfolding sled_log_ok_def by blast
    then show ?thesis by (auto simp: log_kv_def stored_ok_def prod_eq_iff)
  qed
  have "\<exists>es. xs = map (log_kv S topic) es \<and> (\<forall>e \<in> set es. stored_ok S e)" if "set xs \<subseteq> set ?scan" for xs
    using that
  proof (induction xs)
    case (Cons kv xs)
    obtain e where e: "kv = log_kv S topic e" "stored_ok S e" using each [of kv] Cons.prems by auto
    obtain es where "xs = map (log_kv S topic) es" "\<forall>e \<in> set es. stored_ok S e" using Cons by auto
    with e have "kv # xs = map (log_kv S topic) (e # es) \<and> (\<forall>e \<in> set (e # es). stored_ok S e)" by simp
    then show ?case by (rule exI)
  qed simp
  then obtain es where es: "?scan = map (log_kv S topic) es" "\<forall>e \<in> set es. stored_ok S e" by blast
  then have "sled_entries tree S t topic = es"
    by (simp add: sled_entries_def map_filter_kv [OF assms(3)])
  with es show ?thesis by simp
qed

lemma sled_entries_sorted:
  assumes "sled_tree_ok tree contents tinv" "tinv t" "serde_ok S" "sled_log_ok S (contents t)" "nul_free topic"
  shows "sorted_wrt (\<lambda>a b. le_offset a < le_offset b) (sled_entries tree S t topic)"
proof -
  note scan = sled_log_scan [OF assms]
  have "sorted_wrt (\<lambda>a b. log_key topic (le_offset a) < log_key topic (le_offset b)) (sled_entries tree S t topic)"
    using sled_scan [OF assms(1,2), of "log_prefix topic"] scan
    by (simp add: sorted_wrt_map log_kv_def)
  then show ?thesis
    by (rule sorted_wrt_mono_rel [rotated]) (use scan log_key_less in \<open>auto simp: stored_ok_def\<close>)
qed

text \<open>The write of an entry with a new highest offset extends the scan at its end.\<close>

lemma put_log_scan:
  assumes "sled_tree_ok tree contents tinv" "tinv t" "serde_ok S" "sled_log_ok S (contents t)" "nul_free topic"
    and "to_vec S e = Some v" "fresh_entry e (sled_entries tree S t topic)"
  defines "t1 \<equiv> snd (SledEngine_put tree (log_key topic (le_offset e)) v t)"
  shows "SledEngine_scan_prefix tree (log_prefix topic) t1
    = map (log_kv S topic) (sled_entries tree S t topic @ [e])"
proof (rule sled_scan_eqI [OF assms(1)])
  let ?es = "sled_entries tree S t topic" and ?k = "log_key topic (le_offset e)"
  have c: "contents t1 = (contents t)(?k \<mapsto> v)" unfolding t1_def by (rule put_contents(2) [OF assms(1,2)])
  show "tinv t1" unfolding t1_def by (rule put_contents(1) [OF assms(1,2)])
  note scan = sled_log_scan [OF assms(1-5)] and raw = sled_scan [OF assms(1,2), of "log_prefix topic"]
  have less: "log_key topic (le_offset x) < ?k" if "x \<in> set ?es" for x
    using that assms(7) scan log_key_less [of "le_offset x" "le_offset e" topic]
    by (auto simp: fresh_entry_def stored_ok_def)
  show "sorted_wrt (<) (map fst (map (log_kv S topic) (?es @ [e])))"
    using raw scan less by (auto simp: sorted_wrt_append log_kv_def)
  have "?k \<notin> fst ` set (map (log_kv S topic) ?es)" using less by (force simp: log_kv_def)
  then have "(?k, w) \<notin> set (map (log_kv S topic) ?es)" for w by (metis fst_conv imageI)
  then have "(?k, w) \<notin> {(k, v). contents t k = Some v \<and> prefix (log_prefix topic) k}" for w
    using raw scan by simp
  then have new: "contents t ?k = None"
    using log_prefix_key [of topic "le_offset e"] by (cases "contents t ?k") auto
  have "set (map (log_kv S topic) (?es @ [e])) = insert (?k, v) (set (map (log_kv S topic) ?es))"
    using assms(6) by (auto simp: log_kv_def)
  also have "\<dots> = insert (?k, v) {(k, v). contents t k = Some v \<and> prefix (log_prefix topic) k}"
    using raw scan by simp
  also have "\<dots> = {(k, v). contents t1 k = Some v \<and> prefix (log_prefix topic) k}"
    using new log_prefix_key [of topic "le_offset e"] by (auto simp: c split: if_splits)
  finally show "set (map (log_kv S topic) (?es @ [e]))
      = {(k, v). contents t1 k = Some v \<and> prefix (log_prefix topic) k}" .
qed

text \<open>What the sled store's retention keeps: \<open>Size\<close> is not enforced, \<open>Ttl\<close> prefers the
  append time over the publisher's timestamp.\<close>

definition sled_retain :: "i64 \<Rightarrow> RetentionPolicy \<Rightarrow> LogEntry \<Rightarrow> LogEntry list \<Rightarrow> LogEntry list" where
  "sled_retain now retention entry g =
    (case retention of
       NoRetention \<Rightarrow> []
     | Count n \<Rightarrow> keep_newest n g
     | Size _ \<Rightarrow> g
     | Ttl ttl \<Rightarrow> filter (\<lambda>e. wrap_i64 (now - (case le_appended_at e of None \<Rightarrow> le_timestamp e | Some a \<Rightarrow> a))
                            \<le> wrap_i64 (int ttl)) g
     | Latest \<Rightarrow> filter (\<lambda>e. le_offset e = le_offset entry) g
     | Durable \<Rightarrow> g)"

lemma sled_retain_sub: "set (sled_retain now r e g) \<subseteq> set g"
  by (cases r) (auto simp: sled_retain_def dest: subsetD [OF keep_newest_sub])

text \<open>The keys the retention deletes from the scan.\<close>

definition log_victims ::
  "LogEntry Serde \<Rightarrow> i64 \<Rightarrow> RetentionPolicy \<Rightarrow> bytes \<Rightarrow> (bytes \<times> bytes) list \<Rightarrow> bytes list" where
  "log_victims S now retention key all =
    (case retention of
       Count n \<Rightarrow> if n < length all then map fst (take (length all - n) all) else []
     | Ttl ttl \<Rightarrow> map fst (filter (\<lambda>kv. log_ttl_expired S now ttl (snd kv)) all)
     | Latest \<Rightarrow> map fst (filter (\<lambda>kv. fst kv \<noteq> key) all)
     | NoRetention \<Rightarrow> map fst all
     | Size _ \<Rightarrow> []
     | Durable \<Rightarrow> [])"

lemma delete_keys_Nil [simp]: "delete_keys tree [] t = t"
  by (simp add: delete_keys_def)

lemma sled_append_victims:
  assumes "to_vec S entry = Some v" "key = log_key topic (le_offset entry)"
    and "t1 = snd (SledEngine_put tree key v t)"
  shows "SledLogStore_append tree S now topic entry retention t =
    delete_keys tree (log_victims S now retention key (SledEngine_scan_prefix tree (log_prefix topic) t1)) t1"
  using assms by (cases retention) (simp_all add: SledLogStore_append_def Let_def log_victims_def)

lemma log_victims_sub: "set (log_victims S now r key all) \<subseteq> fst ` set all"
  by (cases r) (auto simp: log_victims_def dest!: in_set_takeD)

lemma not_victims:
  assumes S: "serde_ok S" and es: "\<forall>x \<in> set es. stored_ok S x" "stored_ok S e"
    and d: "distinct (map fst (map (log_kv S topic) es))"
  shows "filter (\<lambda>kv. fst kv \<notin> set (log_victims S now r (log_key topic (le_offset e)) (map (log_kv S topic) es)))
      (map (log_kv S topic) es) = map (log_kv S topic) (sled_retain now r e es)"
proof -
  let ?m = "map (log_kv S topic) es"
  have keep: "filter (\<lambda>kv. fst kv \<notin> set (map fst (filter P ?m))) ?m = filter (\<lambda>kv. \<not> P kv) ?m" for P
    using hm_del_all_filter_keys [OF d, of P] by (simp add: hm_del_all_filter)
  show ?thesis
  proof (cases r)
    case (Count n)
    then show ?thesis
      using filter_not_taken [OF d, of "length es - n"]
      by (simp add: log_victims_def sled_retain_def keep_newest_def drop_map)
  next
    case (Ttl ttl)
    have "filter (\<lambda>kv. \<not> log_ttl_expired S now ttl (snd kv)) ?m = map (log_kv S topic) (sled_retain now r e es)"
      unfolding filter_map using es(1) Ttl
      by (auto simp: sled_retain_def log_ttl_expired_def from_slice_kv [OF S] intro!: arg_cong [of _ _ "map _"] filter_cong)
    then show ?thesis
      using keep [of "\<lambda>kv. log_ttl_expired S now ttl (snd kv)"] Ttl by (simp add: log_victims_def)
  next
    case Latest
    have "fst (log_kv S topic x) = log_key topic (le_offset e) \<longleftrightarrow> le_offset x = le_offset e" if "x \<in> set es" for x
      using es that log_key_eq_iff [of "le_offset x" "le_offset e" topic] by (auto simp: log_kv_def stored_ok_def)
    then have "filter (\<lambda>kv. \<not> fst kv \<noteq> log_key topic (le_offset e)) ?m = map (log_kv S topic) (sled_retain now r e es)"
      unfolding filter_map using Latest
      by (auto simp: sled_retain_def intro!: arg_cong [of _ _ "map _"] filter_cong)
    then show ?thesis
      using keep [of "\<lambda>kv. fst kv \<noteq> log_key topic (le_offset e)"] Latest by (simp add: log_victims_def)
  next
    case NoRetention
    then show ?thesis using keep [of "\<lambda>_. True"] by (simp add: log_victims_def sled_retain_def)
  qed (simp_all add: log_victims_def sled_retain_def)
qed

lemma put_other_scan:
  assumes "sled_tree_ok tree contents tinv" "tinv t" "nul_free topic" "nul_free topic'" "topic' \<noteq> topic"
    and "prefix (log_prefix topic) key"
  shows "SledEngine_scan_prefix tree (log_prefix topic') (snd (SledEngine_put tree key v t))
    = SledEngine_scan_prefix tree (log_prefix topic') t"
proof (rule sled_scan_eqI [OF assms(1) put_contents(1) [OF assms(1,2)]])
  note raw = sled_scan [OF assms(1,2), of "log_prefix topic'"]
  show "sorted_wrt (<) (map fst (SledEngine_scan_prefix tree (log_prefix topic') t))" using raw by simp
  have "\<not> prefix (log_prefix topic') key"
    using log_prefix_same [OF assms(3,4,6)] assms(5) by blast
  then show "set (SledEngine_scan_prefix tree (log_prefix topic') t) =
      {(k, w). contents (snd (SledEngine_put tree key v t)) k = Some w \<and> prefix (log_prefix topic') k}"
    using raw by (auto simp: put_contents(2) [OF assms(1,2)] split: if_splits)
qed

lemma put_log_ok:
  assumes "sled_log_ok S c" "nul_free topic" "to_vec S e = Some v" "0 \<le> le_offset e" "le_offset e \<le> i64_max"
  shows "sled_log_ok S (c(log_key topic (le_offset e) \<mapsto> v))"
  unfolding sled_log_ok_def
proof (intro allI impI)
  fix t k w
  assume t: "nul_free t" and k: "(c(log_key topic (le_offset e) \<mapsto> v)) k = Some w" "prefix (log_prefix t) k"
  show "\<exists>e. to_vec S e = Some w \<and> k = log_key t (le_offset e) \<and> 0 \<le> le_offset e \<and> le_offset e \<le> i64_max"
  proof (cases "k = log_key topic (le_offset e)")
    case True
    then have "t = topic" using log_prefix_same [OF t assms(2) k(2)] log_prefix_key by simp
    then show ?thesis using True k(1) assms(3-5) by auto
  next
    case False
    then show ?thesis using k t assms(1) unfolding sled_log_ok_def by auto
  qed
qed

lemma delete_other_scan:
  assumes "sled_tree_ok tree contents tinv" "tinv t" "nul_free topic" "nul_free topic'" "topic' \<noteq> topic"
    and "\<forall>k \<in> set ks. prefix (log_prefix topic) k"
  shows "SledEngine_scan_prefix tree (log_prefix topic') (delete_keys tree ks t)
    = SledEngine_scan_prefix tree (log_prefix topic') t"
  unfolding delete_keys_scan [OF assms(1,2)] filter_id_conv
proof
  fix kv assume "kv \<in> set (SledEngine_scan_prefix tree (log_prefix topic') t)"
  then have "prefix (log_prefix topic') (fst kv)" using sled_scan [OF assms(1,2), of "log_prefix topic'"] by auto
  then show "fst kv \<notin> set ks" using assms(5,6) log_prefix_same [OF assms(3,4)] by blast
qed

lemma sled_append_entries:
  assumes tree: "sled_tree_ok tree contents tinv" and t: "tinv t" and S: "serde_ok S"
    and ok: "sled_log_ok S (contents t)" and topic: "nul_free topic"
    and e: "to_vec S e \<noteq> None" "fresh_entry e (sled_entries tree S t topic)"
    and t'_def: "t' = SledLogStore_append tree S now topic e r t"
  shows "tinv t' \<and> sled_log_ok S (contents t') \<and>
    (\<forall>u. nul_free u \<longrightarrow> sled_entries tree S t' u =
      (if u = topic then sled_retain now r e (sled_entries tree S t topic @ [e]) else sled_entries tree S t u))"
proof -
  obtain v where v: "to_vec S e = Some v" using e(1) by auto
  let ?k = "log_key topic (le_offset e)" and ?es = "sled_entries tree S t topic"
  define t1 where "t1 = snd (SledEngine_put tree ?k v t)"
  define vs where "vs = log_victims S now r ?k (map (log_kv S topic) (?es @ [e]))"
  have t1: "tinv t1" "contents t1 = (contents t)(?k \<mapsto> v)"
    unfolding t1_def using put_contents [OF tree t] by auto
  have scan1: "SledEngine_scan_prefix tree (log_prefix topic) t1 = map (log_kv S topic) (?es @ [e])"
    unfolding t1_def by (rule put_log_scan [OF tree t S ok topic v e(2)])
  have t': "t' = delete_keys tree vs t1"
    unfolding t'_def vs_def using sled_append_victims [OF v refl t1_def] scan1 by simp
  have off: "0 \<le> le_offset e" "le_offset e \<le> i64_max" using e(2) by (auto simp: fresh_entry_def)
  have st: "\<forall>x \<in> set (?es @ [e]). stored_ok S x"
    using sled_log_scan [OF tree t S ok topic] off v by (auto simp: stored_ok_def)
  have ok1: "sled_log_ok S (contents t1)" unfolding t1(2) by (rule put_log_ok [OF ok topic v off])
  have "distinct (map fst (map (log_kv S topic) (?es @ [e])))"
    using sled_scan [OF tree t1(1), of "log_prefix topic"] scan1 strict_sorted_iff by metis
  from not_victims [OF S st _ this, of e now r] st
  have scan': "SledEngine_scan_prefix tree (log_prefix topic) t'
      = map (log_kv S topic) (sled_retain now r e (?es @ [e]))"
    unfolding t' delete_keys_scan [OF tree t1(1)] scan1 vs_def by simp
  have "\<forall>x \<in> set (sled_retain now r e (?es @ [e])). stored_ok S x"
    using st sled_retain_sub [of now r e "?es @ [e]"] by blast
  then have own: "sled_entries tree S t' topic = sled_retain now r e (?es @ [e])"
    unfolding sled_entries_def [of tree S t'] scan' by (rule map_filter_kv [OF S])
  have vp: "\<forall>k \<in> set vs. prefix (log_prefix topic) k"
    using log_victims_sub [of S now r ?k "map (log_kv S topic) (?es @ [e])"] log_prefix_key
    by (auto simp: vs_def log_kv_def)
  have other: "sled_entries tree S t' u = sled_entries tree S t u" if "nul_free u" "u \<noteq> topic" for u
    unfolding sled_entries_def t' delete_other_scan [OF tree t1(1) topic that vp]
    by (simp add: t1_def put_other_scan [OF tree t topic that log_prefix_key])
  show ?thesis
    using own other delete_keys_contents [OF tree t1(1), of vs] sled_log_ok_restrict [OF ok1]
    by (simp add: t')
qed

lemma sled_log_store:
  assumes "sled_tree_ok tree contents tinv" "serde_ok S"
  shows "log_store (SledLogStore_append tree S) (SledLogStore_range tree S) (SledLogStore_latest tree S)
    (SledLogStore_remove tree) (sled_entries tree S) sled_retain
    (\<lambda>t. tinv t \<and> sled_log_ok S (contents t)) nul_free (\<lambda>e. to_vec S e \<noteq> None)"
proof
  fix s t e now r lo hi
  assume s: "tinv s \<and> sled_log_ok S (contents s)" and t: "nul_free t"
  show "SledLogStore_range tree S t lo hi s = filter (\<lambda>e. lo \<le> le_offset e \<and> le_offset e \<le> hi) (sled_entries tree S s t)"
    by (simp add: SledLogStore_range_def)
  have "sorted (map le_offset (sled_entries tree S s t))"
    using sled_entries_sorted [OF assms(1) _ assms(2) _ t, of s] s
    by (auto simp: sorted_wrt_map intro: sorted_wrt_mono_rel [rotated])
  then show "SledLogStore_latest tree S t s =
      (if sled_entries tree S s t = [] then None else Some (last (sled_entries tree S s t)))"
    by (simp add: SledLogStore_latest_def Let_def sort_key_id_if_sorted)
  show "(tinv (SledLogStore_append tree S now t e r s) \<and> sled_log_ok S (contents (SledLogStore_append tree S now t e r s))) \<and>
      (\<forall>t'. nul_free t' \<longrightarrow> sled_entries tree S (SledLogStore_append tree S now t e r s) t' =
        (if t' = t then sled_retain now r e (sled_entries tree S s t @ [e]) else sled_entries tree S s t'))"
    if "to_vec S e \<noteq> None" "fresh_entry e (sled_entries tree S s t)"
    using sled_append_entries [OF assms(1) conjunct1 [OF s] assms(2) conjunct2 [OF s] t that refl, of now r] by simp
  let ?ks = "map fst (SledEngine_scan_prefix tree (log_prefix t) s)"
  have vp: "\<forall>k \<in> set ?ks. prefix (log_prefix t) k"
    using sled_scan [OF assms(1) conjunct1 [OF s], of "log_prefix t"] by auto
  have "sled_entries tree S (delete_keys tree ?ks s) t = []"
    unfolding sled_entries_def delete_keys_scan [OF assms(1) conjunct1 [OF s]]
    by (subst filter_False) (auto simp: List.map_filter_simps)
  moreover have "sled_entries tree S (delete_keys tree ?ks s) t' = sled_entries tree S s t'"
    if "nul_free t'" "t' \<noteq> t" for t'
    unfolding sled_entries_def delete_other_scan [OF assms(1) conjunct1 [OF s] t that vp] ..
  ultimately show "(tinv (SledLogStore_remove tree t s) \<and> sled_log_ok S (contents (SledLogStore_remove tree t s))) \<and>
      (\<forall>t'. nul_free t' \<longrightarrow> sled_entries tree S (SledLogStore_remove tree t s) t' =
        (if t' = t then [] else sled_entries tree S s t'))"
    using delete_keys_contents [OF assms(1) conjunct1 [OF s], of ?ks] s sled_log_ok_restrict
    by (simp add: SledLogStore_remove_def)
qed (rule sled_retain_sub)

text \<open>A serialiser for entries that differ in their offsets only.\<close>

definition offset_entry :: "i64 \<Rightarrow> LogEntry" where
  "offset_entry off = \<lparr> le_offset = off, le_publisher_session = None, le_message_id = ''m'',
     le_class = ''event'', le_event = None, le_payload = [1, 2, 3], le_timestamp = 5, le_appended_at = None \<rparr>"

definition offset_serde :: "LogEntry Serde" where
  "offset_serde = \<lparr>
     to_vec = (\<lambda>e. if e = offset_entry (le_offset e) \<and> i64_ok (le_offset e)
                  then Some (i64_be_bytes (le_offset e)) else None),
     from_slice = (\<lambda>v. Some (offset_entry (i64_from_be v))) \<rparr>"

lemma offset_serde_ok: "serde_ok offset_serde"
  by (auto simp: serde_ok_def offset_serde_def i64_from_be_bytes split: if_splits)

interpretation alist_log: log_store "SledLogStore_append alist_tree offset_serde"
  "SledLogStore_range alist_tree offset_serde" "SledLogStore_latest alist_tree offset_serde"
  "SledLogStore_remove alist_tree" "sled_entries alist_tree offset_serde" sled_retain
  "\<lambda>t. hm_wf t \<and> sled_log_ok offset_serde (hm_get t)" nul_free "\<lambda>e. to_vec offset_serde e \<noteq> None"
  by (rule sled_log_store [OF alist_tree_ok offset_serde_ok])

lemma log_spec_durable:
  "(\<And>now e g. retain now Durable e g = g) \<Longrightarrow>
   \<forall>op \<in> set ops. ao_topic op = t \<longrightarrow> ao_retention op = Durable \<Longrightarrow>
   log_spec retain t ops log = log @ map ao_entry (filter (\<lambda>op. ao_topic op = t) ops)"
  by (induction ops arbitrary: log) (auto simp: log_spec_def)

lemma log_spec_agree:
  "\<lbrakk>\<forall>op \<in> set ops. le_appended_at (ao_entry op) = None \<and> (\<forall>m. ao_retention op \<noteq> Size m);
    \<forall>x \<in> set log. le_appended_at x = None\<rbrakk>
   \<Longrightarrow> log_spec sled_retain t ops log = log_spec memory_retain t ops log"
proof (induction ops arbitrary: log)
  case (Cons op ops)
  let ?new = "if ao_topic op = t
    then memory_retain (ao_now op) (ao_retention op) (ao_entry op) (log @ [ao_entry op]) else log"
  have "sled_retain (ao_now op) (ao_retention op) (ao_entry op) (log @ [ao_entry op])
      = memory_retain (ao_now op) (ao_retention op) (ao_entry op) (log @ [ao_entry op])"
    using Cons.prems by (cases "ao_retention op") (auto simp: sled_retain_def memory_retain_def intro!: filter_cong)
  then have "log_spec sled_retain t (op # ops) log = log_spec sled_retain t ops ?new"
    by (simp add: log_spec_def)
  also have "\<dots> = log_spec memory_retain t ops ?new"
    using Cons.prems memory_retain_sub [of "ao_now op" "ao_retention op" "ao_entry op" "log @ [ao_entry op]"]
    by (intro Cons.IH) auto
  finally show ?case by (simp add: log_spec_def)
qed (simp add: log_spec_def)

section \<open>Properties\<close>

text \<open>Replay from the memory log is exact: after any run of appends with offsets growing
  per topic, on topics with durable retention a range query returns exactly the
  published entries of that topic with offsets in the closed interval, in
  publication order, and the latest entry is the last one published; appends to
  other topics, under any policy, do not show.\<close>

theorem memory_log_replay_exact:
  assumes "offsets_grow ops" and "\<forall>op \<in> set ops. ao_topic op = topic \<longrightarrow> ao_retention op = Durable"
  defines "published \<equiv> map ao_entry (filter (\<lambda>op. ao_topic op = topic) ops)"
  shows "MemoryLogStore_range topic lo hi (run_log MemoryLogStore_append ops [])
      = filter (\<lambda>e. lo \<le> le_offset e \<and> le_offset e \<le> hi) published
    \<and> MemoryLogStore_latest topic (run_log MemoryLogStore_append ops [])
      = (if published = [] then None else Some (last published))"
proof -
  have "hm_wf (run_log MemoryLogStore_append ops []) \<and>
      (\<forall>t. True \<longrightarrow> hm_get_or [] (run_log MemoryLogStore_append ops []) t
        = log_spec memory_retain t ops (hm_get_or [] [] t))"
    by (rule mem_log.run_entries) (use assms(1) in \<open>simp_all add: hm_get_or_def\<close>)
  moreover have "log_spec memory_retain topic ops (hm_get_or [] [] topic) = published"
    using assms(2) by (subst log_spec_durable) (simp_all add: memory_retain_def hm_get_or_def published_def)
  ultimately show ?thesis by (simp add: mem_log.range_entries mem_log.latest_entries)
qed

theorem memory_log_replay_exact_witness:
  "MemoryLogStore_range ''t'' 2 9 (run_log MemoryLogStore_append
      [AppendOp 1 ''t'' (offset_entry 1) Durable, AppendOp 2 ''u'' (offset_entry 1) Latest,
       AppendOp 3 ''t'' (offset_entry 2) Durable] []) = [offset_entry 2]"
  using memory_log_replay_exact [of "[AppendOp 1 ''t'' (offset_entry 1) Durable,
      AppendOp 2 ''u'' (offset_entry 1) Latest, AppendOp 3 ''t'' (offset_entry 2) Durable]" "''t''" 2 9]
  by (simp add: offsets_grow_def offset_entry_def i64_max_def)



text \<open>The sled log does not enforce \<open>Size\<close> retention: an append under \<open>Size\<close> keeps every
  entry of the topic, whatever the limit.\<close>

lemma sled_log_ignores_size:
  assumes "sled_tree_ok tree contents tinv" "tinv t" "serde_ok S" "sled_log_ok S (contents t)" "nul_free topic"
    and "to_vec S e \<noteq> None" "fresh_entry e (sled_entries tree S t topic)"
  shows "sled_entries tree S (SledLogStore_append tree S now topic e (Size max_bytes) t) topic
    = sled_entries tree S t topic @ [e]"
  using sled_append_entries [OF assms refl, of now "Size max_bytes"] assms(5) by (simp add: sled_retain_def)

lemma sled_log_ignores_size_witness:
  "sled_entries alist_tree offset_serde
      (SledLogStore_append alist_tree offset_serde 7 ''t'' (offset_entry 1) (Size 0) []) ''t''
    = sled_entries alist_tree offset_serde [] ''t'' @ [offset_entry 1]"
  by (rule sled_log_ignores_size [OF alist_tree_ok _ offset_serde_ok])
     (simp_all add: sled_log_ok_def nul_free_def offset_serde_def offset_entry_def i64_defs fresh_entry_def
       sled_entries_def SledEngine_scan_prefix_def alist_tree_def List.map_filter_simps)

end
