(* ===== verification/Snapshot_Store.thy ===== *)
theory Snapshot_Store
  imports Log_Store
begin

text \<open>
  Topic snapshots (\<open>rifts-storage/src/snapshot.rs\<close>): capture of a topic's latest entry, the
  in-memory store and the store on a sled tree, and their contract: \<open>get\<close> returns the
  last captured snapshot until it expires.
\<close>

record StoredSnapshot =
  ss_snapshot_id :: string
  ss_topic :: string
  ss_base_offset :: i64
  ss_payload :: bytes
  ss_created_at :: i64
  ss_expires_at :: "i64 option"

text \<open>The part \<open>capture\<close> shares between the stores: what is stored for the topic's latest
  entry.\<close>

definition take_snapshot :: "i64 \<Rightarrow> string \<Rightarrow> TopicStore \<Rightarrow> nat option \<Rightarrow> StoredSnapshot option" where
  "take_snapshot now topic store ttl =
    (case TopicStore_get topic store of
       None \<Rightarrow> None
     | Some entry \<Rightarrow> (case TopicEntry_snapshot entry of
         None \<Rightarrow> None
       | Some snap \<Rightarrow> Some
          \<lparr> ss_snapshot_id = ''snap-'' @ dec_int (le_offset snap), ss_topic = topic,
            ss_base_offset = le_offset snap, ss_payload = le_payload snap, ss_created_at = now,
            ss_expires_at = map_option (\<lambda>t. wrap_i64 (now + wrap_i64 (int t))) ttl \<rparr>))"

definition snapshot_expired :: "i64 \<Rightarrow> StoredSnapshot \<Rightarrow> bool" where
  "snapshot_expired now s = (case ss_expires_at s of Some expires \<Rightarrow> expires < now | None \<Rightarrow> False)"

section \<open>The memory store\<close>

type_synonym MemorySnapshotStore = "(string, StoredSnapshot) hmap"

definition MemorySnapshotStore_capture ::
  "i64 \<Rightarrow> string \<Rightarrow> TopicStore \<Rightarrow> nat option \<Rightarrow> MemorySnapshotStore
    \<Rightarrow> StoredSnapshot option \<times> MemorySnapshotStore" where
  "MemorySnapshotStore_capture now topic store ttl s =
    (case take_snapshot now topic store ttl of
       None \<Rightarrow> (None, s)
     | Some stored \<Rightarrow> (Some stored, hm_put topic stored s))"

definition MemorySnapshotStore_get :: "i64 \<Rightarrow> string \<Rightarrow> MemorySnapshotStore \<Rightarrow> StoredSnapshot option" where
  "MemorySnapshotStore_get now topic s =
    (case hm_get s topic of
       None \<Rightarrow> None
     | Some snap \<Rightarrow> if snapshot_expired now snap then None else Some snap)"

definition MemorySnapshotStore_remove :: "string \<Rightarrow> MemorySnapshotStore \<Rightarrow> MemorySnapshotStore" where
  "MemorySnapshotStore_remove topic s = hm_del topic s"

definition MemorySnapshotStore_list :: "MemorySnapshotStore \<Rightarrow> StoredSnapshot list" where
  "MemorySnapshotStore_list s = map snd s"

section \<open>The sled store\<close>

definition SledSnapshotStore_capture ::
  "'t SledTree \<Rightarrow> StoredSnapshot Serde \<Rightarrow> i64 \<Rightarrow> string \<Rightarrow> TopicStore \<Rightarrow> nat option \<Rightarrow> 't
    \<Rightarrow> StoredSnapshot option \<times> 't" where
  "SledSnapshotStore_capture tree S now topic store ttl t =
    (case take_snapshot now topic store ttl of
       None \<Rightarrow> (None, t)
     | Some stored \<Rightarrow>
        let key = snapshot_key topic (ss_snapshot_id stored)
        in case to_vec S stored of
             None \<Rightarrow> (None, t)
           | Some val \<Rightarrow>
               let t1 = snd (SledEngine_put tree key val t);
                   all = SledEngine_scan_prefix tree (snapshot_prefix topic) t1
               in (Some stored, delete_keys tree (map fst (filter (\<lambda>kv. fst kv \<noteq> key) all)) t1))"

text \<open>The loop of \<open>get\<close> over the scan, keeping the newest snapshot that has not expired.\<close>

definition newer_snapshot ::
  "StoredSnapshot Serde \<Rightarrow> i64 \<Rightarrow> StoredSnapshot option \<Rightarrow> bytes \<times> bytes \<Rightarrow> StoredSnapshot option" where
  "newer_snapshot S now latest kv =
    (case from_slice S (snd kv) of
       None \<Rightarrow> latest
     | Some s \<Rightarrow> if snapshot_expired now s then latest
                else case latest of
                       None \<Rightarrow> Some s
                     | Some prev \<Rightarrow> if ss_created_at prev < ss_created_at s then Some s else latest)"

definition SledSnapshotStore_get ::
  "'t SledTree \<Rightarrow> StoredSnapshot Serde \<Rightarrow> i64 \<Rightarrow> string \<Rightarrow> 't \<Rightarrow> StoredSnapshot option" where
  "SledSnapshotStore_get tree S now topic t =
    foldl (newer_snapshot S now) None (SledEngine_scan_prefix tree (snapshot_prefix topic) t)"

definition SledSnapshotStore_remove :: "'t SledTree \<Rightarrow> string \<Rightarrow> 't \<Rightarrow> 't" where
  "SledSnapshotStore_remove tree topic t =
    delete_keys tree (map fst (SledEngine_scan_prefix tree (snapshot_prefix topic) t)) t"

definition SledSnapshotStore_list :: "'t SledTree \<Rightarrow> StoredSnapshot Serde \<Rightarrow> 't \<Rightarrow> StoredSnapshot list" where
  "SledSnapshotStore_list tree S t =
    List.map_filter (\<lambda>kv. from_slice S (snd kv)) (SledEngine_scan_prefix tree [] t)"

section \<open>The contract\<close>

locale snapshot_store =
  fixes capture :: "i64 \<Rightarrow> string \<Rightarrow> TopicStore \<Rightarrow> nat option \<Rightarrow> 's \<Rightarrow> StoredSnapshot option \<times> 's"
    and get :: "i64 \<Rightarrow> string \<Rightarrow> 's \<Rightarrow> StoredSnapshot option"
    and remove :: "string \<Rightarrow> 's \<Rightarrow> 's"
    and current :: "'s \<Rightarrow> string \<Rightarrow> StoredSnapshot option"
    and sinv :: "'s \<Rightarrow> bool"
    and topic_ok :: "string \<Rightarrow> bool"
  assumes get_current: "\<lbrakk>sinv s; topic_ok t\<rbrakk> \<Longrightarrow>
      get now t s = (case current s t of None \<Rightarrow> None
                     | Some x \<Rightarrow> if snapshot_expired now x then None else Some x)"
    and capture_current: "\<lbrakk>sinv s; topic_ok t\<rbrakk> \<Longrightarrow> sinv (snd (capture now t store ttl s))
      \<and> (\<forall>t'. topic_ok t' \<longrightarrow> current (snd (capture now t store ttl s)) t' =
           (if t' = t \<and> fst (capture now t store ttl s) \<noteq> None
            then fst (capture now t store ttl s) else current s t'))"
    and capture_result: "\<lbrakk>sinv s; topic_ok t; fst (capture now t store ttl s) = Some x\<rbrakk>
      \<Longrightarrow> take_snapshot now t store ttl = Some x"
    and remove_current: "\<lbrakk>sinv s; topic_ok t\<rbrakk> \<Longrightarrow> sinv (remove t s)
      \<and> (\<forall>t'. topic_ok t' \<longrightarrow> current (remove t s) t' = (if t' = t then None else current s t'))"
begin

text \<open>A captured snapshot is read back until its time to live has passed.\<close>

lemma captured_until_expiry:
  assumes "sinv s" "topic_ok t" "capture now t store ttl s = (Some x, s')"
  shows "get n t s' = (case ttl of None \<Rightarrow> Some x
      | Some d \<Rightarrow> if n \<le> wrap_i64 (now + wrap_i64 (int d)) then Some x else None)"
    and "topic_ok t' \<Longrightarrow> t' \<noteq> t \<Longrightarrow> get n t' s' = get n t' s"
proof -
  have inv: "sinv s'" and cur: "\<And>t'. topic_ok t' \<Longrightarrow> current s' t' = (if t' = t then Some x else current s t')"
    using capture_current [OF assms(1,2), of now store ttl] assms(3) by auto
  have "take_snapshot now t store ttl = Some x"
    using capture_result [OF assms(1,2), of now store ttl x] assms(3) by simp
  then have "ss_expires_at x = map_option (\<lambda>t. wrap_i64 (now + wrap_i64 (int t))) ttl"
    by (auto simp: take_snapshot_def split: option.splits)
  then show "get n t s' = (case ttl of None \<Rightarrow> Some x
      | Some d \<Rightarrow> if n \<le> wrap_i64 (now + wrap_i64 (int d)) then Some x else None)"
    using get_current [OF inv assms(2), of n] cur [OF assms(2)]
    by (auto simp: snapshot_expired_def split: option.split)
  show "get n t' s' = get n t' s" if "topic_ok t'" "t' \<noteq> t"
    using get_current [OF inv that(1)] get_current [OF assms(1) that(1)] cur [OF that(1)] that(2) by simp
qed

end

interpretation mem_snapshots: snapshot_store MemorySnapshotStore_capture MemorySnapshotStore_get
  MemorySnapshotStore_remove hm_get hm_wf "\<lambda>_. True"
  by unfold_locales
    (auto simp: MemorySnapshotStore_capture_def MemorySnapshotStore_get_def MemorySnapshotStore_remove_def
      split: option.split option.split_asm)

section \<open>The sled store meets the contract\<close>

lemma snapshot_prefix_eq: "snapshot_prefix = log_prefix"
  by (simp add: fun_eq_iff snapshot_prefix_def log_prefix_def)

lemma snapshot_key_prefix: "prefix (log_prefix t) (snapshot_key t i)"
  by (simp add: log_prefix_def snapshot_key_def prefix_def)

definition topic_scan :: "'t SledTree \<Rightarrow> 't \<Rightarrow> string \<Rightarrow> (bytes \<times> bytes) list" where
  "topic_scan tree t topic = SledEngine_scan_prefix tree (log_prefix topic) t"

definition sled_current :: "'t SledTree \<Rightarrow> StoredSnapshot Serde \<Rightarrow> 't \<Rightarrow> string \<Rightarrow> StoredSnapshot option" where
  "sled_current tree S t topic =
    (case topic_scan tree t topic of [] \<Rightarrow> None | kv # _ \<Rightarrow> from_slice S (snd kv))"

text \<open>At most one snapshot is stored per topic, and it deserialises.\<close>

definition snapshots_ok :: "'t SledTree \<Rightarrow> StoredSnapshot Serde \<Rightarrow> 't \<Rightarrow> bool" where
  "snapshots_ok tree S t \<longleftrightarrow> (\<forall>topic. nul_free topic \<longrightarrow>
    topic_scan tree t topic = [] \<or>
    (\<exists>k v x. topic_scan tree t topic = [(k, v)] \<and> from_slice S v = Some x))"

lemma sled_get_current:
  assumes "snapshots_ok tree S t" "nul_free topic"
  shows "SledSnapshotStore_get tree S now topic t = (case sled_current tree S t topic of None \<Rightarrow> None
    | Some x \<Rightarrow> if snapshot_expired now x then None else Some x)"
proof -
  consider "topic_scan tree t topic = []"
    | k v x where "topic_scan tree t topic = [(k, v)]" "from_slice S v = Some x"
    using assms unfolding snapshots_ok_def by blast
  then show ?thesis
    by cases (simp_all add: SledSnapshotStore_get_def snapshot_prefix_eq sled_current_def topic_scan_def
        newer_snapshot_def)
qed

lemma sled_capture_some:
  assumes "sled_tree_ok tree contents tinv" "tinv t" "nul_free topic"
    and "take_snapshot now topic store ttl = Some x" "to_vec S x = Some v"
  shows "\<exists>t'. SledSnapshotStore_capture tree S now topic store ttl t = (Some x, t') \<and> tinv t'
    \<and> topic_scan tree t' topic = [(snapshot_key topic (ss_snapshot_id x), v)]
    \<and> (\<forall>u. nul_free u \<longrightarrow> u \<noteq> topic \<longrightarrow> topic_scan tree t' u = topic_scan tree t u)"
proof -
  let ?k = "snapshot_key topic (ss_snapshot_id x)"
  define t1 where "t1 = snd (SledEngine_put tree ?k v t)"
  define ks where "ks = map fst (filter (\<lambda>kv. fst kv \<noteq> ?k) (SledEngine_scan_prefix tree (log_prefix topic) t1))"
  have t1: "tinv t1" "contents t1 = (contents t)(?k \<mapsto> v)"
    unfolding t1_def using put_contents [OF assms(1,2)] by auto
  note raw = sled_scan [OF assms(1) t1(1), of "log_prefix topic"]
  have kp: "\<forall>k \<in> set ks. prefix (log_prefix topic) k" using raw by (auto simp: ks_def)
  have "SledEngine_scan_prefix tree (log_prefix topic) (delete_keys tree ks t1) = [(?k, v)]"
    by (rule sled_scan_eqI [OF assms(1) delete_keys_contents(1) [OF assms(1) t1(1)]])
      (use raw snapshot_key_prefix [of topic "ss_snapshot_id x"] in
        \<open>auto simp: delete_keys_contents(2) [OF assms(1) t1(1)] restrict_map_def ks_def t1(2) image_iff
          split: if_splits\<close>)
  moreover have "topic_scan tree (delete_keys tree ks t1) u = topic_scan tree t u"
    if "nul_free u" "u \<noteq> topic" for u
    unfolding topic_scan_def delete_other_scan [OF assms(1) t1(1) assms(3) that kp]
    by (simp add: t1_def put_other_scan [OF assms(1,2,3) that snapshot_key_prefix])
  moreover have "SledSnapshotStore_capture tree S now topic store ttl t = (Some x, delete_keys tree ks t1)"
    using assms(4,5) by (simp add: SledSnapshotStore_capture_def Let_def ks_def t1_def snapshot_prefix_eq)
  ultimately show ?thesis using delete_keys_contents(1) [OF assms(1) t1(1)] by (simp add: topic_scan_def)
qed

lemma sled_remove_scan:
  assumes "sled_tree_ok tree contents tinv" "tinv t" "nul_free topic"
  shows "tinv (SledSnapshotStore_remove tree topic t)"
    and "topic_scan tree (SledSnapshotStore_remove tree topic t) topic = []"
    and "nul_free u \<Longrightarrow> u \<noteq> topic \<Longrightarrow>
      topic_scan tree (SledSnapshotStore_remove tree topic t) u = topic_scan tree t u"
proof -
  let ?ks = "map fst (SledEngine_scan_prefix tree (log_prefix topic) t)"
  have r: "SledSnapshotStore_remove tree topic t = delete_keys tree ?ks t"
    by (simp add: SledSnapshotStore_remove_def snapshot_prefix_eq)
  have kp: "\<forall>k \<in> set ?ks. prefix (log_prefix topic) k"
    using sled_scan [OF assms(1,2), of "log_prefix topic"] by auto
  show "tinv (SledSnapshotStore_remove tree topic t)" unfolding r by (rule delete_keys_contents(1) [OF assms(1,2)])
  show "topic_scan tree (SledSnapshotStore_remove tree topic t) topic = []"
    unfolding topic_scan_def r delete_keys_scan [OF assms(1,2)] by (auto simp: filter_empty_conv)
  show "topic_scan tree (SledSnapshotStore_remove tree topic t) u = topic_scan tree t u"
    if "nul_free u" "u \<noteq> topic"
    unfolding topic_scan_def r by (rule delete_other_scan [OF assms(1,2,3) that kp])
qed

lemma sled_snapshot_store:
  assumes tree: "sled_tree_ok tree contents tinv" and S: "serde_ok S"
  shows "snapshot_store (SledSnapshotStore_capture tree S) (SledSnapshotStore_get tree S)
    (SledSnapshotStore_remove tree) (sled_current tree S) (\<lambda>t. tinv t \<and> snapshots_ok tree S t) nul_free"
proof
  fix s t now store ttl x
  assume s: "tinv s \<and> snapshots_ok tree S s" and t: "nul_free t"
  show "SledSnapshotStore_get tree S now t s = (case sled_current tree S s t of None \<Rightarrow> None
      | Some x \<Rightarrow> if snapshot_expired now x then None else Some x)"
    by (rule sled_get_current [OF conjunct2 [OF s] t])
  have "SledSnapshotStore_capture tree S now t store ttl s = (None, s)"
    if "\<not> (\<exists>x v. take_snapshot now t store ttl = Some x \<and> to_vec S x = Some v)"
    using that by (cases "take_snapshot now t store ttl") (auto simp: SledSnapshotStore_capture_def)
  then consider (no) "SledSnapshotStore_capture tree S now t store ttl s = (None, s)"
    | (yes) x v where "take_snapshot now t store ttl = Some x" "to_vec S x = Some v"
    by blast
  then show "(tinv (snd (SledSnapshotStore_capture tree S now t store ttl s))
        \<and> snapshots_ok tree S (snd (SledSnapshotStore_capture tree S now t store ttl s)))
      \<and> (\<forall>t'. nul_free t' \<longrightarrow> sled_current tree S (snd (SledSnapshotStore_capture tree S now t store ttl s)) t' =
         (if t' = t \<and> fst (SledSnapshotStore_capture tree S now t store ttl s) \<noteq> None
          then fst (SledSnapshotStore_capture tree S now t store ttl s) else sled_current tree S s t'))"
  proof cases
    case no
    then show ?thesis using s by simp
  next
    case yes
    obtain t' where t': "SledSnapshotStore_capture tree S now t store ttl s = (Some x, t')" "tinv t'"
      "topic_scan tree t' t = [(snapshot_key t (ss_snapshot_id x), v)]"
      "\<And>u. nul_free u \<Longrightarrow> u \<noteq> t \<Longrightarrow> topic_scan tree t' u = topic_scan tree s u"
      using sled_capture_some [OF tree conjunct1 [OF s] t yes] by blast
    have "from_slice S v = Some x" using yes(2) S by (auto simp: serde_ok_def)
    moreover have "snapshots_ok tree S t'"
      unfolding snapshots_ok_def
    proof (intro allI impI)
      fix u :: string assume u: "nul_free u"
      show "topic_scan tree t' u = [] \<or> (\<exists>k v x. topic_scan tree t' u = [(k, v)] \<and> from_slice S v = Some x)"
        using t'(3) t'(4) [OF u] \<open>from_slice S v = Some x\<close> s u
        by (cases "u = t") (auto simp: snapshots_ok_def)
    qed
    ultimately show ?thesis using t' by (simp add: sled_current_def)
  qed
  show "take_snapshot now t store ttl = Some x" if "fst (SledSnapshotStore_capture tree S now t store ttl s) = Some x"
    using that by (auto simp: SledSnapshotStore_capture_def Let_def split: option.splits)
  show "(tinv (SledSnapshotStore_remove tree t s) \<and> snapshots_ok tree S (SledSnapshotStore_remove tree t s)) \<and>
      (\<forall>t'. nul_free t' \<longrightarrow> sled_current tree S (SledSnapshotStore_remove tree t s) t' =
        (if t' = t then None else sled_current tree S s t'))"
  proof -
    note rm = sled_remove_scan [OF tree conjunct1 [OF s] t]
    have "topic_scan tree (SledSnapshotStore_remove tree t s) u = [] \<or>
        topic_scan tree (SledSnapshotStore_remove tree t s) u = topic_scan tree s u" if "nul_free u" for u
      using rm(2) rm(3) [OF that] by (cases "u = t") auto
    then have "snapshots_ok tree S (SledSnapshotStore_remove tree t s)"
      using s unfolding snapshots_ok_def by metis
    then show ?thesis using rm by (simp add: sled_current_def)
  qed
qed

text \<open>A serialiser for one snapshot.\<close>

definition demo_snapshot :: StoredSnapshot where
  "demo_snapshot = \<lparr> ss_snapshot_id = ''snap-3'', ss_topic = ''t'', ss_base_offset = 3, ss_payload = [1],
     ss_created_at = 100, ss_expires_at = Some 150 \<rparr>"

definition demo_serde :: "StoredSnapshot Serde" where
  "demo_serde = \<lparr> to_vec = (\<lambda>x. if x = demo_snapshot then Some [7] else None),
     from_slice = (\<lambda>v. if v = [7] then Some demo_snapshot else None) \<rparr>"

lemma demo_serde_ok: "serde_ok demo_serde"
  by (simp add: serde_ok_def demo_serde_def)

interpretation alist_snapshots: snapshot_store "SledSnapshotStore_capture alist_tree demo_serde"
  "SledSnapshotStore_get alist_tree demo_serde" "SledSnapshotStore_remove alist_tree"
  "sled_current alist_tree demo_serde" "\<lambda>t. hm_wf t \<and> snapshots_ok alist_tree demo_serde t" nul_free
  by (rule sled_snapshot_store [OF alist_tree_ok demo_serde_ok])

definition demo_topics :: TopicStore where
  "demo_topics = [(''t'', (TopicEntry_new ''t'' TopicProfile_default)\<lparr>te_latest_snapshot := Some
     \<lparr> le_offset = 3, le_publisher_session = None, le_message_id = ''m'', le_class = ''event'',
       le_event = None, le_payload = [1], le_timestamp = 5, le_appended_at = Some 5 \<rparr>\<rparr>)]"

lemma dec_3: "dec 3 = ''3''"
  by code_simp

lemma demo_take: "take_snapshot 100 ''t'' demo_topics (Some 50) = Some demo_snapshot"
  by (simp add: take_snapshot_def demo_topics_def TopicStore_get_def TopicEntry_snapshot_def demo_snapshot_def
      i64_defs dec_int_def dec_3)

section \<open>Properties\<close>

text \<open>A captured snapshot on a sled tree is the topic's latest entry and is what \<open>get\<close>
  returns from then on: forever without a time to live, and exactly up to the
  expiry with one; other topics' snapshots are not affected.\<close>

theorem sled_snapshot_until_expiry:
  assumes "sled_tree_ok tree contents tinv" "serde_ok S" "tinv t" "snapshots_ok tree S t" "nul_free topic"
    and "SledSnapshotStore_capture tree S now topic store ttl t = (Some x, t')"
  shows "take_snapshot now topic store ttl = Some x
    \<and> SledSnapshotStore_get tree S n topic t' = (case ttl of None \<Rightarrow> Some x
         | Some d \<Rightarrow> if n \<le> wrap_i64 (now + wrap_i64 (int d)) then Some x else None)
    \<and> (nul_free u \<longrightarrow> u \<noteq> topic \<longrightarrow>
         SledSnapshotStore_get tree S n u t' = SledSnapshotStore_get tree S n u t)"
proof -
  note sled = sled_snapshot_store [OF assms(1,2)]
  have inv: "tinv t \<and> snapshots_ok tree S t" using assms(3,4) by simp
  have "fst (SledSnapshotStore_capture tree S now topic store ttl t) = Some x" using assms(6) by simp
  from snapshot_store.capture_result [OF sled inv assms(5) this]
    snapshot_store.captured_until_expiry [OF sled inv assms(5,6)]
  show ?thesis by blast
qed

theorem sled_snapshot_until_expiry_witness:
  "\<exists>t'. SledSnapshotStore_get alist_tree demo_serde 150 ''t'' t' = Some demo_snapshot
    \<and> SledSnapshotStore_capture alist_tree demo_serde 100 ''t'' demo_topics (Some 50) [] = (Some demo_snapshot, t')"
proof -
  have ok: "snapshots_ok alist_tree demo_serde []"
    by (simp add: snapshots_ok_def topic_scan_def SledEngine_scan_prefix_def alist_tree_def List.map_filter_simps)
  obtain t' where "SledSnapshotStore_capture alist_tree demo_serde 100 ''t'' demo_topics (Some 50) []
      = (Some demo_snapshot, t')"
    using sled_capture_some [OF alist_tree_ok, of "[]" "''t''" 100 demo_topics "Some 50" demo_snapshot demo_serde "[7]"]
      demo_take by (auto simp: demo_serde_def nul_free_def)
  with sled_snapshot_until_expiry [OF alist_tree_ok demo_serde_ok _ ok _ this, of 150] show ?thesis
    by (auto simp: nul_free_def i64_defs)
qed

end
