(* ===== verification/Broker.thy ===== *)
theory Broker
  imports Fanout Offset_Store Dedupe_Store Snapshot_Store
begin

text \<open>
  The broker (\<open>rifts-broker/src/broker\<close>: \<open>broker.rs\<close>, \<open>router.rs\<close>, \<open>memory_broker.rs\<close>), generic
  over its four stores as \<open>InMemoryBroker<O, L, D, S>\<close> is.  An operation is one
  step on the broker state and the sinks' world \<open>'w\<close>; the clock is read once per operation.

  \<open>broker_stores\<close> collects the contracts of the stores; the broker's lemmas are proved in it
  once and hold for the memory stores (\<open>mem_broker\<close>) and for stores on sled trees
  (\<open>sled_broker_stores\<close>).
\<close>

section \<open>The store interfaces\<close>

record ('o, 'l, 'd, 's) BrokerStores =
  bs_alloc :: "string \<Rightarrow> 'o \<Rightarrow> i64 \<times> 'o"
  bs_head :: "string \<Rightarrow> 'o \<Rightarrow> i64"
  bs_append :: "i64 \<Rightarrow> string \<Rightarrow> LogEntry \<Rightarrow> RetentionPolicy \<Rightarrow> 'l \<Rightarrow> 'l"
  bs_range :: "string \<Rightarrow> i64 \<Rightarrow> i64 \<Rightarrow> 'l \<Rightarrow> LogEntry list"
  bs_check :: "i64 \<Rightarrow> string \<Rightarrow> string \<Rightarrow> nat \<Rightarrow> 'd \<Rightarrow> bool \<times> 'd"
  bs_sweep :: "i64 \<Rightarrow> 'd \<Rightarrow> nat \<times> 'd"
  bs_capture :: "i64 \<Rightarrow> string \<Rightarrow> TopicStore \<Rightarrow> nat option \<Rightarrow> 's \<Rightarrow> StoredSnapshot option \<times> 's"
  bs_get :: "i64 \<Rightarrow> string \<Rightarrow> 's \<Rightarrow> StoredSnapshot option"

definition memory_stores ::
  "(MemoryOffsetStore, MemoryLogStore, MemoryDedupeStore, MemorySnapshotStore) BrokerStores" where
  "memory_stores =
    \<lparr> bs_alloc = MemoryOffsetStore_alloc, bs_head = MemoryOffsetStore_head,
      bs_append = MemoryLogStore_append, bs_range = MemoryLogStore_range,
      bs_check = MemoryDedupeStore_check_and_record, bs_sweep = MemoryDedupeStore_sweep,
      bs_capture = MemorySnapshotStore_capture, bs_get = MemorySnapshotStore_get \<rparr>"

section \<open>The broker\<close>

record PublishOutcome =
  po_offset :: i64
  po_duplicate :: bool

record ('o, 'l, 'd, 's) InMemoryBroker =
  b_store :: TopicStore
  b_offsets :: 'o
  b_log :: 'l
  b_dedupe :: 'd
  b_snapshots :: 's
  b_fanout :: FanoutEngine
  b_default_profile :: TopicProfile
  b_dedupe_window :: nat
  b_max_payload_bytes :: usize

definition InMemoryBroker_with_stores ::
  "TopicProfile \<Rightarrow> nat \<Rightarrow> usize \<Rightarrow> 'o \<Rightarrow> 'l \<Rightarrow> 'd \<Rightarrow> 's \<Rightarrow> ('o, 'l, 'd, 's) InMemoryBroker" where
  "InMemoryBroker_with_stores default_profile dedupe_window max_payload_bytes offsets log dedupe snapshots =
    \<lparr> b_store = TopicStore_new, b_offsets = offsets, b_log = log, b_dedupe = dedupe,
      b_snapshots = snapshots, b_fanout = FanoutEngine_new, b_default_profile = default_profile,
      b_dedupe_window = dedupe_window, b_max_payload_bytes = max_payload_bytes \<rparr>"

definition InMemoryBroker_new ::
  "TopicProfile \<Rightarrow> nat \<Rightarrow> usize
    \<Rightarrow> (MemoryOffsetStore, MemoryLogStore, MemoryDedupeStore, MemorySnapshotStore) InMemoryBroker" where
  "InMemoryBroker_new default_profile dedupe_window max_payload_bytes =
    InMemoryBroker_with_stores default_profile dedupe_window max_payload_bytes [] [] [] []"

text \<open>The route's entry lives in the store under the topic's name.\<close>

definition LocalRouter_route :: "TopicProfile \<Rightarrow> string \<Rightarrow> TopicStore \<Rightarrow> (TopicEntry \<times> TopicStore) option" where
  "LocalRouter_route default_profile topic store =
    (case TopicStore_get_or_create topic default_profile store of Inl _ \<Rightarrow> None | Inr r \<Rightarrow> Some r)"

definition serialize_frame_for_fanout :: "Frame \<Rightarrow> i64 \<Rightarrow> bytes" where
  "serialize_frame_for_fanout frame offset =
    as_bytes ''OFF:'' @ i64_be_bytes offset @ (case fr_payload frame of None \<Rightarrow> [] | Some p \<Rightarrow> p)"

definition validate_publish :: "i64 \<Rightarrow> Frame \<Rightarrow> usize \<Rightarrow> (string \<times> string) rift_result" where
  "validate_publish now frame max_payload =
    (case fr_topic frame of
       None \<Rightarrow> Inl (RiftError.Frame (FrameReject.RequiredFieldMissing ''topic''))
     | Some topic \<Rightarrow>
       (case fr_message_id frame of
          None \<Rightarrow> Inl (RiftError.Frame (FrameReject.RequiredFieldMissing ''message_id''))
        | Some message_id \<Rightarrow>
            if case fr_payload frame of Some p \<Rightarrow> unat max_payload < length p | None \<Rightarrow> False
            then Inl (RiftError.Message (MessageReject.TooLarge
                   (length (the (fr_payload frame))) (unat max_payload)))
            else if case fr_ttl_ms frame of
                      Some ttl \<Rightarrow> 0 < fr_timestamp frame
                        \<and> int (unat ttl) < wrap_i64 (now - fr_timestamp frame)
                    | None \<Rightarrow> False
            then Inl (RiftError.Message MessageReject.Expired)
            else Inr (topic, message_id)))"

definition publish_entry :: "Frame \<Rightarrow> string \<Rightarrow> i64 \<Rightarrow> LogEntry" where
  "publish_entry frame message_id offset =
    \<lparr> le_offset = offset, le_publisher_session = fr_session_id frame, le_message_id = message_id,
      le_class = MessageClass_as_str MessageClass.Event, le_event = fr_event frame,
      le_payload = (case fr_payload frame of None \<Rightarrow> [] | Some p \<Rightarrow> p),
      le_timestamp = fr_timestamp frame, le_appended_at = None \<rparr>"

definition InMemoryBroker_publish ::
  "('o, 'l, 'd, 's) BrokerStores \<Rightarrow> 'w sink_deliver \<Rightarrow> i64 \<Rightarrow> Frame
    \<Rightarrow> ('o, 'l, 'd, 's) InMemoryBroker \<Rightarrow> 'w
    \<Rightarrow> PublishOutcome rift_result \<times> ('o, 'l, 'd, 's) InMemoryBroker \<times> 'w" where
  "InMemoryBroker_publish ops deliver now frame b w =
    (case validate_publish now frame (b_max_payload_bytes b) of
       Inl e \<Rightarrow> (Inl e, b, w)
     | Inr (topic, message_id) \<Rightarrow>
    (case validate_name topic of
       Inl e \<Rightarrow> (Inl e, b, w)
     | Inr _ \<Rightarrow>
    (case LocalRouter_route (b_default_profile b) topic (b_store b) of
       None \<Rightarrow> (Inl (RiftError.Topic (TopicReject.NotFound topic)), b, w)
     | Some (entry, store) \<Rightarrow>
    (case TopicEntry_try_inc_publisher entry of
       (False, _) \<Rightarrow> (Inl (RiftError.Topic (TopicReject.PublisherLimit topic)), b\<lparr>b_store := store\<rparr>, w)
     | (True, entry') \<Rightarrow>
         let store' = hm_put topic entry' store;
             (fresh, dedupe) = bs_check ops now topic message_id (b_dedupe_window b) (b_dedupe b);
             duplicate = (\<not> fresh);
             (offset, offsets) = bs_alloc ops topic (b_offsets b);
             log_entry = publish_entry frame message_id offset;
             profile = te_profile entry';
             log = bs_append ops now topic log_entry (tp_retention profile) (b_log b);
             snapshots = (if tp_snapshot_enabled profile
                          then snd (bs_capture ops now topic store' (tp_snapshot_ttl profile) (b_snapshots b))
                          else b_snapshots b);
             w' = (if \<not> duplicate
                   then snd (FanoutEngine_deliver deliver topic
                          (serialize_frame_for_fanout frame offset) (b_fanout b) w)
                   else w)
         in (Inr \<lparr> po_offset = offset, po_duplicate = duplicate \<rparr>,
             b\<lparr>b_store := store', b_dedupe := dedupe, b_offsets := offsets, b_log := log,
               b_snapshots := snapshots\<rparr>, w')))))"

definition InMemoryBroker_subscribe ::
  "string \<Rightarrow> SubscribeIntent \<Rightarrow> sink_id \<Rightarrow> ('o, 'l, 'd, 's) InMemoryBroker
    \<Rightarrow> SubscriptionId rift_result \<times> ('o, 'l, 'd, 's) InMemoryBroker" where
  "InMemoryBroker_subscribe topic intent sink b =
    (case validate_name topic of
       Inl e \<Rightarrow> (Inl e, b)
     | Inr _ \<Rightarrow>
    (case LocalRouter_route (b_default_profile b) topic (b_store b) of
       None \<Rightarrow> (Inl (RiftError.Topic (TopicReject.NotFound topic)), b)
     | Some (entry, store) \<Rightarrow>
    (case TopicEntry_try_inc_subscriber entry of
       (False, _) \<Rightarrow> (Inl (RiftError.Topic (TopicReject.SubscriberLimit topic)), b\<lparr>b_store := store\<rparr>)
     | (True, entry') \<Rightarrow>
         (case FanoutEngine_subscribe topic intent sink (b_fanout b) of
            (sid, fanout) \<Rightarrow> (Inr sid, b\<lparr>b_store := hm_put topic entry' store, b_fanout := fanout\<rparr>)))))"

definition InMemoryBroker_unsubscribe ::
  "SubscriptionId \<Rightarrow> ('o, 'l, 'd, 's) InMemoryBroker
    \<Rightarrow> bool rift_result \<times> ('o, 'l, 'd, 's) InMemoryBroker" where
  "InMemoryBroker_unsubscribe sid b =
    (case FanoutEngine_unsubscribe sid (b_fanout b) of
       (Some topic, fanout) \<Rightarrow>
         (Inr True, b\<lparr>b_fanout := fanout,
                      b_store := TopicStore_update topic TopicEntry_dec_subscriber (b_store b)\<rparr>)
     | (None, fanout) \<Rightarrow> (Inr False, b\<lparr>b_fanout := fanout\<rparr>))"

definition InMemoryBroker_drop_sink ::
  "sink_id \<Rightarrow> ('o, 'l, 'd, 's) InMemoryBroker \<Rightarrow> nat \<times> ('o, 'l, 'd, 's) InMemoryBroker" where
  "InMemoryBroker_drop_sink sink b =
    (case FanoutEngine_drop_sink sink (b_fanout b) of
       (topics, fanout) \<Rightarrow>
         (length topics,
          b\<lparr>b_fanout := fanout,
            b_store := foldl (\<lambda>st topic. TopicStore_update topic TopicEntry_dec_subscriber st)
                         (b_store b) topics\<rparr>))"

definition InMemoryBroker_replay ::
  "('o, 'l, 'd, 's) BrokerStores \<Rightarrow> string \<Rightarrow> i64 \<Rightarrow> i64 \<Rightarrow> ('o, 'l, 'd, 's) InMemoryBroker
    \<Rightarrow> bytes list rift_result" where
  "InMemoryBroker_replay ops topic lo hi b = Inr (map le_payload (bs_range ops topic lo hi (b_log b)))"

definition InMemoryBroker_snapshot ::
  "('o, 'l, 'd, 's) BrokerStores \<Rightarrow> i64 \<Rightarrow> string \<Rightarrow> ('o, 'l, 'd, 's) InMemoryBroker
    \<Rightarrow> StoredSnapshot option rift_result" where
  "InMemoryBroker_snapshot ops now topic b = Inr (bs_get ops now topic (b_snapshots b))"

definition InMemoryBroker_subscriber_count :: "string \<Rightarrow> ('o, 'l, 'd, 's) InMemoryBroker \<Rightarrow> nat" where
  "InMemoryBroker_subscriber_count topic b = FanoutEngine_topic_subscriber_count topic (b_fanout b)"

definition InMemoryBroker_head_offset ::
  "('o, 'l, 'd, 's) BrokerStores \<Rightarrow> string \<Rightarrow> ('o, 'l, 'd, 's) InMemoryBroker \<Rightarrow> i64" where
  "InMemoryBroker_head_offset ops topic b = bs_head ops topic (b_offsets b)"

definition InMemoryBroker_dec_publisher ::
  "string \<Rightarrow> ('o, 'l, 'd, 's) InMemoryBroker \<Rightarrow> ('o, 'l, 'd, 's) InMemoryBroker" where
  "InMemoryBroker_dec_publisher topic b =
    b\<lparr>b_store := TopicStore_update topic TopicEntry_dec_publisher (b_store b)\<rparr>"

definition InMemoryBroker_maintain ::
  "('o, 'l, 'd, 's) BrokerStores \<Rightarrow> i64 \<Rightarrow> ('o, 'l, 'd, 's) InMemoryBroker
    \<Rightarrow> nat \<times> ('o, 'l, 'd, 's) InMemoryBroker" where
  "InMemoryBroker_maintain ops now b =
    (case bs_sweep ops now (b_dedupe b) of (n, dedupe) \<Rightarrow> (n, b\<lparr>b_dedupe := dedupe\<rparr>))"

section \<open>Steps\<close>

text \<open>The calls that change the broker, and the states it can reach by them.\<close>

datatype broker_op =
    Publish i64 Frame
  | Subscribe string SubscribeIntent sink_id
  | Unsubscribe SubscriptionId
  | DropSinkOp sink_id
  | DecPublisher string
  | Maintain i64

primrec broker_apply ::
  "('o, 'l, 'd, 's) BrokerStores \<Rightarrow> 'w sink_deliver \<Rightarrow> broker_op
    \<Rightarrow> ('o, 'l, 'd, 's) InMemoryBroker \<times> 'w \<Rightarrow> ('o, 'l, 'd, 's) InMemoryBroker \<times> 'w" where
  "broker_apply ops deliver (Publish now frame) s =
    snd (InMemoryBroker_publish ops deliver now frame (fst s) (snd s))"
| "broker_apply ops deliver (Subscribe topic intent sink) s =
    (snd (InMemoryBroker_subscribe topic intent sink (fst s)), snd s)"
| "broker_apply ops deliver (Unsubscribe sid) s = (snd (InMemoryBroker_unsubscribe sid (fst s)), snd s)"
| "broker_apply ops deliver (DropSinkOp sink) s = (snd (InMemoryBroker_drop_sink sink (fst s)), snd s)"
| "broker_apply ops deliver (DecPublisher topic) s = (InMemoryBroker_dec_publisher topic (fst s), snd s)"
| "broker_apply ops deliver (Maintain now) s = (snd (InMemoryBroker_maintain ops now (fst s)), snd s)"

inductive broker_reach ::
  "('o, 'l, 'd, 's) BrokerStores \<Rightarrow> 'w sink_deliver \<Rightarrow> ('o, 'l, 'd, 's) InMemoryBroker \<Rightarrow> 'w
    \<Rightarrow> ('o, 'l, 'd, 's) InMemoryBroker \<Rightarrow> 'w \<Rightarrow> bool"
  for ops deliver b0 w0 where
  start: "broker_reach ops deliver b0 w0 b0 w0"
| step: "broker_reach ops deliver b0 w0 b w \<Longrightarrow> fe_seq (b_fanout b) \<noteq> - 1
    \<Longrightarrow> broker_apply ops deliver op (b, w) = (b', w') \<Longrightarrow> broker_reach ops deliver b0 w0 b' w'"

section \<open>The slot invariant\<close>

text \<open>A topic's subscriber counter is the number of its subscriptions, within the profile's
  limit; a topic that has subscriptions exists.  No entry has a snapshot: the
  broker writes the log store and never calls \<open>TopicEntry::append\<close>.\<close>

definition entry_fits :: "(SubscriptionId \<times> sink_id) list \<Rightarrow> TopicEntry \<Rightarrow> bool" where
  "entry_fits l e \<longleftrightarrow> unat (te_subscriber_count e) = length l
    \<and> te_subscriber_count e \<le> tp_max_subscribers (te_profile e) \<and> te_latest_snapshot e = None"

definition broker_ok :: "('o, 'l, 'd, 's) InMemoryBroker \<Rightarrow> bool" where
  "broker_ok b \<longleftrightarrow> topic_store_ok (b_store b) \<and> fanout_ok (b_fanout b)
    \<and> (\<forall>t. hm_get (b_store b) t = None \<longrightarrow> topic_subs (b_fanout b) t = [])
    \<and> (\<forall>t e. hm_get (b_store b) t = Some e \<longrightarrow> entry_fits (topic_subs (b_fanout b) t) e)"

lemma broker_okD:
  assumes "broker_ok b"
  shows "topic_store_ok (b_store b)" "fanout_ok (b_fanout b)"
    "hm_get (b_store b) t = None \<Longrightarrow> topic_subs (b_fanout b) t = []"
    "hm_get (b_store b) t = Some e \<Longrightarrow> entry_fits (topic_subs (b_fanout b) t) e"
  using assms by (auto simp: broker_ok_def)

lemma entry_fits_new: "entry_fits [] (TopicEntry_new t p)"
  by (simp add: entry_fits_def TopicEntry_new_def)

lemma route_Some:
  assumes "LocalRouter_route p topic st = Some (entry, st')"
  shows "validate_name topic = Inr ()"
    and "entry = (case hm_get st topic of None \<Rightarrow> TopicEntry_new topic p | Some e \<Rightarrow> e)"
    and "hm_get st' k = (if k = topic then Some entry else hm_get st k)"
    and "topic_store_ok st \<Longrightarrow> topic_store_ok st'"
    and "topic_store_ok st \<Longrightarrow> te_name entry = topic"
proof -
  have g: "TopicStore_get_or_create topic p st = Inr (entry, st')"
    using assms by (auto simp: LocalRouter_route_def split: sum.splits)
  then show "validate_name topic = Inr ()" "entry = (case hm_get st topic of None \<Rightarrow> TopicEntry_new topic p | Some e \<Rightarrow> e)"
    by (auto simp: TopicStore_get_or_create_def hm_get_or_def split: sum.splits)
  show "hm_get st' k = (if k = topic then Some entry else hm_get st k)"
    using get_or_create_lookup [OF g] by (simp add: TopicStore_get_def)
  show ok: "topic_store_ok st \<Longrightarrow> topic_store_ok st'" using g by (rule topic_store_ok_get_or_create [rotated])
  show "topic_store_ok st \<Longrightarrow> te_name entry = topic"
    using ok get_or_create_lookup [OF g, of topic] by (auto simp: topic_store_ok_def TopicStore_get_def)
qed

lemma route_fits:
  assumes "broker_ok b" "LocalRouter_route p topic (b_store b) = Some (entry, st')"
  shows "entry_fits (topic_subs (b_fanout b) topic) entry" and "broker_ok (b\<lparr>b_store := st'\<rparr>)"
proof -
  note r = route_Some [OF assms(2)]
  show fit: "entry_fits (topic_subs (b_fanout b) topic) entry"
    using r(2) broker_okD(3,4) [OF assms(1)] by (cases "hm_get (b_store b) topic") (auto simp: entry_fits_new)
  show "broker_ok (b\<lparr>b_store := st'\<rparr>)"
    using assms(1) fit r(4) by (auto simp: broker_ok_def r(3))
qed

text \<open>Replacing one topic's entry, and its subscriptions.\<close>

lemma put_entry_ok:
  assumes "broker_ok b" "hm_get (b_store b) topic = Some e" "te_name e' = te_name e"
    and "entry_fits (topic_subs (b_fanout b) topic) e'"
  shows "broker_ok (b\<lparr>b_store := hm_put topic e' (b_store b)\<rparr>)"
  using assms unfolding broker_ok_def topic_store_ok_def by (auto split: if_splits)

lemma broker_ok_stores [simp]:
  "broker_ok (b\<lparr>b_dedupe := d\<rparr>) = broker_ok b" "broker_ok (b\<lparr>b_offsets := off\<rparr>) = broker_ok b"
  "broker_ok (b\<lparr>b_log := l\<rparr>) = broker_ok b" "broker_ok (b\<lparr>b_snapshots := s\<rparr>) = broker_ok b"
  by (simp_all add: broker_ok_def)

lemma try_inc_publisher_eq:
  "TopicEntry_try_inc_publisher e = (te_publisher_count e < tp_max_publishers (te_profile e),
    if te_publisher_count e < tp_max_publishers (te_profile e)
    then e\<lparr>te_publisher_count := te_publisher_count e + 1\<rparr> else e)"
  by (auto simp: TopicEntry_try_inc_publisher_def slot_next_def)

lemma try_inc_subscriber_eq:
  "TopicEntry_try_inc_subscriber e = (te_subscriber_count e < tp_max_subscribers (te_profile e),
    if te_subscriber_count e < tp_max_subscribers (te_profile e)
    then e\<lparr>te_subscriber_count := te_subscriber_count e + 1\<rparr> else e)"
  by (auto simp: TopicEntry_try_inc_subscriber_def slot_next_def)

text \<open>A publish either fails, with at most a new topic entry, or goes through all stores.\<close>

lemma publish_cases [consumes 1, case_names refused limit accepted]:
  assumes "InMemoryBroker_publish ops deliver now frame b w = (r, b', w')"
  obtains (refused) e where "r = Inl e" "b' = b" "w' = w"
  | (limit) topic message_id entry st where
      "validate_publish now frame (b_max_payload_bytes b) = Inr (topic, message_id)"
      "LocalRouter_route (b_default_profile b) topic (b_store b) = Some (entry, st)"
      "\<not> te_publisher_count entry < tp_max_publishers (te_profile entry)"
      "r = Inl (RiftError.Topic (TopicReject.PublisherLimit topic))" "b' = b\<lparr>b_store := st\<rparr>" "w' = w"
  | (accepted) topic message_id entry st fresh d off offs where
      "validate_publish now frame (b_max_payload_bytes b) = Inr (topic, message_id)"
      "LocalRouter_route (b_default_profile b) topic (b_store b) = Some (entry, st)"
      "te_publisher_count entry < tp_max_publishers (te_profile entry)"
      "bs_check ops now topic message_id (b_dedupe_window b) (b_dedupe b) = (fresh, d)"
      "bs_alloc ops topic (b_offsets b) = (off, offs)"
      "r = Inr \<lparr> po_offset = off, po_duplicate = (\<not> fresh) \<rparr>"
      "b' = b\<lparr>b_store := hm_put topic (entry\<lparr>te_publisher_count := te_publisher_count entry + 1\<rparr>) st,
             b_dedupe := d, b_offsets := offs,
             b_log := bs_append ops now topic (publish_entry frame message_id off)
                        (tp_retention (te_profile entry)) (b_log b),
             b_snapshots := (if tp_snapshot_enabled (te_profile entry)
               then snd (bs_capture ops now topic
                      (hm_put topic (entry\<lparr>te_publisher_count := te_publisher_count entry + 1\<rparr>) st)
                      (tp_snapshot_ttl (te_profile entry)) (b_snapshots b))
               else b_snapshots b)\<rparr>"
      "w' = (if fresh then snd (FanoutEngine_deliver deliver topic
               (serialize_frame_for_fanout frame off) (b_fanout b) w) else w)"
proof (cases "validate_publish now frame (b_max_payload_bytes b)")
  case (Inl e)
  then show ?thesis using assms by (intro refused [of e]) (simp_all add: InMemoryBroker_publish_def)
next
  case (Inr tm)
  obtain topic message_id where tm: "tm = (topic, message_id)" by (cases tm)
  note val = Inr [unfolded tm]
  show ?thesis
  proof (cases "LocalRouter_route (b_default_profile b) topic (b_store b)")
    case None
    have "\<exists>e. r = Inl e \<and> b' = b \<and> w' = w"
      using assms None val by (cases "validate_name topic") (auto simp: InMemoryBroker_publish_def)
    then show ?thesis using refused by blast
  next
    case (Some es)
    obtain entry st where es: "es = (entry, st)" by (cases es)
    note route = Some [unfolded es]
    have name: "validate_name topic = Inr ()" by (rule route_Some(1) [OF route])
    show ?thesis
    proof (cases "te_publisher_count entry < tp_max_publishers (te_profile entry)")
      case False
      then show ?thesis
        using assms by (intro limit [OF val route False])
          (simp_all add: InMemoryBroker_publish_def try_inc_publisher_eq val route name)
    next
      case True
      obtain fresh d where c: "bs_check ops now topic message_id (b_dedupe_window b) (b_dedupe b) = (fresh, d)"
        by fastforce
      obtain off offs where a: "bs_alloc ops topic (b_offsets b) = (off, offs)" by fastforce
      show ?thesis
        using assms by (intro accepted [OF val route True c a])
          (simp_all add: InMemoryBroker_publish_def try_inc_publisher_eq val route name True c a Let_def)
    qed
  qed
qed

lemma publish_ok:
  assumes "broker_ok b" "InMemoryBroker_publish ops deliver now frame b w = (r, b', w')"
  shows "broker_ok b'"
  using assms(2)
proof (cases rule: publish_cases)
  case refused
  then show ?thesis using assms(1) by simp
next
  case (limit topic message_id entry st)
  then show ?thesis using route_fits(2) [OF assms(1)] by simp
next
  case (accepted topic message_id entry st fresh d off offs)
  note fits = route_fits [OF assms(1) accepted(2)]
  have "broker_ok ((b\<lparr>b_store := st\<rparr>)\<lparr>b_store := hm_put topic
      (entry\<lparr>te_publisher_count := te_publisher_count entry + 1\<rparr>) (b_store (b\<lparr>b_store := st\<rparr>))\<rparr>)"
    by (rule put_entry_ok [OF fits(2)]) (use fits(1) route_Some(3) [OF accepted(2)] in \<open>simp_all add: entry_fits_def\<close>)
  then show ?thesis unfolding accepted(7) by (simp add: broker_ok_def)
qed

lemma subscribe_broker_ok:
  assumes "broker_ok b" "fe_seq (b_fanout b) \<noteq> - 1" "InMemoryBroker_subscribe topic intent sink b = (r, b')"
  shows "broker_ok b'"
proof (cases "LocalRouter_route (b_default_profile b) topic (b_store b)")
  case None
  then have "b' = b" using assms(3) by (auto simp: InMemoryBroker_subscribe_def split: sum.splits)
  then show ?thesis using assms(1) by simp
next
  case (Some es)
  obtain entry st where es: "es = (entry, st)" by (cases es)
  note route = Some [unfolded es]
  note fits = route_fits [OF assms(1) route] and rs = route_Some [OF route]
  show ?thesis
  proof (cases "te_subscriber_count entry < tp_max_subscribers (te_profile entry)")
    case False
    then have "b' = b\<lparr>b_store := st\<rparr>"
      using assms(3) rs(1) route by (simp add: InMemoryBroker_subscribe_def try_inc_subscriber_eq)
    then show ?thesis using fits(2) by simp
  next
    case True
    obtain i f' where f': "FanoutEngine_subscribe topic intent sink (b_fanout b) = (i, f')" by fastforce
    let ?e = "entry\<lparr>te_subscriber_count := te_subscriber_count entry + 1\<rparr>"
    have b': "b' = b\<lparr>b_store := hm_put topic ?e st, b_fanout := f'\<rparr>"
      using assms(3) rs(1) route True f' by (simp add: InMemoryBroker_subscribe_def try_inc_subscriber_eq)
    have inc: "unat (te_subscriber_count entry + 1) = Suc (unat (te_subscriber_count entry))"
      by (rule unat_inc_less [OF True])
    have le: "te_subscriber_count entry + 1 \<le> tp_max_subscribers (te_profile entry)"
      using True inc by (simp add: word_le_nat_alt word_less_nat_alt)
    have fit: "entry_fits (topic_subs (b_fanout b) topic @ [(i, sink)]) ?e"
      using fits(1) inc le by (simp add: entry_fits_def)
    have ts: "topic_subs f' t = (if t = topic then topic_subs (b_fanout b) topic @ [(i, sink)]
        else topic_subs (b_fanout b) t)" for t using subscribe_subs [OF f'] by blast
    have st: "topic_store_ok st" "te_name entry = topic"
      using rs(4,5) broker_okD(1) [OF assms(1)] by auto
    have "topic_store_ok (hm_put topic ?e st)"
      using st rs(1) by (auto simp: topic_store_ok_def)
    moreover have "fanout_ok f'" by (rule subscribe_ok [OF broker_okD(2) [OF assms(1)] assms(2) f'])
    moreover have "hm_get st t = None \<longrightarrow> topic_subs (b_fanout b) t = []"
      "hm_get st t = Some e \<longrightarrow> entry_fits (topic_subs (b_fanout b) t) e" for t e
      using fits(2) by (auto simp: broker_ok_def)
    ultimately show ?thesis
      unfolding b' broker_ok_def using fit by (auto simp: ts)
  qed
qed

lemma dec_subscriber_fits:
  assumes "entry_fits l e" "l \<noteq> []" "Suc (length l') = length l"
  shows "entry_fits l' (TopicEntry_dec_subscriber e)"
proof -
  have c: "unat (te_subscriber_count e) = length l" "te_subscriber_count e \<le> tp_max_subscribers (te_profile e)"
    "te_latest_snapshot e = None" using assms(1) by (auto simp: entry_fits_def)
  then have "0 < unat (te_subscriber_count e)" using assms(2) by simp
  then have "unat (te_subscriber_count e - 1) = length l - 1"
    using c(1) unat_sub [of 1 "te_subscriber_count e"] by (simp add: word_le_nat_alt Suc_le_eq)
  then show ?thesis
    using c assms(3) by (simp add: entry_fits_def TopicEntry_dec_subscriber_def word_le_nat_alt) arith
qed

text \<open>Releasing the subscriptions listed in \<open>topics\<close>, one slot each.\<close>

lemma update_get:
  "hm_get (TopicStore_update topic f st) t = (if t = topic then map_option f (hm_get st t) else hm_get st t)"
  by (auto simp: TopicStore_update_def split: option.split)

lemma release_all_get:
  "hm_get (foldl (\<lambda>st topic. TopicStore_update topic TopicEntry_dec_subscriber st) st topics) t
    = map_option (TopicEntry_dec_subscriber ^^ count_list topics t) (hm_get st t)"
proof (induction topics arbitrary: st)
  case (Cons a topics)
  show ?case
    using Cons.IH [of "TopicStore_update a TopicEntry_dec_subscriber st"]
    by (cases "hm_get st t") (auto simp: update_get funpow_swap1)
qed (simp add: option.map_id)

lemma release_all_ok:
  "topic_store_ok st \<Longrightarrow>
    topic_store_ok (foldl (\<lambda>st topic. TopicStore_update topic TopicEntry_dec_subscriber st) st topics)"
proof (induction topics arbitrary: st)
  case (Cons a topics)
  have "topic_store_ok (TopicStore_update a TopicEntry_dec_subscriber st)"
    by (rule topic_store_ok_update [OF Cons.prems]) (simp add: TopicEntry_dec_subscriber_def)
  then show ?case using Cons.IH by simp
qed simp

lemma dec_many_fits:
  "\<lbrakk>entry_fits l e; length l' + n = length l\<rbrakk> \<Longrightarrow> entry_fits l' ((TopicEntry_dec_subscriber ^^ n) e)"
proof (induction n arbitrary: l e)
  case 0
  then show ?case by (simp add: entry_fits_def)
next
  case (Suc n)
  then have "l \<noteq> []" by auto
  then have "entry_fits (tl l) (TopicEntry_dec_subscriber e)"
    using dec_subscriber_fits [OF Suc.prems(1), of "tl l"] by simp
  from Suc.IH [OF this] Suc.prems(2) show ?case by (simp add: funpow_swap1)
qed

lemma unsubscribe_broker_ok:
  assumes "broker_ok b" "InMemoryBroker_unsubscribe i b = (r, b')"
  shows "broker_ok b'"
proof -
  obtain t' f' where u: "FanoutEngine_unsubscribe i (b_fanout b) = (t', f')" by fastforce
  note un = unsubscribe_subs [OF broker_okD(2) [OF assms(1)] u]
  show ?thesis
  proof (cases t')
    case None
    then have "subs (b_fanout b) i = None" "b' = b\<lparr>b_fanout := f'\<rparr>"
      using un(1) assms(2) u by (auto simp: InMemoryBroker_unsubscribe_def)
    moreover have "topic_subs f' t = topic_subs (b_fanout b) t" for t
    proof -
      have "fst p \<noteq> i" if "p \<in> set (topic_subs (b_fanout b) t)" for p
        using that fanout_okD(4) [OF broker_okD(2) [OF assms(1)], of "fst p" "snd p" t] calculation(1) by auto
      then show ?thesis using un(4) by (simp add: filter_id_conv)
    qed
    ultimately show ?thesis using assms(1) un(6) by (simp add: broker_ok_def)
  next
    case (Some topic)
    then obtain k where k: "subs (b_fanout b) i = Some (topic, k)" using un(1) by auto
    have b': "b' = b\<lparr>b_fanout := f', b_store := TopicStore_update topic TopicEntry_dec_subscriber (b_store b)\<rparr>"
      using assms(2) u Some by (simp add: InMemoryBroker_unsubscribe_def)
    note fok = broker_okD(2) [OF assms(1)]
    have other: "topic_subs f' t = topic_subs (b_fanout b) t" if "t \<noteq> topic" for t
    proof -
      have "fst p \<noteq> i" if "p \<in> set (topic_subs (b_fanout b) t)" for p
        using that \<open>t \<noteq> topic\<close> k fanout_okD(4) [OF fok, of "fst p" "snd p" t] by auto
      then show ?thesis using un(4) by (simp add: filter_id_conv)
    qed
    have "(i, k) \<in> set (topic_subs (b_fanout b) topic)" using k fanout_okD(4) [OF fok] by simp
    moreover have "distinct (map fst (topic_subs (b_fanout b) topic))" by (rule fanout_okD(2) [OF fok])
    ultimately have len: "Suc (length (topic_subs f' topic)) = length (topic_subs (b_fanout b) topic)"
      unfolding un(4) using hm_length_del [of "topic_subs (b_fanout b) topic" i k]
      by (simp add: AList.delete_eq case_prod_unfold map_of_eq_Some_iff eq_commute [of i])
    have "topic_store_ok (TopicStore_update topic TopicEntry_dec_subscriber (b_store b))"
      by (rule topic_store_ok_update [OF broker_okD(1) [OF assms(1)]]) (simp add: TopicEntry_dec_subscriber_def)
    moreover have "hm_get (b_store b) topic \<noteq> None" using broker_okD(3) [OF assms(1), of topic] len by (metis list.size(3) nat.distinct(1))
    moreover have "entry_fits (topic_subs f' topic) (TopicEntry_dec_subscriber e)" if "hm_get (b_store b) topic = Some e" for e
      using dec_subscriber_fits [OF broker_okD(4) [OF assms(1) that] _ len] len by force
    ultimately show ?thesis
      unfolding b' broker_ok_def using assms(1) un(6) other
      by (auto simp: update_get broker_ok_def split: if_splits)
  qed
qed

lemma dropped_topics_count:
  assumes "fanout_ok f" "FanoutEngine_drop_sink k f = (topics, f')"
  shows "length (topic_subs f' t) + count_list topics t = length (topic_subs f t)"
proof -
  note d = drop_sink_subs [OF assms] and ok = fanout_okD [OF assms(1)]
  let ?A = "map fst (filter (\<lambda>p. snd p = k) (topic_subs f t))"
  let ?B = "filter (\<lambda>i. fst (the (subs f i)) = t) (sink_subs f k)"
  have "count_list (map g xs) t = length (filter (\<lambda>i. g i = t) xs)" for g :: "SubscriptionId \<Rightarrow> string" and xs
    by (induction xs) auto
  then have "count_list topics t = length ?B" unfolding d(1) by blast
  moreover have "set ?A = set ?B" using ok(4) [of _ k t] ok(5) [of _ k] by force
  moreover have "distinct ?A" "distinct ?B" using ok(2,3) by (simp_all add: distinct_map_filter)
  then have "length ?A = card (set ?A)" "length ?B = card (set ?B)" by (simp_all only: distinct_card)
  ultimately have "count_list topics t = length (filter (\<lambda>p. snd p = k) (topic_subs f t))"
    by (simp only: length_map)
  then show ?thesis
    unfolding d(5) using sum_length_filter_compl [of "\<lambda>p. snd p = k" "topic_subs f t"] by simp
qed

lemma drop_sink_broker_ok:
  assumes "broker_ok b" "InMemoryBroker_drop_sink k b = (n, b')"
  shows "broker_ok b'"
proof -
  obtain topics f' where d: "FanoutEngine_drop_sink k (b_fanout b) = (topics, f')" by fastforce
  note fok = broker_okD(2) [OF assms(1)]
  let ?st = "foldl (\<lambda>st topic. TopicStore_update topic TopicEntry_dec_subscriber st) (b_store b) topics"
  have b': "b' = b\<lparr>b_fanout := f', b_store := ?st\<rparr>"
    using assms(2) d by (simp add: InMemoryBroker_drop_sink_def)
  note len = dropped_topics_count [OF fok d]
  have "topic_subs f' t = []" if "hm_get (b_store b) t = None" for t
    using len [of t] broker_okD(3) [OF assms(1) that] by simp
  moreover have "entry_fits (topic_subs f' t) ((TopicEntry_dec_subscriber ^^ count_list topics t) e)"
    if "hm_get (b_store b) t = Some e" for t e
    by (rule dec_many_fits [OF broker_okD(4) [OF assms(1) that] len])
  ultimately show ?thesis
    unfolding b' broker_ok_def
    using drop_sink_subs(2) [OF fok d] release_all_ok [OF broker_okD(1) [OF assms(1)]]
    by (auto simp: release_all_get)
qed

lemma apply_broker_ok:
  assumes "broker_ok b" "fe_seq (b_fanout b) \<noteq> - 1" "broker_apply ops deliver op (b, w) = (b', w')"
  shows "broker_ok b'"
proof (cases op)
  case (Publish now frame)
  obtain r b1 w1 where p: "InMemoryBroker_publish ops deliver now frame b w = (r, b1, w1)" by (rule prod_cases3)
  then show ?thesis using publish_ok [OF assms(1) p] assms(3) Publish by simp
next
  case (Subscribe topic intent sink)
  obtain r b1 where p: "InMemoryBroker_subscribe topic intent sink b = (r, b1)" by (rule prod.exhaust)
  then show ?thesis using subscribe_broker_ok [OF assms(1,2) p] assms(3) Subscribe by simp
next
  case (Unsubscribe i)
  obtain r b1 where p: "InMemoryBroker_unsubscribe i b = (r, b1)" by (rule prod.exhaust)
  then show ?thesis using unsubscribe_broker_ok [OF assms(1) p] assms(3) Unsubscribe by simp
next
  case (DropSinkOp k)
  obtain r b1 where p: "InMemoryBroker_drop_sink k b = (r, b1)" by (rule prod.exhaust)
  then show ?thesis using drop_sink_broker_ok [OF assms(1) p] assms(3) DropSinkOp by simp
next
  case (DecPublisher topic)
  then have b': "b' = b\<lparr>b_store := TopicStore_update topic TopicEntry_dec_publisher (b_store b)\<rparr>"
    using assms(3) by (simp add: InMemoryBroker_dec_publisher_def)
  have "topic_store_ok (TopicStore_update topic TopicEntry_dec_publisher (b_store b))"
    by (rule topic_store_ok_update [OF broker_okD(1) [OF assms(1)]]) (simp add: TopicEntry_dec_publisher_def)
  then show ?thesis
    using assms(1) unfolding b' broker_ok_def
    by (auto simp: update_get entry_fits_def TopicEntry_dec_publisher_def split: if_splits)
next
  case (Maintain now)
  then have "b' = b\<lparr>b_dedupe := b_dedupe b'\<rparr>"
    using assms(3) by (auto simp: InMemoryBroker_maintain_def split: prod.splits)
  then show ?thesis using assms(1) broker_ok_stores(1) by metis
qed

lemma new_broker_ok: "broker_ok (InMemoryBroker_with_stores p w m offs l d sn)"
proof -
  have "topic_subs FanoutEngine_new t = []" "hm_get TopicStore_new t = None" for t
    by (simp_all add: FanoutEngine_new_def topic_subs_def hm_get_or_def TopicStore_new_def)
  then show ?thesis
    by (simp add: broker_ok_def InMemoryBroker_with_stores_def topic_store_ok_new fanout_ok_new)
qed

lemma reach_broker_ok:
  "broker_reach ops deliver b0 w0 b w \<Longrightarrow> broker_ok b0 \<Longrightarrow> broker_ok b"
  by (induction rule: broker_reach.induct) (auto intro: apply_broker_ok)

end
