(* ===== verification/Sessions.thy ===== *)
theory Sessions
  imports Protocol
begin

text \<open>
  Sessions (\<open>rifts-session/src/session\<close>): the session object, the per-session offset tracker,
  the resume decision, the resume manager and the session store.  The store maps a
  session id to the session; every method of a session is a function on its value.
  Iteration over a \<open>HashMap\<close> follows the list that models it.
\<close>

section \<open>Sessions\<close>

datatype SessionState =
    Open
  | Hello
  | Authenticated
  | Resuming
  | Ready
  | Active
  | Draining
  | Closed

record Session =
  s_id :: string
  s_client_id :: string
  s_epoch :: u32
  s_state :: SessionState
  s_created_at :: i64
  s_last_active :: u64

definition Session_new :: "i64 \<Rightarrow> string \<Rightarrow> string \<Rightarrow> Session" where
  "Session_new now sid client_id =
    \<lparr> s_id = sid, s_client_id = client_id, s_epoch = 1, s_state = SessionState.Open,
      s_created_at = now, s_last_active = word_of_int now \<rparr>"

definition Session_touch :: "i64 \<Rightarrow> Session \<Rightarrow> Session" where
  "Session_touch now s = s\<lparr>s_last_active := word_of_int now\<rparr>"

definition Session_set_state :: "i64 \<Rightarrow> SessionState \<Rightarrow> Session \<Rightarrow> Session" where
  "Session_set_state now st s = Session_touch now (s\<lparr>s_state := st\<rparr>)"

definition Session_bump_epoch :: "Session \<Rightarrow> u32 \<times> Session" where
  "Session_bump_epoch s = (s_epoch s + 1, s\<lparr>s_epoch := s_epoch s + 1\<rparr>)"

definition Session_is_alive :: "Session \<Rightarrow> bool" where
  "Session_is_alive s \<longleftrightarrow> s_state s \<noteq> SessionState.Closed"

text \<open>In milliseconds; \<open>last_active as i64\<close> is the signed reading of the stored word.\<close>

definition Session_idle :: "i64 \<Rightarrow> Session \<Rightarrow> nat" where
  "Session_idle now s = nat (max 0 (wrap_i64 (now - sint (s_last_active s))))"

section \<open>Offset tracker\<close>

definition MAX_TOPICS_PER_SESSION :: nat where "MAX_TOPICS_PER_SESSION = 1024"

type_synonym OffsetTracker = "(string, (string, i64) hmap) hmap"

text \<open>\<open>min_by_key\<close>: the first entry with the least offset.\<close>

fun oldest_topic :: "(string \<times> i64) list \<Rightarrow> (string \<times> i64) option" where
  "oldest_topic [] = None"
| "oldest_topic (kv # kvs) =
    (case oldest_topic kvs of
       None \<Rightarrow> Some kv
     | Some best \<Rightarrow> if snd kv \<le> snd best then Some kv else Some best)"

definition record_topic :: "string \<Rightarrow> i64 \<Rightarrow> (string, i64) hmap \<Rightarrow> (string, i64) hmap" where
  "record_topic topic offset topics =
    (let topics' =
       (if MAX_TOPICS_PER_SESSION \<le> length topics \<and> hm_get topics topic = None
        then case oldest_topic topics of
               Some oldest \<Rightarrow> hm_del (fst oldest) topics
             | None \<Rightarrow> topics
        else topics)
     in hm_put topic offset topics')"

definition OffsetTracker_record :: "string \<Rightarrow> string \<Rightarrow> i64 \<Rightarrow> OffsetTracker \<Rightarrow> OffsetTracker" where
  "OffsetTracker_record session topic offset g =
    hm_put session (record_topic topic offset (hm_get_or [] g session)) g"

definition OffsetTracker_get :: "string \<Rightarrow> string \<Rightarrow> OffsetTracker \<Rightarrow> i64 option" where
  "OffsetTracker_get session topic g = Option.bind (hm_get g session) (\<lambda>m. hm_get m topic)"

definition OffsetTracker_snapshot :: "string \<Rightarrow> OffsetTracker \<Rightarrow> (string, i64) hmap" where
  "OffsetTracker_snapshot session g = hm_get_or [] g session"

definition OffsetTracker_forget :: "string \<Rightarrow> OffsetTracker \<Rightarrow> OffsetTracker" where
  "OffsetTracker_forget session g = hm_del session g"

section \<open>Resume decision\<close>

datatype ResumeDecision =
    FullResume
  | PartialResume
  | Replaying
  | SnapshotRequired
  | ColdStart
  | Rejected

text \<open>The loop over the client's offsets with its two flags; \<open>Inl\<close> is an early return.\<close>

fun decide_loop ::
  "(string, i64) hmap \<Rightarrow> bool \<Rightarrow> bool \<Rightarrow> (string \<times> i64) list \<Rightarrow> ResumeDecision + bool \<times> bool" where
  "decide_loop topic_offsets all_within any_behind [] = Inr (all_within, any_behind)"
| "decide_loop topic_offsets all_within any_behind ((topic, last_off) # rest) =
    (case hm_get topic_offsets topic of
       None \<Rightarrow> Inl ResumeDecision.SnapshotRequired
     | Some head \<Rightarrow>
         if head < last_off then Inl ResumeDecision.Rejected
         else decide_loop topic_offsets
                (all_within \<and> \<not> last_off < sat_i64 (head - 1))
                (any_behind \<or> last_off < head) rest)"

definition decide :: "(string, i64) hmap \<Rightarrow> (string, i64) hmap \<Rightarrow> ResumeDecision" where
  "decide last_offsets topic_offsets =
    (if last_offsets = [] then ResumeDecision.ColdStart
     else case decide_loop topic_offsets True False last_offsets of
            Inl d \<Rightarrow> d
          | Inr (all_within, any_behind) \<Rightarrow>
              if any_behind \<and> all_within then ResumeDecision.Replaying
              else if any_behind then ResumeDecision.PartialResume
              else ResumeDecision.FullResume)"

section \<open>Resume manager\<close>

definition ResumeManager_evaluate ::
  "Session \<Rightarrow> (string, i64) hmap \<Rightarrow> (string, i64) hmap \<Rightarrow> ResumeDecision rift_result" where
  "ResumeManager_evaluate session last_offsets topic_offsets =
    (if \<not> Session_is_alive session then Inl (RiftError.Session SessionReject.Expired)
     else Inr (decide last_offsets topic_offsets))"

definition ResumeManager_topic_offsets :: "TopicStore \<Rightarrow> string list \<Rightarrow> (string, i64) hmap" where
  "ResumeManager_topic_offsets store topics =
    foldl (\<lambda>out t. case TopicStore_get t store of
                     Some entry \<Rightarrow> hm_put t (TopicEntry_head_offset entry) out
                   | None \<Rightarrow> out) [] topics"

section \<open>Session store\<close>

record SessionStore =
  st_inner :: "(string, Session) hmap"
  st_offset_tracker :: OffsetTracker

definition SessionStore_new :: SessionStore where
  "SessionStore_new = \<lparr> st_inner = [], st_offset_tracker = [] \<rparr>"

definition SessionStore_get :: "string \<Rightarrow> SessionStore \<Rightarrow> Session option" where
  "SessionStore_get session_id st = hm_get (st_inner st) session_id"

definition SessionStore_insert :: "Session \<Rightarrow> SessionStore \<Rightarrow> Session option \<times> SessionStore" where
  "SessionStore_insert session st =
    (let old = hm_get (st_inner st) (s_id session);
         st' = st\<lparr>st_inner := hm_put (s_id session) session (st_inner st)\<rparr>
     in (old, case old of
                Some prev \<Rightarrow> st'\<lparr>st_offset_tracker := OffsetTracker_forget (s_id prev) (st_offset_tracker st')\<rparr>
              | None \<Rightarrow> st'))"

definition SessionStore_remove :: "string \<Rightarrow> SessionStore \<Rightarrow> bool \<times> SessionStore" where
  "SessionStore_remove session_id st =
    (hm_get (st_inner st) session_id \<noteq> None,
     \<lparr> st_inner = hm_del session_id (st_inner st),
       st_offset_tracker = OffsetTracker_forget session_id (st_offset_tracker st) \<rparr>)"

definition SessionStore_len :: "SessionStore \<Rightarrow> nat" where
  "SessionStore_len st = length (st_inner st)"

definition session_expired :: "i64 \<Rightarrow> nat \<Rightarrow> Session \<Rightarrow> bool" where
  "session_expired now idle_timeout session =
    (case s_state session of
       SessionState.Closed \<Rightarrow> True
     | SessionState.Draining \<Rightarrow> True
     | _ \<Rightarrow> idle_timeout < Session_idle now session)"

definition SessionStore_expire_sessions :: "i64 \<Rightarrow> nat \<Rightarrow> SessionStore \<Rightarrow> nat \<times> SessionStore" where
  "SessionStore_expire_sessions now idle_timeout st =
    (let expired = map fst (filter (\<lambda>p. session_expired now idle_timeout (snd p)) (st_inner st))
     in (length expired, foldl (\<lambda>st sid. snd (SessionStore_remove sid st)) st expired))"

text \<open>A change of a session through its shared handle.\<close>

definition SessionStore_update :: "string \<Rightarrow> (Session \<Rightarrow> Session) \<Rightarrow> SessionStore \<Rightarrow> SessionStore" where
  "SessionStore_update sid f st =
    (case hm_get (st_inner st) sid of
       None \<Rightarrow> st
     | Some s \<Rightarrow> st\<lparr>st_inner := hm_put sid (f s) (st_inner st)\<rparr>)"

section \<open>Invariants\<close>

text \<open>Sessions are stored under their id; the tracker holds offsets within its bound.\<close>

definition tracker_ok :: "OffsetTracker \<Rightarrow> bool" where
  "tracker_ok g \<longleftrightarrow> hm_wf g \<and> (\<forall>s m. hm_get g s = Some m \<longrightarrow> hm_wf m \<and> length m \<le> MAX_TOPICS_PER_SESSION)"

definition session_store_ok :: "SessionStore \<Rightarrow> bool" where
  "session_store_ok st \<longleftrightarrow> hm_wf (st_inner st) \<and> tracker_ok (st_offset_tracker st)
    \<and> (\<forall>sid s. hm_get (st_inner st) sid = Some s \<longrightarrow> s_id s = sid)"

lemma Session_fields [simp]:
  "s_id (Session_touch now s) = s_id s" "s_state (Session_touch now s) = s_state s"
  "s_epoch (Session_touch now s) = s_epoch s"
  "s_id (Session_set_state now st s) = s_id s" "s_state (Session_set_state now st s) = st"
  "s_epoch (Session_set_state now st s) = s_epoch s"
  by (simp_all add: Session_touch_def Session_set_state_def)

lemma idle_after_touch: "i64_ok now \<Longrightarrow> Session_idle now (Session_touch now s) = 0"
  by (simp add: Session_idle_def Session_touch_def i64_defs signed_of_int signed_take_bit_int_eq_self)

lemma oldest_topic_Some:
  "kvs \<noteq> [] \<Longrightarrow> \<exists>kv. oldest_topic kvs = Some kv \<and> kv \<in> set kvs \<and> (\<forall>x \<in> set kvs. snd kv \<le> snd x)"
proof (induction kvs)
  case (Cons kv kvs)
  show ?case
  proof (cases "kvs = []")
    case False
    then obtain b where "oldest_topic kvs = Some b" "b \<in> set kvs" "\<forall>x \<in> set kvs. snd b \<le> snd x"
      using Cons.IH by blast
    then show ?thesis by (cases "snd kv \<le> snd b") force+
  qed simp
qed simp

lemma record_topic_ok:
  assumes "hm_wf m" "length m \<le> MAX_TOPICS_PER_SESSION"
  shows "hm_wf (record_topic t off m)" "length (record_topic t off m) \<le> MAX_TOPICS_PER_SESSION"
    "hm_get (record_topic t off m) t = Some off"
proof -
  show "hm_wf (record_topic t off m)" "hm_get (record_topic t off m) t = Some off"
    using assms by (simp_all add: record_topic_def Let_def split: option.split)
  show "length (record_topic t off m) \<le> MAX_TOPICS_PER_SESSION"
  proof (cases "MAX_TOPICS_PER_SESSION \<le> length m \<and> hm_get m t = None")
    case True
    then have "m \<noteq> []" by (auto simp: MAX_TOPICS_PER_SESSION_def)
    then obtain kv where kv: "oldest_topic m = Some kv" "kv \<in> set m" using oldest_topic_Some by blast
    have "hm_get m (fst kv) = Some (snd kv)" using kv(2) assms(1) by (simp add: map_of_eq_Some_iff)
    then have "Suc (length (hm_del (fst kv) m)) = length m" using hm_length_del assms(1) by metis
    then show ?thesis
      using True kv(1) assms(2) by (simp add: record_topic_def Let_def hm_length_put)
  next
    case False
    then show ?thesis
      using assms(2) by (auto simp: record_topic_def Let_def hm_length_put map_of_eq_None_iff)
  qed
qed

lemma OffsetTracker_record_ok [keeps]: "tracker_ok g \<Longrightarrow> tracker_ok (OffsetTracker_record s t off g)"
proof -
  assume g: "tracker_ok g"
  have "hm_wf (hm_get_or [] g s) \<and> length (hm_get_or [] g s) \<le> MAX_TOPICS_PER_SESSION"
    using g by (auto simp: tracker_ok_def hm_get_or_def split: option.split)
  then show ?thesis
    using g record_topic_ok [of "hm_get_or [] g s" t off] by (auto simp: tracker_ok_def OffsetTracker_record_def)
qed

lemma OffsetTracker_forget_ok [keeps]: "tracker_ok g \<Longrightarrow> tracker_ok (OffsetTracker_forget s g)"
  by (auto simp: tracker_ok_def OffsetTracker_forget_def)

lemma SessionStore_insert_ok [keeps]:
  "session_store_ok st \<Longrightarrow> session_store_ok (snd (SessionStore_insert s st))"
  by (auto simp: session_store_ok_def SessionStore_insert_def Let_def OffsetTracker_forget_ok split: option.split)

lemma SessionStore_remove_ok [keeps]:
  "session_store_ok st \<Longrightarrow> session_store_ok (snd (SessionStore_remove sid st))"
  by (auto simp: session_store_ok_def SessionStore_remove_def OffsetTracker_forget_ok)

lemma SessionStore_update_ok [keeps]:
  "session_store_ok st \<Longrightarrow> (\<And>s. s_id (f s) = s_id s) \<Longrightarrow> session_store_ok (SessionStore_update sid f st)"
  by (auto simp: session_store_ok_def SessionStore_update_def split: option.split)

lemma remove_all:
  "foldl (\<lambda>st sid. snd (SessionStore_remove sid st)) st ids =
    \<lparr> st_inner = hm_del_all ids (st_inner st), st_offset_tracker = hm_del_all ids (st_offset_tracker st) \<rparr>"
  by (induction ids arbitrary: st)
     (simp_all add: hm_del_all_def SessionStore_remove_def OffsetTracker_forget_def)

section \<open>The resume decision\<close>

text \<open>One client offset against the server's heads.\<close>

definition offset_bad :: "(string, i64) hmap \<Rightarrow> string \<times> i64 \<Rightarrow> bool" where
  "offset_bad heads kv = (case hm_get heads (fst kv) of None \<Rightarrow> True | Some head \<Rightarrow> head < snd kv)"

definition offset_gap :: "(string, i64) hmap \<Rightarrow> string \<times> i64 \<Rightarrow> int" where
  "offset_gap heads kv = (case hm_get heads (fst kv) of None \<Rightarrow> 0 | Some head \<Rightarrow> head - snd kv)"

lemma decide_loop_good:
  assumes "\<forall>kv \<in> set kvs. \<not> offset_bad heads kv"
    and "\<forall>kv \<in> set kvs. i64_ok (snd kv)" "\<forall>t h. hm_get heads t = Some h \<longrightarrow> i64_ok h"
  shows "decide_loop heads w b kvs =
    Inr (w \<and> (\<forall>kv \<in> set kvs. offset_gap heads kv \<le> 1), b \<or> (\<exists>kv \<in> set kvs. 0 < offset_gap heads kv))"
  using assms(1,2)
proof (induction kvs arbitrary: w b)
  case (Cons kv kvs)
  obtain t l where kv: "kv = (t, l)" by (cases kv)
  obtain h where h: "hm_get heads t = Some h" "l \<le> h"
    using Cons.prems(1) kv by (auto simp: offset_bad_def split: option.splits)
  have "i64_ok h" "i64_ok l" using assms(3) h(1) Cons.prems(2) kv by auto
  then have "l < sat_i64 (h - 1) \<longleftrightarrow> 1 < h - l" by (auto simp: i64_defs)
  with Cons.IH [of "w \<and> \<not> l < sat_i64 (h - 1)" "b \<or> l < h"] Cons.prems kv h
  show ?case by (auto simp: offset_gap_def)
qed simp

lemma decide_loop_bad:
  "(\<exists>d. decide_loop heads w b kvs = Inl d) \<longleftrightarrow> (\<exists>kv \<in> set kvs. offset_bad heads kv)"
proof (induction kvs arbitrary: w b)
  case (Cons kv kvs)
  obtain t l where kv: "kv = (t, l)" by (cases kv)
  show ?case
  proof (cases "offset_bad heads kv")
    case True
    then show ?thesis by (cases "hm_get heads t") (simp_all add: kv offset_bad_def)
  next
    case False
    then obtain h where "hm_get heads t = Some h" "\<not> h < l"
      using kv by (auto simp: offset_bad_def split: option.splits)
    with False show ?thesis using Cons.IH by (simp add: kv)
  qed
qed simp

lemma decide_loop_Inl:
  "decide_loop heads w b kvs = Inl d \<Longrightarrow> d = ResumeDecision.SnapshotRequired \<or> d = ResumeDecision.Rejected"
  by (induction heads w b kvs rule: decide_loop.induct) (auto split: option.splits if_splits)

section \<open>Properties\<close>



text \<open>The decision depends on the iteration order of the client's map when it holds both
  an unknown topic and an offset ahead of the head: the two orders of the same map
  give different answers.\<close>

lemma decide_order_dependent:
  assumes "hm_get heads a = None" "hm_get heads b = Some h" "h < l"
  shows "decide [(a, x), (b, l)] heads = ResumeDecision.SnapshotRequired
    \<and> decide [(b, l), (a, x)] heads = ResumeDecision.Rejected"
  using assms by (simp add: decide_def)

lemma decide_order_dependent_witness:
  "decide [(''a'', 1), (''b'', 9)] [(''b'', 4)] = ResumeDecision.SnapshotRequired
    \<and> decide [(''b'', 9), (''a'', 1)] [(''b'', 4)] = ResumeDecision.Rejected"
  using decide_order_dependent [of "[(''b'', 4)]" "''a''" "''b''" 4 9 1] by simp

text \<open>Session expiry is exact: the sweep removes precisely the sessions that are closed,
  draining or idle for longer than the timeout, together with their tracked
  offsets; every other session and its offsets stay, and the count is the number removed.\<close>

theorem expire_sessions_exact:
  assumes "session_store_ok st" and "SessionStore_expire_sessions now idle_timeout st = (n, st')"
  shows "session_store_ok st'
    \<and> n = length (filter (\<lambda>p. session_expired now idle_timeout (snd p)) (st_inner st))
    \<and> SessionStore_get sid st' = (case SessionStore_get sid st of
          None \<Rightarrow> None
        | Some s \<Rightarrow> if session_expired now idle_timeout s then None else Some s)
    \<and> (SessionStore_get sid st \<noteq> None \<longrightarrow> OffsetTracker_snapshot sid (st_offset_tracker st') =
          (if SessionStore_get sid st' = None then [] else OffsetTracker_snapshot sid (st_offset_tracker st)))"
proof -
  let ?P = "\<lambda>p. session_expired now idle_timeout (snd p)"
  let ?ids = "map fst (filter ?P (st_inner st))"
  have wf: "hm_wf (st_inner st)" "hm_wf (st_offset_tracker st)"
    using assms(1) by (auto simp: session_store_ok_def tracker_ok_def)
  have st': "n = length ?ids" "st' = \<lparr> st_inner = hm_del_all ?ids (st_inner st),
      st_offset_tracker = hm_del_all ?ids (st_offset_tracker st) \<rparr>"
    using assms(2) by (auto simp: SessionStore_expire_sessions_def Let_def remove_all)
  have inner: "st_inner st' = filter (\<lambda>p. \<not> ?P p) (st_inner st)"
    unfolding st'(2) by (simp add: hm_del_all_filter_keys [OF wf(1), of ?P])
  have get: "SessionStore_get sid st' = (case SessionStore_get sid st of None \<Rightarrow> None
      | Some s \<Rightarrow> if session_expired now idle_timeout s then None else Some s)"
    unfolding SessionStore_get_def inner by (simp add: hm_get_filter [OF wf(1)] split: option.split)
  have mem: "sid \<in> set ?ids \<longleftrightarrow> (\<exists>s. SessionStore_get sid st = Some s \<and> session_expired now idle_timeout s)"
    using wf(1) by (force simp: SessionStore_get_def image_iff map_of_eq_Some_iff)
  have tr: "hm_get (st_offset_tracker st') sid = (if sid \<in> set ?ids then None else hm_get (st_offset_tracker st) sid)"
    unfolding st'(2) using hm_get_del_all [OF wf(2), of ?ids sid] by simp
  have "SessionStore_get sid st \<noteq> None \<Longrightarrow> OffsetTracker_snapshot sid (st_offset_tracker st') =
      (if SessionStore_get sid st' = None then [] else OffsetTracker_snapshot sid (st_offset_tracker st))"
    unfolding OffsetTracker_snapshot_def hm_get_or_def tr mem get by (auto split: option.split)
  moreover have "session_store_ok st'"
    using assms(1) wf unfolding st'(2)
    by (auto simp: session_store_ok_def tracker_ok_def simp del: map_map split: if_splits)
  ultimately show ?thesis using st'(1) get by simp
qed

theorem expire_sessions_exact_witness:
  "SessionStore_get ''s'' (snd (SessionStore_expire_sessions 1000 10
      (snd (SessionStore_insert (Session_new 0 ''s'' ''c'') SessionStore_new)))) = None"
proof -
  define st where "st = snd (SessionStore_insert (Session_new 0 ''s'' ''c'') SessionStore_new)"
  have ok: "session_store_ok st"
    unfolding st_def by (rule SessionStore_insert_ok) (simp add: session_store_ok_def SessionStore_new_def tracker_ok_def)
  obtain n st' where e: "SessionStore_expire_sessions 1000 10 st = (n, st')" by fastforce
  have "SessionStore_get ''s'' st = Some (Session_new 0 ''s'' ''c'')"
    by (simp add: st_def SessionStore_get_def SessionStore_insert_def SessionStore_new_def Session_new_def)
  then have "SessionStore_get ''s'' st' = None"
    using expire_sessions_exact [OF ok e, of "''s''"]
    by (simp add: session_expired_def Session_idle_def Session_new_def i64_defs)
  then show ?thesis using e by (simp add: st_def)
qed

text \<open>The offset tracker is bounded and exact for its newest record: every session keeps at
  most 1024 topics; a recorded offset is read back; another topic's offset
  of the session is kept, unless the session was full and this topic was new, in
  which case at most the one evicted topic, of least offset, is lost; other sessions
  are untouched.\<close>

lemma tracker_record_bounded:
  assumes "tracker_ok g"
  shows "tracker_ok (OffsetTracker_record s t off g)
    \<and> OffsetTracker_get s t (OffsetTracker_record s t off g) = Some off
    \<and> (\<forall>s' t'. s' \<noteq> s \<longrightarrow> OffsetTracker_get s' t' (OffsetTracker_record s t off g) = OffsetTracker_get s' t' g)
    \<and> (\<exists>v. \<forall>t'. t' \<noteq> t \<longrightarrow> t' \<noteq> v \<longrightarrow>
          OffsetTracker_get s t' (OffsetTracker_record s t off g) = OffsetTracker_get s t' g)
    \<and> (\<forall>t'. t' \<noteq> t \<longrightarrow> OffsetTracker_get s t' (OffsetTracker_record s t off g) \<noteq> OffsetTracker_get s t' g \<longrightarrow>
          length (OffsetTracker_snapshot s g) = MAX_TOPICS_PER_SESSION \<and> OffsetTracker_get s t g = None
          \<and> (\<forall>u o' o''. OffsetTracker_get s t' g = Some o' \<longrightarrow> OffsetTracker_get s u g = Some o'' \<longrightarrow> o' \<le> o''))"
proof -
  define m where "m = hm_get_or [] g s"
  have m: "hm_wf m" "length m \<le> MAX_TOPICS_PER_SESSION"
    using assms by (auto simp: m_def tracker_ok_def hm_get_or_def split: option.split)
  have old: "OffsetTracker_get s t' g = hm_get m t'" for t'
    by (simp add: OffsetTracker_get_def m_def hm_get_or_def split: option.split)
  have new: "OffsetTracker_get s t' (OffsetTracker_record s t off g) = hm_get (record_topic t off m) t'" for t'
    by (simp add: OffsetTracker_get_def OffsetTracker_record_def m_def)
  have ev: "hm_get (record_topic t off m) t' = (if t' = t then Some off
      else if MAX_TOPICS_PER_SESSION \<le> length m \<and> hm_get m t = None \<and> Some t' = map_option fst (oldest_topic m)
           then None else hm_get m t')" for t'
    by (auto simp: record_topic_def Let_def split: option.split)
  have least: "o' \<le> o''" if "oldest_topic m = Some kv" "hm_get m (fst kv) = Some o'" "hm_get m u = Some o''" for kv o' o'' u
  proof -
    have "m \<noteq> []" using that(3) by auto
    then have "kv \<in> set m" "\<forall>x \<in> set m. snd kv \<le> snd x" using oldest_topic_Some [of m] that(1) by auto
    moreover have "(u, o'') \<in> set m" using that(3) m(1) by (simp add: map_of_eq_Some_iff)
    moreover have "hm_get m (fst kv) = Some (snd kv)"
      using m(1) \<open>kv \<in> set m\<close> by (simp add: map_of_eq_Some_iff)
    ultimately show ?thesis using that(2) by force
  qed
  have one: "\<exists>v. \<forall>t'. t' \<noteq> t \<longrightarrow> t' \<noteq> v \<longrightarrow> hm_get (record_topic t off m) t' = hm_get m t'"
    by (cases "oldest_topic m") (auto simp: ev)
  have lost: "length m = MAX_TOPICS_PER_SESSION \<and> hm_get m t = None
      \<and> (\<forall>u o' o''. hm_get m t' = Some o' \<longrightarrow> hm_get m u = Some o'' \<longrightarrow> o' \<le> o'')"
    if "t' \<noteq> t" "hm_get (record_topic t off m) t' \<noteq> hm_get m t'" for t'
    using that m(2) by (cases "oldest_topic m") (auto simp: ev split: if_splits intro: least)
  show ?thesis
    unfolding old new OffsetTracker_snapshot_def m_def [symmetric]
    using OffsetTracker_record_ok [OF assms, of s t off] record_topic_ok(3) [OF m, of t off] one lost
    by (auto simp: OffsetTracker_get_def OffsetTracker_record_def)
qed

lemma tracker_record_bounded_witness:
  "OffsetTracker_get ''s'' ''a'' (OffsetTracker_record ''s'' ''a'' 7 []) = Some 7"
  using tracker_record_bounded [of "[]" "''s''" "''a''" 7] by (simp add: tracker_ok_def)

end
