(* ===== verification/Auth.thy ===== *)
theory Auth
  imports Protocol
begin

text \<open>
  Authentication (\<open>rifts-session/src/session/auth.rs\<close>): the provider trait, the in-memory token
  provider with its reverse index, and the accept-all provider.  The random
  suffix of an anonymous client id (\<open>ulid\<close>) is an argument.
\<close>

record AuthHints =
  ah_region :: "string option"
  ah_device :: "string option"
  ah_risk :: "u32 option"

definition AuthHints_default :: AuthHints where
  "AuthHints_default = \<lparr> ah_region = None, ah_device = None, ah_risk = None \<rparr>"

record AuthContext =
  ac_client_id :: string
  ac_claims :: json
  ac_mode :: AuthMode
  ac_hints :: AuthHints

text \<open>The trait: \<open>authenticate\<close>, \<open>revoke\<close> and \<open>supported_modes\<close> of a provider with state \<open>'a\<close>.\<close>

record 'a AuthProvider =
  ap_authenticate :: "AuthMode \<Rightarrow> string option \<Rightarrow> 'a \<Rightarrow> AuthContext rift_result"
  ap_revoke :: "string \<Rightarrow> 'a \<Rightarrow> unit rift_result \<times> 'a"
  ap_supported_modes :: "AuthMode list"

definition default_modes :: "AuthMode list" where
  "default_modes = [AuthMode.Bearer, AuthMode.Anonymous]"

section \<open>The token provider\<close>

record TokenAuth =
  ta_tokens :: "(string, AuthContext) hmap"
  ta_by_client :: "(string, string list) hmap"

definition TokenAuth_new :: TokenAuth where
  "TokenAuth_new = \<lparr> ta_tokens = [], ta_by_client = [] \<rparr>"

text \<open>A \<open>HashSet\<close> of tokens is a list without repetition.\<close>

definition TokenAuth_register :: "string \<Rightarrow> AuthContext \<Rightarrow> TokenAuth \<Rightarrow> TokenAuth" where
  "TokenAuth_register token ctx a =
    (let client_id = ac_client_id ctx;
         inserted = (hm_get (ta_tokens a) token = None);
         a' = a\<lparr>ta_tokens := hm_put token ctx (ta_tokens a)\<rparr>
     in if inserted
        then a'\<lparr>ta_by_client := hm_put client_id
                 (List.insert token (hm_get_or [] (ta_by_client a) client_id)) (ta_by_client a)\<rparr>
        else a')"

definition TokenAuth_authenticate ::
  "string \<Rightarrow> AuthMode \<Rightarrow> string option \<Rightarrow> TokenAuth \<Rightarrow> AuthContext rift_result" where
  "TokenAuth_authenticate rand_suffix mode token a =
    (if mode = AuthMode.Anonymous
     then Inr \<lparr> ac_client_id = ''anon-'' @ rand_suffix, ac_claims = JObject [], ac_mode = mode,
                ac_hints = AuthHints_default \<rparr>
     else case token of
            None \<Rightarrow> Inl (RiftError.Auth AuthReject.Required)
          | Some tok \<Rightarrow>
              (case hm_get (ta_tokens a) tok of
                 Some ctx \<Rightarrow> Inr ctx
               | None \<Rightarrow> Inl (RiftError.Auth (AuthReject.Invalid ''unknown token''))))"

definition TokenAuth_revoke :: "string \<Rightarrow> TokenAuth \<Rightarrow> unit rift_result \<times> TokenAuth" where
  "TokenAuth_revoke client_id a =
    (let tokens = hm_get_or [] (ta_by_client a) client_id
     in (Inr (), \<lparr> ta_tokens = hm_del_all tokens (ta_tokens a),
                   ta_by_client = hm_del client_id (ta_by_client a) \<rparr>))"

definition TokenAuth_provider :: "string \<Rightarrow> TokenAuth AuthProvider" where
  "TokenAuth_provider rand_suffix =
    \<lparr> ap_authenticate = TokenAuth_authenticate rand_suffix, ap_revoke = TokenAuth_revoke,
      ap_supported_modes = default_modes \<rparr>"

section \<open>The accept-all provider\<close>

definition AllowAllAuth_authenticate :: "AuthMode \<Rightarrow> string option \<Rightarrow> unit \<Rightarrow> AuthContext rift_result" where
  "AllowAllAuth_authenticate mode token a =
    Inr \<lparr> ac_client_id = ''anonymous'', ac_claims = JObject [], ac_mode = AuthMode.Anonymous,
          ac_hints = AuthHints_default \<rparr>"

definition AllowAllAuth_revoke :: "string \<Rightarrow> unit \<Rightarrow> unit rift_result \<times> unit" where
  "AllowAllAuth_revoke client_id a = (Inr (), ())"

definition AllowAllAuth_provider :: "unit AuthProvider" where
  "AllowAllAuth_provider =
    \<lparr> ap_authenticate = AllowAllAuth_authenticate, ap_revoke = AllowAllAuth_revoke,
      ap_supported_modes = default_modes \<rparr>"

section \<open>The index\<close>

text \<open>The reverse index lists, for each client, exactly the tokens that authenticate it.\<close>

definition token_index_ok :: "TokenAuth \<Rightarrow> bool" where
  "token_index_ok a \<longleftrightarrow> hm_wf (ta_tokens a) \<and> hm_wf (ta_by_client a)
    \<and> (\<forall>c tok. tok \<in> set (hm_get_or [] (ta_by_client a) c) \<longleftrightarrow>
         (\<exists>ctx. hm_get (ta_tokens a) tok = Some ctx \<and> ac_client_id ctx = c))"

text \<open>A registration is consistent when the token is new or stays with its client.\<close>

definition register_ok :: "string \<Rightarrow> AuthContext \<Rightarrow> TokenAuth \<Rightarrow> bool" where
  "register_ok tok ctx a \<longleftrightarrow>
    (case hm_get (ta_tokens a) tok of None \<Rightarrow> True | Some old \<Rightarrow> ac_client_id old = ac_client_id ctx)"

lemma register_index:
  "token_index_ok a \<Longrightarrow> register_ok tok ctx a \<Longrightarrow> token_index_ok (TokenAuth_register tok ctx a)"
  unfolding token_index_ok_def register_ok_def TokenAuth_register_def Let_def hm_get_or_def
  by (cases "hm_get (ta_tokens a) tok") (auto split: option.splits if_splits)

lemma revoke_index: "token_index_ok a \<Longrightarrow> token_index_ok (snd (TokenAuth_revoke c a))"
  unfolding token_index_ok_def TokenAuth_revoke_def Let_def hm_get_or_def
  by (auto split: option.splits if_splits)

definition bearer_ctx :: "string \<Rightarrow> AuthContext" where
  "bearer_ctx c = \<lparr> ac_client_id = c, ac_claims = JNull, ac_mode = AuthMode.Bearer, ac_hints = AuthHints_default \<rparr>"

section \<open>Properties\<close>

text \<open>Revocation is complete and precise: after revoking a client, a token authenticates
  exactly when it did before and belonged to another client, with the same context;
  the index invariant holds again, so this is true after any sequence of consistent
  registrations and revocations.\<close>

theorem revoke_exact:
  assumes "token_index_ok a" and "mode \<noteq> AuthMode.Anonymous"
  shows "token_index_ok (snd (TokenAuth_revoke c a))
    \<and> (TokenAuth_authenticate r mode (Some tok) (snd (TokenAuth_revoke c a)) = Inr ctx \<longleftrightarrow>
         TokenAuth_authenticate r mode (Some tok) a = Inr ctx \<and> ac_client_id ctx \<noteq> c)"
proof -
  have idx: "tok \<in> set (hm_get_or [] (ta_by_client a) c) \<longleftrightarrow>
      (\<exists>ctx. hm_get (ta_tokens a) tok = Some ctx \<and> ac_client_id ctx = c)" and wf: "hm_wf (ta_tokens a)"
    using assms(1) by (auto simp: token_index_ok_def)
  have "hm_get (ta_tokens (snd (TokenAuth_revoke c a))) tok =
      (if tok \<in> set (hm_get_or [] (ta_by_client a) c) then None else hm_get (ta_tokens a) tok)"
    by (simp add: TokenAuth_revoke_def Let_def hm_get_del_all [OF wf])
  then show ?thesis
    using revoke_index [OF assms(1)] assms(2) idx
    by (auto simp: TokenAuth_authenticate_def split: option.splits)
qed

theorem revoke_exact_witness:
  "TokenAuth_authenticate ''r'' AuthMode.Bearer (Some ''tok'')
      (snd (TokenAuth_revoke ''c'' (TokenAuth_register ''tok'' (bearer_ctx ''c'') TokenAuth_new)))
    \<noteq> Inr (bearer_ctx ''c'')"
proof -
  let ?a = "TokenAuth_register ''tok'' (bearer_ctx ''c'') TokenAuth_new"
  have "token_index_ok ?a"
    by (rule register_index) (simp_all add: token_index_ok_def TokenAuth_new_def hm_get_or_def register_ok_def)
  from conjunct2 [OF revoke_exact [OF this, of AuthMode.Bearer "''c''" "''r''" "''tok''" "bearer_ctx ''c''"]]
  show ?thesis by (simp add: bearer_ctx_def)
qed

text \<open>A token that is registered again for a different client escapes revocation: the
  reverse index still files it under the old client, so revoking the new
  client leaves the token valid.\<close>

lemma reregistered_token_survives_revoke:
  assumes "mode \<noteq> AuthMode.Anonymous" "ac_client_id ctx1 \<noteq> ac_client_id ctx2"
  shows "TokenAuth_authenticate r mode (Some tok)
    (snd (TokenAuth_revoke (ac_client_id ctx2)
      (TokenAuth_register tok ctx2 (TokenAuth_register tok ctx1 TokenAuth_new)))) = Inr ctx2"
  using assms by (simp add: TokenAuth_authenticate_def TokenAuth_revoke_def TokenAuth_register_def
      TokenAuth_new_def Let_def hm_get_or_def hm_del_all_def)

lemma reregistered_token_survives_revoke_witness:
  "TokenAuth_authenticate ''r'' AuthMode.Bearer (Some ''tok'')
    (snd (TokenAuth_revoke ''new'' (TokenAuth_register ''tok'' (bearer_ctx ''new'')
      (TokenAuth_register ''tok'' (bearer_ctx ''old'') TokenAuth_new)))) = Inr (bearer_ctx ''new'')"
  using reregistered_token_survives_revoke [of AuthMode.Bearer "bearer_ctx ''old''" "bearer_ctx ''new''" "''r''" "''tok''"]
  by (simp add: bearer_ctx_def)

end
