(* ===== verification/Ack_Manager.thy ===== *)
theory Ack_Manager
  imports Frames
begin

text \<open>
  Acknowledgements (\<open>rifts-core/src/ack/mod.rs\<close>): statuses, policies, the ack payload and
  the per-session tracker of outstanding messages.  The clock \<open>now_ms()\<close> and the
  generated ack id are arguments; a method runs under the manager's mutex, so it
  is one state transformer.
\<close>

section \<open>Acks\<close>

datatype AckStatus =
    Received | Accepted | Persisted | Delivered | Processed | Rejected | Expired | Duplicate | Failed

primrec AckStatus_as_str :: "AckStatus \<Rightarrow> string" where
  "AckStatus_as_str AckStatus.Received = ''received''"
| "AckStatus_as_str AckStatus.Accepted = ''accepted''"
| "AckStatus_as_str AckStatus.Persisted = ''persisted''"
| "AckStatus_as_str AckStatus.Delivered = ''delivered''"
| "AckStatus_as_str AckStatus.Processed = ''processed''"
| "AckStatus_as_str AckStatus.Rejected = ''rejected''"
| "AckStatus_as_str AckStatus.Expired = ''expired''"
| "AckStatus_as_str AckStatus.Duplicate = ''duplicate''"
| "AckStatus_as_str AckStatus.Failed = ''failed''"

datatype AckPolicy = NoAck | Server | Persisted | Quorum | Subscriber | Application

record Ack =
  ack_id :: string
  ack_message_id :: string
  ack_status :: AckStatus
  ack_offset :: "i64 option"
  ack_reason :: "string option"
  ack_error_code :: "string option"
  ack_retry_after_ms :: "u32 option"
  ack_server_time :: i64

definition Ack_new :: "string \<Rightarrow> i64 \<Rightarrow> string \<Rightarrow> AckStatus \<Rightarrow> Ack" where
  "Ack_new uuid now mid status =
    \<lparr> ack_id = uuid, ack_message_id = mid, ack_status = status, ack_offset = None,
      ack_reason = None, ack_error_code = None, ack_retry_after_ms = None,
      ack_server_time = now \<rparr>"

definition Ack_with_offset :: "i64 \<Rightarrow> Ack \<Rightarrow> Ack" where
  "Ack_with_offset off a = a\<lparr>ack_offset := Some off\<rparr>"

definition Ack_with_reason :: "string \<Rightarrow> Ack \<Rightarrow> Ack" where
  "Ack_with_reason reason a = a\<lparr>ack_reason := Some reason\<rparr>"

section \<open>The manager\<close>

definition DEFAULT_MAX_OUTSTANDING_PER_SESSION :: nat where
  "DEFAULT_MAX_OUTSTANDING_PER_SESSION = 10000"

definition DEFAULT_MAX_SESSIONS :: nat where
  "DEFAULT_MAX_SESSIONS = 100000"

record AckManager =
  am_outstanding :: "(string, (string, i64) hmap) hmap"
  am_max_outstanding_per_session :: nat

definition AckManager_with_capacity :: "nat \<Rightarrow> AckManager" where
  "AckManager_with_capacity n = \<lparr> am_outstanding = [], am_max_outstanding_per_session = n \<rparr>"

definition AckManager_new :: AckManager where
  "AckManager_new = AckManager_with_capacity DEFAULT_MAX_OUTSTANDING_PER_SESSION"

definition ack_deadline :: "i64 \<Rightarrow> nat \<Rightarrow> i64" where
  "ack_deadline now timeout_ms =
    sat_i64 (now + (if int timeout_ms \<le> i64_max then int timeout_ms else i64_max))"

definition AckManager_track ::
  "i64 \<Rightarrow> string \<Rightarrow> string \<Rightarrow> nat \<Rightarrow> AckManager \<Rightarrow> bool \<times> AckManager" where
  "AckManager_track now sid mid timeout_ms m =
    (let deadline = ack_deadline now timeout_ms; g = am_outstanding m
     in if hm_get g sid = None \<and> DEFAULT_MAX_SESSIONS \<le> length g then (False, m)
        else (let g' = hm_or_insert sid [] g; entry = hm_get_or [] g' sid
              in if am_max_outstanding_per_session m \<le> length entry
                 then (False, m\<lparr>am_outstanding := g'\<rparr>)
                 else (True, m\<lparr>am_outstanding := hm_put sid (hm_put mid deadline entry) g'\<rparr>)))"

definition AckManager_complete :: "string \<Rightarrow> string \<Rightarrow> AckManager \<Rightarrow> bool \<times> AckManager" where
  "AckManager_complete sid mid m =
    (case hm_get (am_outstanding m) sid of
       None \<Rightarrow> (False, m)
     | Some entry \<Rightarrow>
         (hm_get entry mid \<noteq> None,
          m\<lparr>am_outstanding := hm_put sid (hm_del mid entry) (am_outstanding m)\<rparr>))"

text \<open>The ids whose deadline has passed, in iteration order.\<close>

definition expired_ids :: "i64 \<Rightarrow> (string, i64) hmap \<Rightarrow> string list" where
  "expired_ids now entry = map fst (filter (\<lambda>p. snd p \<le> now) entry)"

definition AckManager_reap_timeouts :: "i64 \<Rightarrow> string \<Rightarrow> AckManager \<Rightarrow> string list \<times> AckManager" where
  "AckManager_reap_timeouts now sid m =
    (case hm_get (am_outstanding m) sid of
       None \<Rightarrow> ([], m)
     | Some entry \<Rightarrow>
         (let expired = expired_ids now entry
          in (expired, m\<lparr>am_outstanding := hm_put sid (hm_del_all expired entry) (am_outstanding m)\<rparr>)))"

definition AckManager_forget :: "string \<Rightarrow> AckManager \<Rightarrow> AckManager" where
  "AckManager_forget sid m = m\<lparr>am_outstanding := hm_del sid (am_outstanding m)\<rparr>"

definition AckManager_reap_all_timeouts :: "i64 \<Rightarrow> AckManager \<Rightarrow> nat \<times> AckManager" where
  "AckManager_reap_all_timeouts now m =
    (let g = am_outstanding m;
         reaped = sum_list (map (\<lambda>(sid, entries). length (expired_ids now entries)) g);
         g' = map (\<lambda>(sid, entries). (sid, hm_del_all (expired_ids now entries) entries)) g;
         empty_sessions = map fst (filter (\<lambda>(sid, entries). entries = []) g')
     in (reaped, m\<lparr>am_outstanding := hm_del_all empty_sessions g'\<rparr>))"

section \<open>Lookup, size and invariant\<close>

definition ack_bucket :: "AckManager \<Rightarrow> string \<Rightarrow> (string, i64) hmap" where
  "ack_bucket m sid = hm_get_or [] (am_outstanding m) sid"

definition ack_tracked :: "AckManager \<Rightarrow> string \<Rightarrow> string \<Rightarrow> i64 option" where
  "ack_tracked m sid mid = hm_get (ack_bucket m sid) mid"

definition ack_total :: "AckManager \<Rightarrow> nat" where
  "ack_total m = sum_list (map (\<lambda>(sid, entries). length entries) (am_outstanding m))"

definition ack_ok :: "AckManager \<Rightarrow> bool" where
  "ack_ok m \<longleftrightarrow> hm_wf (am_outstanding m) \<and> length (am_outstanding m) \<le> DEFAULT_MAX_SESSIONS
     \<and> (\<forall>sid entries. hm_get (am_outstanding m) sid = Some entries
          \<longrightarrow> hm_wf entries \<and> length entries \<le> am_max_outstanding_per_session m)"

lemmas ack_op_defs = AckManager_track_def AckManager_complete_def AckManager_reap_timeouts_def
  AckManager_forget_def AckManager_reap_all_timeouts_def

lemma expired_ids_set: "hm_wf entry \<Longrightarrow> mid \<in> set (expired_ids now entry) \<longleftrightarrow>
    (\<exists>d. hm_get entry mid = Some d \<and> d \<le> now)"
  by (force simp: expired_ids_def map_of_eq_Some_iff)

lemma del_expired: "hm_wf entry \<Longrightarrow>
    hm_del_all (expired_ids now entry) entry = filter (\<lambda>p. \<not> snd p \<le> now) entry"
  using hm_del_all_filter_keys [of entry "\<lambda>p. snd p \<le> now"]
  by (simp add: expired_ids_def)

lemma length_expired: "length (expired_ids now entry) + length (filter (\<lambda>p. \<not> snd p \<le> now) entry)
    = length entry"
  by (simp add: expired_ids_def sum_length_filter_compl)

lemma ack_ok_bucket: "ack_ok m \<Longrightarrow> hm_wf (ack_bucket m sid)"
  by (simp add: ack_ok_def ack_bucket_def hm_get_or_def split: option.split)

section \<open>The invariant is kept\<close>

lemma ack_ok_with_capacity [keeps]: "ack_ok (AckManager_with_capacity n)"
  by (simp add: ack_ok_def AckManager_with_capacity_def)

lemma hm_or_insert_length:
  "length (hm_or_insert k v m) = (if hm_get m k = None then Suc (length m) else length m)"
  by (auto simp: hm_or_insert_def hm_length_put split: option.split)

text \<open>Replacing a session's bucket by one that obeys the cap.\<close>

lemma ack_ok_put:
  "\<lbrakk>ack_ok m; hm_wf e; length e \<le> am_max_outstanding_per_session m;
    hm_get (am_outstanding m) sid \<noteq> None \<or> length (am_outstanding m) < DEFAULT_MAX_SESSIONS\<rbrakk>
    \<Longrightarrow> ack_ok (m\<lparr>am_outstanding := hm_put sid e (am_outstanding m)\<rparr>)"
  by (auto simp: ack_ok_def hm_length_put)

lemma AckManager_track_cases:
  "AckManager_track now sid mid t m =
    (if hm_get (am_outstanding m) sid = None \<and> DEFAULT_MAX_SESSIONS \<le> length (am_outstanding m)
     then (False, m)
     else if am_max_outstanding_per_session m \<le> length (ack_bucket m sid)
     then (False, m\<lparr>am_outstanding := hm_or_insert sid [] (am_outstanding m)\<rparr>)
     else (True, m\<lparr>am_outstanding :=
            hm_put sid (hm_put mid (ack_deadline now t) (ack_bucket m sid)) (am_outstanding m)\<rparr>))"
  by (auto simp: AckManager_track_def Let_def ack_bucket_def hm_get_or_def hm_or_insert_def
      split: option.split)

lemma ack_ok_track [keeps]: "ack_ok m \<Longrightarrow> ack_ok (snd (AckManager_track now sid mid t m))"
  unfolding AckManager_track_cases
  by (auto simp: hm_or_insert_def ack_ok_bucket hm_length_put not_le Suc_le_eq
      intro!: ack_ok_put split: option.split)

lemma ack_ok_complete [keeps]: "ack_ok m \<Longrightarrow> ack_ok (snd (AckManager_complete sid mid m))"
  unfolding ack_ok_def AckManager_complete_def
  by (auto simp: hm_length_put split: option.split if_splits intro: order_trans [OF hm_length_del_le])

lemma ack_ok_reap [keeps]: "ack_ok m \<Longrightarrow> ack_ok (snd (AckManager_reap_timeouts now sid m))"
  unfolding ack_ok_def AckManager_reap_timeouts_def Let_def
  by (auto simp: hm_length_put del_expired split: option.split if_splits
      intro: order_trans [OF length_filter_le])

lemma ack_ok_forget [keeps]: "ack_ok m \<Longrightarrow> ack_ok (AckManager_forget sid m)"
  unfolding ack_ok_def AckManager_forget_def
  by (auto intro: order_trans [OF hm_length_del_le])

text \<open>\<open>reap_all_timeouts\<close> filters every bucket and drops the empty ones.\<close>

definition reap_bucket :: "i64 \<Rightarrow> string \<times> (string, i64) hmap \<Rightarrow> string \<times> (string, i64) hmap" where
  "reap_bucket now p = (fst p, filter (\<lambda>q. \<not> snd q \<le> now) (snd p))"

lemma fst_reap_bucket [simp]: "fst (reap_bucket now p) = fst p"
  by (simp add: reap_bucket_def)

lemma ack_ok_entry_wf: "ack_ok m \<Longrightarrow> p \<in> set (am_outstanding m) \<Longrightarrow> hm_wf (snd p)"
  unfolding ack_ok_def by (metis map_of_eq_Some_iff prod.collapse)

lemma reap_all_outstanding:
  assumes "ack_ok m"
  shows "am_outstanding (snd (AckManager_reap_all_timeouts now m)) =
    filter (\<lambda>p. snd p \<noteq> []) (map (reap_bucket now) (am_outstanding m))"
proof -
  let ?g = "am_outstanding m"
  have buckets: "map (\<lambda>p. (fst p, hm_del_all (expired_ids now (snd p)) (snd p))) ?g
      = map (reap_bucket now) ?g"
    using ack_ok_entry_wf [OF assms] by (auto simp: reap_bucket_def del_expired)
  have "hm_wf (map (reap_bucket now) ?g)"
    using assms by (simp add: ack_ok_def o_def)
  from hm_del_all_filter_keys [OF this, of "\<lambda>p. snd p = []"] show ?thesis
    unfolding AckManager_reap_all_timeouts_def Let_def case_prod_unfold buckets by simp
qed

lemma reap_all_max [simp]:
  "am_max_outstanding_per_session (snd (AckManager_reap_all_timeouts now m)) =
    am_max_outstanding_per_session m"
  by (simp add: AckManager_reap_all_timeouts_def Let_def)

lemma reap_bucket_lookup:
  "hm_get (map (reap_bucket now) g) sid = map_option (filter (\<lambda>q. \<not> snd q \<le> now)) (hm_get g sid)"
  by (induction g) (auto simp: reap_bucket_def)

lemma reap_all_lookup:
  assumes "ack_ok m"
  shows "hm_get (am_outstanding (snd (AckManager_reap_all_timeouts now m))) sid =
    (case hm_get (am_outstanding m) sid of
       None \<Rightarrow> None
     | Some e \<Rightarrow> (let e' = filter (\<lambda>q. \<not> snd q \<le> now) e in if e' = [] then None else Some e'))"
proof -
  have "hm_wf (map (reap_bucket now) (am_outstanding m))"
    using assms by (simp add: ack_ok_def o_def)
  then show ?thesis
    by (simp add: reap_all_outstanding [OF assms] hm_get_filter reap_bucket_lookup Let_def
        split: option.split)
qed

lemma ack_ok_reap_all [keeps]:
  assumes ok: "ack_ok m"
  shows "ack_ok (snd (AckManager_reap_all_timeouts now m))"
  unfolding ack_ok_def
proof (intro conjI allI impI)
  let ?m = "snd (AckManager_reap_all_timeouts now m)"
  show "hm_wf (am_outstanding ?m)"
    using ok by (simp add: reap_all_outstanding ack_ok_def o_def)
  have "length (am_outstanding ?m) \<le> length (am_outstanding m)"
    by (simp add: reap_all_outstanding [OF ok] order_trans [OF length_filter_le])
  then show "length (am_outstanding ?m) \<le> DEFAULT_MAX_SESSIONS" using ok by (simp add: ack_ok_def)
  fix sid entries
  assume "hm_get (am_outstanding ?m) sid = Some entries"
  then obtain e where e: "hm_get (am_outstanding m) sid = Some e"
    and entries: "entries = filter (\<lambda>q. \<not> snd q \<le> now) e"
    by (auto simp: reap_all_lookup [OF ok] Let_def split: option.splits if_splits)
  show "hm_wf entries" "length entries \<le> am_max_outstanding_per_session ?m"
    using ok e unfolding entries ack_ok_def
    by (auto intro: order_trans [OF length_filter_le])
qed

section \<open>Runs and accounting\<close>

text \<open>The manager's operations with the clock of each call, and how many entries each
  one adds and removes according to its return value.\<close>

datatype ack_op =
    Track i64 string string nat
  | Complete string string
  | Reap i64 string
  | Forget string
  | ReapAll i64

primrec ack_apply :: "ack_op \<Rightarrow> AckManager \<Rightarrow> AckManager" where
  "ack_apply (Track now sid mid t) m = snd (AckManager_track now sid mid t m)"
| "ack_apply (Complete sid mid) m = snd (AckManager_complete sid mid m)"
| "ack_apply (Reap now sid) m = snd (AckManager_reap_timeouts now sid m)"
| "ack_apply (Forget sid) m = AckManager_forget sid m"
| "ack_apply (ReapAll now) m = snd (AckManager_reap_all_timeouts now m)"

primrec ack_added :: "ack_op \<Rightarrow> AckManager \<Rightarrow> nat" where
  "ack_added (Track now sid mid t) m =
    (if fst (AckManager_track now sid mid t m) \<and> ack_tracked m sid mid = None then 1 else 0)"
| "ack_added (Complete sid mid) m = 0"
| "ack_added (Reap now sid) m = 0"
| "ack_added (Forget sid) m = 0"
| "ack_added (ReapAll now) m = 0"

primrec ack_removed :: "ack_op \<Rightarrow> AckManager \<Rightarrow> nat" where
  "ack_removed (Track now sid mid t) m = 0"
| "ack_removed (Complete sid mid) m = (if fst (AckManager_complete sid mid m) then 1 else 0)"
| "ack_removed (Reap now sid) m = length (fst (AckManager_reap_timeouts now sid m))"
| "ack_removed (Forget sid) m = length (ack_bucket m sid)"
| "ack_removed (ReapAll now) m = fst (AckManager_reap_all_timeouts now m)"

fun ack_run :: "ack_op list \<Rightarrow> AckManager \<Rightarrow> AckManager \<times> nat \<times> nat" where
  "ack_run [] m = (m, 0, 0)"
| "ack_run (op # ops) m =
    (case ack_run ops (ack_apply op m) of
       (m', a, r) \<Rightarrow> (m', a + ack_added op m, r + ack_removed op m))"

lemma ack_ok_apply [keeps]: "ack_ok m \<Longrightarrow> ack_ok (ack_apply op m)"
  by (cases op) (simp_all add: keeps)

lemma ack_apply_max [simp]:
  "am_max_outstanding_per_session (ack_apply op m) = am_max_outstanding_per_session m"
  by (cases op) (auto simp: ack_op_defs Let_def split: option.split)

lemma sum_put:
  "hm_wf g \<Longrightarrow> sum_list (map (\<lambda>p. length (snd p)) (hm_put k e g)) + length (hm_get_or [] g k)
    = sum_list (map (\<lambda>p. length (snd p)) g) + length e"
proof (induction g)
  case (Cons p g)
  show ?case
  proof (cases "fst p = k")
    case True
    with Cons.prems have "hm_get g k = None" by (auto simp: map_of_eq_None_iff)
    with True show ?thesis by (cases p) (simp add: hm_get_or_def)
  next
    case False
    with Cons show ?thesis by (cases p) (auto simp: hm_get_or_def)
  qed
qed (simp add: hm_get_or_def)

lemma sum_del:
  "hm_wf g \<Longrightarrow> sum_list (map (\<lambda>p. length (snd p)) (hm_del k g)) + length (hm_get_or [] g k)
    = sum_list (map (\<lambda>p. length (snd p)) g)"
proof (induction g)
  case (Cons p g)
  show ?case
  proof (cases "fst p = k")
    case True
    with Cons.prems have "hm_get g k = None" by (auto simp: map_of_eq_None_iff)
    with True show ?thesis by (cases p) (simp add: hm_get_or_def hm_del_absent)
  next
    case False
    with Cons show ?thesis by (cases p) (auto simp: hm_get_or_def)
  qed
qed (simp add: hm_get_or_def)

lemma ack_total_alt: "ack_total m = sum_list (map (\<lambda>p. length (snd p)) (am_outstanding m))"
  by (simp add: ack_total_def case_prod_unfold)

lemma ack_total_put:
  "ack_ok m \<Longrightarrow> ack_total (m\<lparr>am_outstanding := hm_put sid e (am_outstanding m)\<rparr>)
      + length (ack_bucket m sid) = ack_total m + length e"
  by (simp add: ack_total_alt ack_bucket_def sum_put ack_ok_def)

lemma ack_total_reap_all:
  assumes ok: "ack_ok m"
  shows "ack_total (ack_apply (ReapAll now) m) + ack_removed (ReapAll now) m = ack_total m + ack_added (ReapAll now) m"
proof -
  have nonempty: "sum_list (map (\<lambda>p. length (snd p)) (filter (\<lambda>p. snd p \<noteq> []) xs))
      = sum_list (map (\<lambda>p. length (snd p)) xs)" for xs :: "(string \<times> (string, i64) hmap) list"
    by (induction xs) auto
  have split: "sum_list (map (\<lambda>p. length (snd p)) (map (reap_bucket now) xs))
      + sum_list (map (\<lambda>p. length (expired_ids now (snd p))) xs)
      = sum_list (map (\<lambda>p. length (snd p)) xs)" for xs
  proof (induction xs)
    case (Cons p xs)
    then show ?case using length_expired [of now "snd p"] by (simp add: reap_bucket_def)
  qed simp
  show ?thesis
    unfolding ack_total_alt
    using split [of "am_outstanding m"] nonempty [of "map (reap_bucket now) (am_outstanding m)"]
    by (simp add: reap_all_outstanding [OF ok])
      (simp add: AckManager_reap_all_timeouts_def Let_def case_prod_unfold)
qed

lemma ack_total_step:
  assumes ok: "ack_ok m"
  shows "ack_total (ack_apply op m) + ack_removed op m = ack_total m + ack_added op m"
proof (cases op)
  case (Track now sid mid t)
  have "ack_total (m\<lparr>am_outstanding := hm_or_insert sid [] (am_outstanding m)\<rparr>) = ack_total m"
    using ack_total_put [OF ok, of sid "[]"]
    by (auto simp: hm_or_insert_def ack_bucket_def hm_get_or_def split: option.split)
  then show ?thesis
    using Track ack_total_put [OF ok, of sid "hm_put mid (ack_deadline now t) (ack_bucket m sid)"]
    by (auto simp: AckManager_track_cases ack_tracked_def hm_length_put)
next
  case (Complete sid mid)
  show ?thesis
  proof (cases "hm_get (am_outstanding m) sid")
    case None
    with Complete show ?thesis by (simp add: AckManager_complete_def)
  next
    case (Some e)
    then have b: "ack_bucket m sid = e" by (simp add: ack_bucket_def hm_get_or_def)
    have "length (hm_del mid e) + (if hm_get e mid = None then 0 else 1) = length e"
      using hm_length_del [of e mid] ack_ok_bucket [OF ok, of sid] b
      by (auto simp: hm_del_absent)
    then show ?thesis
      using Complete Some b ack_total_put [OF ok, of sid "hm_del mid e"]
      by (auto simp: AckManager_complete_def split: if_splits)
  qed
next
  case (Reap now sid)
  show ?thesis
  proof (cases "hm_get (am_outstanding m) sid")
    case None
    with Reap show ?thesis by (simp add: AckManager_reap_timeouts_def)
  next
    case (Some e)
    then have b: "ack_bucket m sid = e" by (simp add: ack_bucket_def hm_get_or_def)
    then have "hm_wf e" using ack_ok_bucket [OF ok, of sid] by simp
    then show ?thesis
      using Reap Some b ack_total_put [OF ok, of sid "filter (\<lambda>p. \<not> snd p \<le> now) e"]
        length_expired [of now e]
      by (simp add: AckManager_reap_timeouts_def Let_def del_expired)
  qed
next
  case (Forget sid)
  then show ?thesis
    using sum_del [of "am_outstanding m" sid] ok
    by (simp add: ack_total_alt AckManager_forget_def ack_bucket_def ack_ok_def)
next
  case (ReapAll now)
  then show ?thesis using ack_total_reap_all [OF ok] by simp
qed

lemma ack_run_inv:
  "ack_ok m \<Longrightarrow> ack_run ops m = (m', a, r) \<Longrightarrow>
    ack_ok m' \<and> am_max_outstanding_per_session m' = am_max_outstanding_per_session m
    \<and> ack_total m' + r = ack_total m + a"
proof (induction ops arbitrary: m m' a r)
  case (Cons op ops)
  obtain m1 a1 r1 where run: "ack_run ops (ack_apply op m) = (m1, a1, r1)"
    using prod_cases3 by blast
  with Cons.prems have eq: "m' = m1" "a = a1 + ack_added op m" "r = r1 + ack_removed op m"
    by auto
  from Cons.IH [OF ack_ok_apply [OF Cons.prems(1)] run] ack_total_step [OF Cons.prems(1), of op]
  show ?case by (simp add: eq)
qed simp

section \<open>Properties\<close>

text \<open>C29. Accounting and caps: after any sequence of operations on a new manager, the
  messages still outstanding are those added minus those reported as completed, reaped
  or forgotten; no session holds more than the cap and no more than 100000
  sessions are tracked.\<close>

theorem ack_accounting:
  assumes "ack_run ops (AckManager_with_capacity cap) = (m, added, removed)"
  shows "ack_total m + removed = added
    \<and> (\<forall>sid. length (ack_bucket m sid) \<le> cap) \<and> length (am_outstanding m) \<le> 100000"
proof -
  from ack_run_inv [OF ack_ok_with_capacity assms]
  have ok: "ack_ok m" and cap: "am_max_outstanding_per_session m = cap"
    and tot: "ack_total m + removed = added"
    by (simp_all add: AckManager_with_capacity_def ack_total_def)
  have "length (ack_bucket m sid) \<le> cap" for sid
    using ok cap by (simp add: ack_ok_def ack_bucket_def hm_get_or_def split: option.split)
  then show ?thesis using ok tot by (simp add: ack_ok_def DEFAULT_MAX_SESSIONS_def)
qed

theorem ack_accounting_witness:
  "\<exists>m. ack_run [Track 0 ''s'' ''a'' 5, Track 0 ''s'' ''b'' 50, Reap 10 ''s'', Complete ''s'' ''b'']
     (AckManager_with_capacity 2) = (m, 2, 2) \<and> ack_total m + 2 = 2"
proof -
  obtain m where m: "ack_run
      [Track 0 ''s'' ''a'' 5, Track 0 ''s'' ''b'' 50, Reap 10 ''s'', Complete ''s'' ''b'']
      (AckManager_with_capacity 2) = (m, 2, 2)"
    by (simp add: ack_op_defs AckManager_with_capacity_def DEFAULT_MAX_SESSIONS_def Let_def
        hm_or_insert_def hm_get_or_def ack_deadline_def i64_defs expired_ids_def hm_del_all_def
        ack_tracked_def ack_bucket_def)
  from ack_accounting [OF m] m show ?thesis by blast
qed

text \<open>Lifecycle of a tracked message: after a successful \<open>track\<close> the message is found
  with its deadline; \<open>complete\<close> then succeeds once and only once, and leaves
  every other tracked message alone.\<close>

lemma track_complete_once:
  assumes "AckManager_track now sid mid t m = (True, m1)"
    and "AckManager_complete sid mid m1 = (b, m2)"
  shows "ack_tracked m1 sid mid = Some (ack_deadline now t) \<and> b
    \<and> fst (AckManager_complete sid mid m2) = False
    \<and> (\<forall>s' i'. (s', i') \<noteq> (sid, mid) \<longrightarrow> ack_tracked m2 s' i' = ack_tracked m s' i')"
proof -
  from assms(1) have m1: "m1 = m\<lparr>am_outstanding :=
      hm_put sid (hm_put mid (ack_deadline now t) (ack_bucket m sid)) (am_outstanding m)\<rparr>"
    by (auto simp: AckManager_track_cases split: if_splits)
  with assms(2) show ?thesis
    by (auto simp: AckManager_complete_def ack_tracked_def ack_bucket_def hm_get_or_def
        split: option.splits if_splits)
qed

lemma track_complete_once_witness:
  "\<exists>m1 m2. AckManager_track 3 ''s'' ''a'' 5 AckManager_new = (True, m1)
     \<and> AckManager_complete ''s'' ''a'' m1 = (True, m2)
     \<and> fst (AckManager_complete ''s'' ''a'' m2) = False"
proof -
  obtain m1 where m1: "AckManager_track 3 ''s'' ''a'' 5 AckManager_new = (True, m1)"
    by (simp add: AckManager_track_def AckManager_new_def AckManager_with_capacity_def Let_def
        DEFAULT_MAX_SESSIONS_def DEFAULT_MAX_OUTSTANDING_PER_SESSION_def hm_or_insert_def hm_get_or_def)
  obtain b m2 where m2: "AckManager_complete ''s'' ''a'' m1 = (b, m2)" by fastforce
  from track_complete_once [OF m1 m2] m1 m2 show ?thesis by auto
qed

text \<open>Timeouts: reaping a session returns exactly the ids whose deadline has passed,
  each once, removes exactly those, and touches no other session.\<close>

theorem reap_timeouts_exact:
  assumes "ack_ok m" and "AckManager_reap_timeouts now sid m = (ids, m')"
  shows "distinct ids
    \<and> (\<forall>mid. mid \<in> set ids \<longleftrightarrow> (\<exists>d. ack_tracked m sid mid = Some d \<and> d \<le> now))
    \<and> (\<forall>s' i'. ack_tracked m' s' i' =
          (if s' = sid \<and> i' \<in> set ids then None else ack_tracked m s' i'))"
proof (cases "hm_get (am_outstanding m) sid")
  case None
  with assms(2) show ?thesis
    by (auto simp: AckManager_reap_timeouts_def ack_tracked_def ack_bucket_def hm_get_or_def)
next
  case (Some e)
  then have b: "ack_bucket m sid = e" by (simp add: ack_bucket_def hm_get_or_def)
  then have wf: "hm_wf e" using ack_ok_bucket [OF assms(1), of sid] by simp
  have ids: "ids = expired_ids now e"
    and m': "m' = m\<lparr>am_outstanding := hm_put sid (hm_del_all ids e) (am_outstanding m)\<rparr>"
    using assms(2) Some by (auto simp: AckManager_reap_timeouts_def Let_def)
  have "distinct ids" using wf by (simp add: ids expired_ids_def distinct_map_filter)
  moreover have "mid \<in> set ids \<longleftrightarrow> (\<exists>d. ack_tracked m sid mid = Some d \<and> d \<le> now)" for mid
    by (simp add: ids expired_ids_set [OF wf] ack_tracked_def b)
  moreover have "ack_tracked m' s' i' =
      (if s' = sid \<and> i' \<in> set ids then None else ack_tracked m s' i')" for s' i'
    using wf Some by (simp add: m' ack_tracked_def ack_bucket_def hm_get_or_def split: option.split)
  ultimately show ?thesis by blast
qed

theorem reap_timeouts_exact_witness:
  "\<exists>ids m'. AckManager_reap_timeouts 10 ''s''
      \<lparr>am_outstanding = [(''s'', [(''a'', 5), (''b'', 50)])], am_max_outstanding_per_session = 4\<rparr>
      = (ids, m') \<and> ''a'' \<in> set ids \<and> ''b'' \<notin> set ids"
proof -
  let ?m = "\<lparr>am_outstanding = [(''s'', [(''a'', 5), (''b'', 50)])], am_max_outstanding_per_session = 4\<rparr>"
  have ok: "ack_ok ?m" by (simp add: ack_ok_def DEFAULT_MAX_SESSIONS_def)
  obtain ids m' where r: "AckManager_reap_timeouts 10 ''s'' ?m = (ids, m')" by fastforce
  have "ack_tracked ?m ''s'' ''a'' = Some 5" "ack_tracked ?m ''s'' ''b'' = Some 50"
    by (simp_all add: ack_tracked_def ack_bucket_def hm_get_or_def)
  with reap_timeouts_exact [OF ok r] r show ?thesis by auto
qed

end
