(* ===== verification/Json_Lib.thy ===== *)
theory Json_Lib
  imports Frame_Codec
begin

text \<open>
  The serialisation libraries as the server and the client call them (\<open>serde_json\<close>, CBOR), and
  the values \<open>json!\<close> builds.  An object lists its keys in the order of the library's map.
\<close>

record Libs =
  lb_to_string :: "json \<Rightarrow> bytes"
  lb_to_vec :: json_to_vec
  lb_from_slice :: json_from_slice
  lb_cbor_to :: json_to_vec
  lb_cbor_from :: json_from_slice

definition json_u64 :: "u64 \<Rightarrow> json" where
  "json_u64 n = JNumber (PosInt n)"

definition json_i64 :: "i64 \<Rightarrow> json" where
  "json_i64 i = JNumber (if 0 \<le> i then PosInt (word_of_int i) else NegInt i)"

definition json_opt :: "('a \<Rightarrow> json) \<Rightarrow> 'a option \<Rightarrow> json" where
  "json_opt f x = (case x of None \<Rightarrow> JNull | Some y \<Rightarrow> f y)"

text \<open>The library reads back what it wrote.\<close>

definition reads_back :: "Libs \<Rightarrow> json \<Rightarrow> bool" where
  "reads_back libs v \<longleftrightarrow> lb_from_slice libs (lb_to_string libs v) = Inr v
    \<and> (\<exists>b. lb_to_vec libs v = Inr b \<and> lb_from_slice libs b = Inr v)"

text \<open>\<open>serde_json::to_vec(..).unwrap_or_default()\<close>.\<close>

definition to_vec_or_default :: "Libs \<Rightarrow> json \<Rightarrow> bytes" where
  "to_vec_or_default libs v = (case lb_to_vec libs v of Inr b \<Rightarrow> b | Inl _ \<Rightarrow> [])"

lemma reads_back_vec: "reads_back libs v \<Longrightarrow> lb_from_slice libs (to_vec_or_default libs v) = Inr v"
  by (auto simp: reads_back_def to_vec_or_default_def)

lemma json_accessors [simp]:
  "json_as_u64 (json_u64 n) = Some n" "json_as_str (JString s) = Some s"
  "i64_ok i \<Longrightarrow> json_as_i64 (json_i64 i) = Some i"
proof -
  show "json_as_u64 (json_u64 n) = Some n" "json_as_str (JString s) = Some s"
    by (simp_all add: json_as_u64_def json_u64_def json_as_str_def)
  assume ok: "i64_ok i"
  show "json_as_i64 (json_i64 i) = Some i"
  proof (cases "0 \<le> i")
    case True
    then have "int (unat (word_of_int i :: u64)) = i"
      using ok by (simp add: uint_word_of_int i64_ok_def i64_max_def)
    then show ?thesis using True ok by (simp add: json_as_i64_def json_i64_def i64_ok_def)
  qed (simp add: json_as_i64_def json_i64_def)
qed

end
