(* ===== verification/Connection.thy ===== *)
theory Connection
  imports Broker Sessions Auth Ack_Manager Json_Lib
begin

text \<open>
  A server connection (\<open>rifts-broker/src/connection\<close>): its outbound channel and the sinks
  that feed it, the control handler, the reader and writer tasks, and teardown.  The
  handshake is in \<open>Handshake\<close>.

  All connections of a server share a \<open>Node\<close> (broker, channels, acks, sessions, metrics); a
  \<open>ConnLocal\<close> is what one connection's tasks share.  An iteration of the reader's or of the
  writer's loop is one step; what the step reads from outside (a frame, a failure, the
  clock, fresh random ids) is an argument.  \<open>serde_json\<close> and the CBOR library are the
  record \<open>Libs\<close>.
\<close>

section \<open>Text\<close>

text \<open>\<open>str::from_utf8\<close>: the well-formed byte sequences of the Unicode standard.\<close>

definition utf8_cont :: "8 word \<Rightarrow> bool" where
  "utf8_cont b \<longleftrightarrow> 0x80 \<le> b \<and> b \<le> 0xBF"

fun utf8_valid :: "bytes \<Rightarrow> bool" where
  "utf8_valid [] = True"
| "utf8_valid (a # r) =
    (if a < 0x80 then utf8_valid r
     else case r of
       [] \<Rightarrow> False
     | b # r2 \<Rightarrow>
         if 0xC2 \<le> a \<and> a \<le> 0xDF then utf8_cont b \<and> utf8_valid r2
         else case r2 of
           [] \<Rightarrow> False
         | c # r3 \<Rightarrow>
             if 0xE0 \<le> a \<and> a \<le> 0xEF
             then utf8_cont b \<and> utf8_cont c \<and> (a = 0xE0 \<longrightarrow> 0xA0 \<le> b) \<and> (a = 0xED \<longrightarrow> b \<le> 0x9F)
               \<and> utf8_valid r3
             else case r3 of
               [] \<Rightarrow> False
             | d # r4 \<Rightarrow>
                 0xF0 \<le> a \<and> a \<le> 0xF4 \<and> utf8_cont b \<and> utf8_cont c \<and> utf8_cont d
                   \<and> (a = 0xF0 \<longrightarrow> 0x90 \<le> b) \<and> (a = 0xF4 \<longrightarrow> b \<le> 0x8F) \<and> utf8_valid r4)"

section \<open>Channels and subscription sinks\<close>

text \<open>The bounded outbound channel of a connection, open while the writer task holds its
  receiver, and the byte counter shared with the sinks.\<close>

record Channel =
  ch_queue :: "Frame list"
  ch_capacity :: nat
  ch_open :: bool
  ch_in_flight_bytes :: usize

datatype try_send_result = Sent | Full | Disconnected

definition try_send :: "Frame \<Rightarrow> Channel \<Rightarrow> try_send_result \<times> Channel" where
  "try_send frame ch =
    (if \<not> ch_open ch then (Disconnected, ch)
     else if ch_capacity ch \<le> length (ch_queue ch) then (Full, ch)
     else (Sent, ch\<lparr>ch_queue := ch_queue ch @ [frame]\<rparr>))"

text \<open>A subscription's sink; \<open>ms_conn\<close> is the connection whose channel and counter it shares.\<close>

record MpscSink =
  ms_conn :: u64
  ms_max_bytes :: usize
  ms_codec :: EncodingFormat

definition MpscSink_deliver :: "bytes \<Rightarrow> MpscSink \<Rightarrow> Channel \<Rightarrow> (FanoutError + unit) \<times> Channel" where
  "MpscSink_deliver frame s ch =
    (let n = word_of_nat (length frame)
     in case sink_next (ms_max_bytes s) (ch_in_flight_bytes ch) n of
          None \<Rightarrow> (Inl (FanoutError.Backpressured (ch_in_flight_bytes ch) (ms_max_bytes s)), ch)
        | Some c \<Rightarrow>
            (case try_send (fanout_frame (ms_codec s) frame) (ch\<lparr>ch_in_flight_bytes := c\<rparr>) of
               (Sent, ch') \<Rightarrow> (Inr (), ch')
             | (Full, ch') \<Rightarrow>
                 let ch'' = ch'\<lparr>ch_in_flight_bytes := ch_in_flight_bytes ch' - n\<rparr>
                 in (Inl (FanoutError.Backpressured (ch_in_flight_bytes ch'') (ms_max_bytes s)), ch'')
             | (Disconnected, ch') \<Rightarrow>
                 (Inl FanoutError.Closed, ch'\<lparr>ch_in_flight_bytes := ch_in_flight_bytes ch' - n\<rparr>)))"

text \<open>The channels of the process by connection, and the sinks handed to the broker.  An
  entry of \<open>nt_sinks\<close> whose id has no subscription is garbage.\<close>

record Net =
  nt_channels :: "(u64, Channel) hmap"
  nt_sinks :: "(sink_id, MpscSink) hmap"

definition net_deliver :: "Net sink_deliver" where
  "net_deliver k frame net =
    (case hm_get (nt_sinks net) k of
       None \<Rightarrow> (Inl FanoutError.Closed, net)
     | Some s \<Rightarrow>
         (case hm_get (nt_channels net) (ms_conn s) of
            None \<Rightarrow> (Inl FanoutError.Closed, net)
          | Some ch \<Rightarrow> (case MpscSink_deliver frame s ch of
              (r, ch') \<Rightarrow> (r, net\<lparr>nt_channels := hm_put (ms_conn s) ch' (nt_channels net)\<rparr>))))"

text \<open>\<open>out_tx.try_send(..).map_err(|_| Overloaded)\<close> on the channel of connection \<open>c\<close>.\<close>

definition out_send :: "u64 \<Rightarrow> Frame \<Rightarrow> Net \<Rightarrow> unit rift_result \<times> Net" where
  "out_send c frame net =
    (case hm_get (nt_channels net) c of
       None \<Rightarrow> (Inl (RiftError.System SystemReject.Overloaded), net)
     | Some ch \<Rightarrow> (case try_send frame ch of
         (Sent, ch') \<Rightarrow> (Inr (), net\<lparr>nt_channels := hm_put c ch' (nt_channels net)\<rparr>)
       | (_, ch') \<Rightarrow> (Inl (RiftError.System SystemReject.Overloaded), net)))"

section \<open>State\<close>

record ('o, 'l, 'd, 's) Node =
  nd_broker :: "('o, 'l, 'd, 's) InMemoryBroker"
  nd_net :: Net
  nd_acks :: AckManager
  nd_sessions :: SessionStore
  nd_metrics :: Metrics

text \<open>\<open>cn_slot\<close>: the shared transport slot still holds the transport.\<close>

record ConnLocal =
  cn_id :: u64
  cn_sink_id :: sink_id
  cn_session_id :: string
  cn_codec :: EncodingFormat
  cn_max_bytes :: usize
  cn_published_topics :: "string list"
  cn_subscription_sinks :: "sink_id list"
  cn_slot :: bool

section \<open>Control frames\<close>

definition control_frame :: "EncodingFormat \<Rightarrow> string option \<Rightarrow> bytes option \<Rightarrow> Frame" where
  "control_frame codec correlation payload =
    Frame_default\<lparr>fr_frame_type := FrameType.Control, fr_codec := codec,
      fr_correlation_id := correlation, fr_payload := payload\<rparr>"

definition control_body :: "Frame \<Rightarrow> bytes" where
  "control_body frame =
    (case fr_payload frame of
       Some p \<Rightarrow> if utf8_valid p then p else as_bytes ''{}''
     | None \<Rightarrow> as_bytes ''{}'')"

definition subscribe_intent :: "json \<Rightarrow> SubscribeIntent rift_result" where
  "subscribe_intent v =
    (let intent_str = unwrap_or ''live'' (Option.bind (json_get ''intent'' v) json_as_str)
     in if intent_str = ''live'' then Inr SubscribeIntent.Live
        else if intent_str = ''passive'' then Inr SubscribeIntent.Passive
        else if intent_str = ''ephemeral'' then Inr SubscribeIntent.Ephemeral
        else if intent_str = ''latest'' then Inr SubscribeIntent.Latest
        else if intent_str = ''snapshot_then_live'' then Inr SubscribeIntent.SnapshotThenLive
        else if intent_str = ''replay''
        then Inr (SubscribeIntent.Replay (unwrap_or 0 (Option.bind (json_get ''from_offset'' v) json_as_i64)))
        else Inl (RiftError.Frame (FrameReject.FrameInvalid (''unknown subscribe intent: '' @ intent_str))))"

definition control_subscribe ::
  "Libs \<Rightarrow> bytes \<Rightarrow> Frame \<Rightarrow> json \<Rightarrow> ConnLocal \<Rightarrow> ('o, 'l, 'd, 's) Node
    \<Rightarrow> unit rift_result \<times> ConnLocal \<times> ('o, 'l, 'd, 's) Node" where
  "control_subscribe libs uuid frame v cl nd =
    (case Option.bind (json_get ''topic'' v) json_as_str of
       None \<Rightarrow> (Inl (RiftError.Frame (FrameReject.RequiredFieldMissing ''topic'')), cl, nd)
     | Some topic \<Rightarrow>
    (case subscribe_intent v of
       Inl e \<Rightarrow> (Inl e, cl, nd)
     | Inr intent \<Rightarrow>
         let sink_id = new_sink_id uuid;
             sink = \<lparr> ms_conn = cn_id cl, ms_max_bytes = cn_max_bytes cl, ms_codec = cn_codec cl \<rparr>;
             net = (nd_net nd)\<lparr>nt_sinks := hm_put sink_id sink (nt_sinks (nd_net nd))\<rparr>
         in case InMemoryBroker_subscribe topic intent sink_id (nd_broker nd) of
              (Inl e, b) \<Rightarrow> (Inl e, cl, nd\<lparr>nd_broker := b\<rparr>)
            | (Inr sid, b) \<Rightarrow>
                let cl' = cl\<lparr>cn_subscription_sinks := List.insert sink_id (cn_subscription_sinks cl)\<rparr>;
                    reply = JObject [(''result'', JString ''accepted''), (''subscription_id'', json_u64 sid),
                      (''topic'', JString topic), (''type'', JString ''subscribe_ack'')]
                in case out_send (cn_id cl)
                      (control_frame (cn_codec cl) (fr_correlation_id frame) (Some (lb_to_string libs reply))) net of
                     (r, net') \<Rightarrow> (r, cl', nd\<lparr>nd_broker := b, nd_net := net'\<rparr>)))"

definition control_unsubscribe ::
  "Libs \<Rightarrow> Frame \<Rightarrow> json \<Rightarrow> ConnLocal \<Rightarrow> ('o, 'l, 'd, 's) Node
    \<Rightarrow> unit rift_result \<times> ('o, 'l, 'd, 's) Node" where
  "control_unsubscribe libs frame v cl nd =
    (case Option.bind (json_get ''subscription_id'' v) json_as_u64 of
       None \<Rightarrow> (Inl (RiftError.Frame (FrameReject.RequiredFieldMissing ''subscription_id'')), nd)
     | Some subid \<Rightarrow>
         (case InMemoryBroker_unsubscribe subid (nd_broker nd) of
            (Inl e, b) \<Rightarrow> (Inl e, nd\<lparr>nd_broker := b\<rparr>)
          | (Inr removed, b) \<Rightarrow>
              let reply = JObject [(''result'', JString (if removed then ''removed'' else ''not_found'')),
                    (''subscription_id'', json_u64 subid), (''type'', JString ''unsubscribe_ack'')]
              in case out_send (cn_id cl)
                    (control_frame (cn_codec cl) (fr_correlation_id frame) (Some (lb_to_string libs reply)))
                    (nd_net nd) of
                   (r, net') \<Rightarrow> (r, nd\<lparr>nd_broker := b, nd_net := net'\<rparr>)))"

definition handle_control ::
  "Libs \<Rightarrow> bytes \<Rightarrow> Frame \<Rightarrow> ConnLocal \<Rightarrow> ('o, 'l, 'd, 's) Node
    \<Rightarrow> unit rift_result \<times> ConnLocal \<times> ('o, 'l, 'd, 's) Node" where
  "handle_control libs uuid frame cl nd =
    (case lb_from_slice libs (control_body frame) of
       Inl e \<Rightarrow> (Inl (RiftError.Frame (FrameReject.FrameInvalid (''invalid control body: '' @ e))), cl, nd)
     | Inr v \<Rightarrow>
         let ctrl_type = unwrap_or '''' (Option.bind (json_get ''type'' v) json_as_str)
         in if ctrl_type = ''ping''
            then (case out_send (cn_id cl) (control_frame (cn_codec cl) (fr_correlation_id frame) None) (nd_net nd) of
                    (r, net') \<Rightarrow> (r, cl, nd\<lparr>nd_net := net'\<rparr>))
            else if ctrl_type = ''subscribe'' then control_subscribe libs uuid frame v cl nd
            else if ctrl_type = ''unsubscribe''
            then (case control_unsubscribe libs frame v cl nd of (r, nd') \<Rightarrow> (r, cl, nd'))
            else (Inr (), cl, nd))"

definition error_frame :: "Libs \<Rightarrow> Frame \<Rightarrow> RiftError \<Rightarrow> Frame" where
  "error_frame libs original err =
    Frame_default\<lparr>fr_frame_type := FrameType.Error, fr_codec := EncodingFormat.Json,
      fr_correlation_id := fr_correlation_id original,
      fr_payload := Some (lb_to_string libs (JObject
        [(''code'', JString (rift_error_to_code err)),
         (''correlation_id'', json_opt JString (fr_correlation_id original)),
         (''message'', JString (RiftError_to_string err))]))\<rparr>"

definition send_error_frame :: "Libs \<Rightarrow> u64 \<Rightarrow> Frame \<Rightarrow> RiftError \<Rightarrow> Net \<Rightarrow> unit rift_result \<times> Net" where
  "send_error_frame libs c original err net = out_send c (error_frame libs original err) net"

definition ack_body :: "Ack \<Rightarrow> json" where
  "ack_body ack = JObject
    [(''ack_id'', JString (ack_id ack)), (''message_id'', JString (ack_message_id ack)),
     (''offset'', json_opt json_i64 (ack_offset ack)), (''reason'', json_opt JString (ack_reason ack)),
     (''server_time'', json_i64 (ack_server_time ack)), (''status'', JString (AckStatus_as_str (ack_status ack)))]"

definition send_ack_frame :: "Libs \<Rightarrow> u64 \<Rightarrow> Ack \<Rightarrow> EncodingFormat \<Rightarrow> Net \<Rightarrow> unit rift_result \<times> Net" where
  "send_ack_frame libs c ack codec net =
    (case lb_to_vec libs (ack_body ack) of
       Inl e \<Rightarrow> (Inl (RiftError.SerdeJson e), net)
     | Inr body \<Rightarrow>
         out_send c (Frame_default\<lparr>fr_frame_type := FrameType.Ack, fr_codec := codec, fr_payload := Some body\<rparr>) net)"

section \<open>The reader task\<close>

text \<open>What one iteration reads: a frame, a failure of the transport, or nothing before the
  idle timeout; with the clock and the random ids the iteration may need.\<close>

datatype ReadEvent = FrameRead Frame | ReadFailed RiftError | ReadTimeout

record ReadInput =
  ri_event :: ReadEvent
  ri_now :: i64
  ri_sink_uuid :: bytes
  ri_ack_uuid :: string

definition transport_released :: RiftError where
  "transport_released = RiftError.System (SystemReject.Internal ''transport released'')"

definition frame_expired :: "i64 \<Rightarrow> Frame \<Rightarrow> bool" where
  "frame_expired now frame \<longleftrightarrow>
    (case fr_ttl_ms frame of
       Some ttl \<Rightarrow> 0 < fr_timestamp frame \<and> int (unat ttl) < wrap_i64 (now - fr_timestamp frame)
     | None \<Rightarrow> False)"

text \<open>The acknowledgement of a publish.\<close>

definition publish_ack :: "string \<Rightarrow> i64 \<Rightarrow> Frame \<Rightarrow> PublishOutcome rift_result \<Rightarrow> Ack" where
  "publish_ack uuid now frame r =
    (let msg_id = unwrap_or '''' (fr_message_id frame)
     in case r of
          Inr out \<Rightarrow> Ack_with_offset (po_offset out)
            (Ack_new uuid now msg_id (if po_duplicate out then AckStatus.Duplicate else AckStatus.Persisted))
        | Inl e \<Rightarrow> Ack_with_reason (RiftError_to_string e) (Ack_new uuid now msg_id AckStatus.Failed))"

definition reader_data ::
  "Libs \<Rightarrow> ('o, 'l, 'd, 's) BrokerStores \<Rightarrow> i64 \<Rightarrow> string \<Rightarrow> Frame \<Rightarrow> ConnLocal \<Rightarrow> ('o, 'l, 'd, 's) Node
    \<Rightarrow> ConnLocal \<times> ('o, 'l, 'd, 's) Node" where
  "reader_data libs ops now uuid frame cl nd =
    (if frame_expired now frame
     then (cl, nd\<lparr>nd_metrics := Metrics_inc m_messages_expired_total_update (nd_metrics nd)\<rparr>)
     else case InMemoryBroker_publish ops net_deliver now frame (nd_broker nd) (nd_net nd) of
       (r, b, net) \<Rightarrow>
         let cl' = (case r of
                 Inr _ \<Rightarrow> (case fr_topic frame of
                     Some t \<Rightarrow> cl\<lparr>cn_published_topics := List.insert t (cn_published_topics cl)\<rparr>
                   | None \<Rightarrow> cl)
               | Inl _ \<Rightarrow> cl);
             net' = (if Frame_requires_ack frame
                 then snd (send_ack_frame libs (cn_id cl) (publish_ack uuid now frame r) (cn_codec cl) net)
                 else net)
         in (cl', nd\<lparr>nd_broker := b, nd_net := net'\<rparr>))"

definition reader_dispatch ::
  "Libs \<Rightarrow> ('o, 'l, 'd, 's) BrokerStores \<Rightarrow> ReadInput \<Rightarrow> Frame \<Rightarrow> ConnLocal \<Rightarrow> ('o, 'l, 'd, 's) Node
    \<Rightarrow> ConnLocal \<times> ('o, 'l, 'd, 's) Node" where
  "reader_dispatch libs ops i frame cl nd =
    (case fr_frame_type frame of
       FrameType.Control \<Rightarrow>
         (case handle_control libs (ri_sink_uuid i) frame cl nd of
            (Inl e, cl', nd') \<Rightarrow>
              (cl', nd'\<lparr>nd_net := snd (send_error_frame libs (cn_id cl) frame e (nd_net nd'))\<rparr>)
          | (Inr _, cl', nd') \<Rightarrow> (cl', nd'))
     | FrameType.Data \<Rightarrow> reader_data libs ops (ri_now i) (ri_ack_uuid i) frame cl nd
     | FrameType.Ack \<Rightarrow>
         (cl, nd\<lparr>nd_acks := snd (AckManager_complete (cn_session_id cl) (unwrap_or '''' (fr_message_id frame))
                                (nd_acks nd))\<rparr>)
     | FrameType.Flow \<Rightarrow> (cl, nd)
     | FrameType.Error \<Rightarrow> (cl, nd))"

text \<open>One iteration; the result is the task's when it returns.\<close>

definition reader_step ::
  "Libs \<Rightarrow> ('o, 'l, 'd, 's) BrokerStores \<Rightarrow> ReadInput \<Rightarrow> ConnLocal \<Rightarrow> ('o, 'l, 'd, 's) Node
    \<Rightarrow> unit rift_result option \<times> ConnLocal \<times> ('o, 'l, 'd, 's) Node" where
  "reader_step libs ops i cl nd =
    (case (if ri_event i = ReadTimeout then ReadTimeout
           else if \<not> cn_slot cl then ReadFailed transport_released else ri_event i) of
       FrameRead frame \<Rightarrow>
         let nd1 = nd\<lparr>nd_metrics := Metrics_inc m_messages_in_total_update (nd_metrics nd),
                      nd_sessions := SessionStore_update (cn_session_id cl) (Session_touch (ri_now i)) (nd_sessions nd)\<rparr>
         in (None, reader_dispatch libs ops i frame cl nd1)
     | ReadFailed e \<Rightarrow>
         (Some (if e = RiftError.Session SessionReject.Expired then Inr () else Inl e), cl, nd)
     | ReadTimeout \<Rightarrow>
         (Some (Inl (RiftError.Session SessionReject.IdleTimeout)), cl,
          nd\<lparr>nd_metrics := Metrics_inc m_connection_close_total_update (nd_metrics nd)\<rparr>))"

section \<open>The writer task\<close>

text \<open>How the write of a frame ends.  The writer holds the channel's receiver: when it stops the
  channel closes and what is queued is dropped.\<close>

datatype WriteEvent = WriteOk | WriteFailed RiftError | WriteTimeout

definition writer_exit :: "Channel \<Rightarrow> Channel" where
  "writer_exit ch = ch\<lparr>ch_queue := [], ch_open := False, ch_in_flight_bytes := 0\<rparr>"

text \<open>One iteration: the transport slot and the channel after it.\<close>

definition writer_step :: "WriteEvent \<Rightarrow> bool \<Rightarrow> Channel \<Rightarrow> bool \<times> Channel" where
  "writer_step ev slot ch =
    (case ch_queue ch of
       [] \<Rightarrow> (slot, ch)
     | frame # rest \<Rightarrow>
         let bytes = word_of_nat (length (frame_payload frame));
             released = ch\<lparr>ch_queue := rest, ch_in_flight_bytes := ch_in_flight_bytes ch - bytes\<rparr>
         in case (if ev = WriteTimeout then WriteTimeout
                  else if \<not> slot then WriteFailed transport_released else ev) of
              WriteOk \<Rightarrow> (slot, released)
            | WriteFailed _ \<Rightarrow> (False, writer_exit released)
            | WriteTimeout \<Rightarrow> (False, writer_exit (ch\<lparr>ch_queue := rest\<rparr>)))"

definition writer_task ::
  "WriteEvent \<Rightarrow> ConnLocal \<Rightarrow> ('o, 'l, 'd, 's) Node \<Rightarrow> ConnLocal \<times> ('o, 'l, 'd, 's) Node" where
  "writer_task ev cl nd =
    (case hm_get (nt_channels (nd_net nd)) (cn_id cl) of
       None \<Rightarrow> (cl, nd)
     | Some ch \<Rightarrow>
         if \<not> ch_open ch then (cl, nd)
         else case writer_step ev (cn_slot cl) ch of
           (slot, ch') \<Rightarrow>
             (cl\<lparr>cn_slot := slot\<rparr>,
              nd\<lparr>nd_net := (nd_net nd)\<lparr>nt_channels := hm_put (cn_id cl) ch' (nt_channels (nd_net nd))\<rparr>\<rparr>))"

section \<open>The active phase and teardown\<close>

text \<open>A step of one of the two tasks.\<close>

datatype ConnEvent = Rd ReadInput | Wr WriteEvent

primrec conn_event ::
  "Libs \<Rightarrow> ('o, 'l, 'd, 's) BrokerStores \<Rightarrow> ConnEvent \<Rightarrow> ConnLocal \<Rightarrow> ('o, 'l, 'd, 's) Node
    \<Rightarrow> unit rift_result option \<times> ConnLocal \<times> ('o, 'l, 'd, 's) Node" where
  "conn_event libs ops (Rd i) cl nd = reader_step libs ops i cl nd"
| "conn_event libs ops (Wr ev) cl nd = (None, writer_task ev cl nd)"

definition drop_sinks :: "sink_id list \<Rightarrow> ('o, 'l, 'd, 's) InMemoryBroker \<Rightarrow> ('o, 'l, 'd, 's) InMemoryBroker" where
  "drop_sinks ks b = foldl (\<lambda>b k. snd (InMemoryBroker_drop_sink k b)) b ks"

definition dec_publishers :: "string list \<Rightarrow> ('o, 'l, 'd, 's) InMemoryBroker \<Rightarrow> ('o, 'l, 'd, 's) InMemoryBroker" where
  "dec_publishers ts b = foldl (\<lambda>b t. InMemoryBroker_dec_publisher t b) b ts"

text \<open>After the reader returned.  With the transport gone and the senders dropped the writer
  stops, on its next frame or on the closed channel.\<close>

definition teardown :: "ConnLocal \<Rightarrow> ('o, 'l, 'd, 's) Node \<Rightarrow> ConnLocal \<times> ('o, 'l, 'd, 's) Node" where
  "teardown cl nd =
    (cl\<lparr>cn_slot := False, cn_subscription_sinks := [], cn_published_topics := []\<rparr>,
     nd\<lparr>nd_broker := dec_publishers (cn_published_topics cl)
                      (drop_sinks (cn_subscription_sinks cl)
                        (snd (InMemoryBroker_drop_sink (cn_sink_id cl) (nd_broker nd)))),
        nd_acks := AckManager_forget (cn_session_id cl) (nd_acks nd),
        nd_metrics := m_active_connections_update (\<lambda>c. c - 1)
                       (Metrics_inc m_connection_close_total_update (nd_metrics nd)),
        nd_net := (nd_net nd)\<lparr>nt_channels :=
          (case hm_get (nt_channels (nd_net nd)) (cn_id cl) of
             None \<Rightarrow> nt_channels (nd_net nd)
           | Some ch \<Rightarrow> hm_put (cn_id cl) (writer_exit ch) (nt_channels (nd_net nd)))\<rparr>\<rparr>)"

end
