(* ===== verification/Transports.thy ===== *)
theory Transports
  imports Frame_Codec
begin

text \<open>
  The transports (\<open>rifts-transport/src/transport\<close>): the trait \<open>TransportConnection\<close>, the WebSocket
  connections of the standalone server, axum and warp, and the channel bridge of actix-web
  and ntex with its tagging tasks.  A socket is its incoming items, the messages sent,
  and whether it still takes messages; sockets and frameworks themselves are not part
  of the repository.

  \<open>frame_transport\<close> is the contract the server relies on: a write that succeeds puts the
  encoded frame last, one that fails puts nothing.
\<close>

record 't Transport =
  tr_read_frame :: "'t \<Rightarrow> Frame rift_result \<times> 't"
  tr_write_frame :: "Frame \<Rightarrow> 't \<Rightarrow> unit rift_result \<times> 't"
  tr_close :: "CloseCode \<Rightarrow> string \<Rightarrow> 't \<Rightarrow> unit rift_result \<times> 't"

definition session_closed :: RiftError where
  "session_closed = RiftError.Session SessionReject.Closed"

section \<open>WebSocket connections\<close>

datatype WsMessage =
    Text string
  | Binary bytes
  | Ping bytes
  | Pong bytes
  | Close "(u16 \<times> string) option"
  | Continuation bytes

text \<open>\<open>ws_in\<close>: the items the socket yields, an error or a message, until the stream ends.\<close>

record Ws =
  ws_in :: "(string + WsMessage) list"
  ws_out :: "WsMessage list"
  ws_open :: bool

fun ws_next_frame ::
  "json_from_slice \<Rightarrow> json_to_vec \<Rightarrow> (string + WsMessage) list \<Rightarrow> Frame rift_result \<times> (string + WsMessage) list" where
  "ws_next_frame from_slice to_vec [] = (Inl session_closed, [])"
| "ws_next_frame from_slice to_vec (Inl e # items) = (Inl (RiftError.WebSocket e), items)"
| "ws_next_frame from_slice to_vec (Inr m # items) =
    (case m of
       Text text \<Rightarrow> (decode_text_frame from_slice to_vec (as_bytes text), items)
     | Binary bin \<Rightarrow> (decode_binary_frame bin DEFAULT_MAX_BINARY_PAYLOAD, items)
     | Ping _ \<Rightarrow> ws_next_frame from_slice to_vec items
     | Pong _ \<Rightarrow> ws_next_frame from_slice to_vec items
     | Close _ \<Rightarrow> (Inl session_closed, items)
     | Continuation _ \<Rightarrow> ws_next_frame from_slice to_vec items)"

definition WebSocketConnection_read_frame ::
  "json_from_slice \<Rightarrow> json_to_vec \<Rightarrow> Ws \<Rightarrow> Frame rift_result \<times> Ws" where
  "WebSocketConnection_read_frame from_slice to_vec ws =
    (case ws_next_frame from_slice to_vec (ws_in ws) of (r, items) \<Rightarrow> (r, ws\<lparr>ws_in := items\<rparr>))"

definition ws_send :: "WsMessage \<Rightarrow> Ws \<Rightarrow> unit rift_result \<times> Ws" where
  "ws_send m ws =
    (if ws_open ws then (Inr (), ws\<lparr>ws_out := ws_out ws @ [m]\<rparr>)
     else (Inl (RiftError.WebSocket ''Trying to work with closed connection''), ws))"

definition WebSocketConnection_write_frame :: "Frame \<Rightarrow> Ws \<Rightarrow> unit rift_result \<times> Ws" where
  "WebSocketConnection_write_frame frame ws =
    (case encode_frame frame of Inl e \<Rightarrow> (Inl e, ws) | Inr payload \<Rightarrow> ws_send (Binary payload) ws)"

definition WebSocketConnection_close :: "CloseCode \<Rightarrow> string \<Rightarrow> Ws \<Rightarrow> unit rift_result \<times> Ws" where
  "WebSocketConnection_close code reason ws =
    (Inr (), (snd (ws_send (Close (Some (CloseCode_as_u16 code, reason))) ws))\<lparr>ws_open := False\<rparr>)"

definition websocket_transport :: "json_from_slice \<Rightarrow> json_to_vec \<Rightarrow> Ws Transport" where
  "websocket_transport from_slice to_vec =
    \<lparr> tr_read_frame = WebSocketConnection_read_frame from_slice to_vec,
      tr_write_frame = WebSocketConnection_write_frame, tr_close = WebSocketConnection_close \<rparr>"

text \<open>axum sends the close frame and keeps the socket; warp's close carries neither code nor reason.\<close>

definition AxumWsConnection_close :: "CloseCode \<Rightarrow> string \<Rightarrow> Ws \<Rightarrow> unit rift_result \<times> Ws" where
  "AxumWsConnection_close code reason ws =
    (Inr (), snd (ws_send (Close (Some (CloseCode_as_u16 code, reason))) ws))"

definition WarpWsConnection_close :: "CloseCode \<Rightarrow> string \<Rightarrow> Ws \<Rightarrow> unit rift_result \<times> Ws" where
  "WarpWsConnection_close code reason ws = (Inr (), snd (ws_send (Close None) ws))"

definition axum_transport :: "json_from_slice \<Rightarrow> json_to_vec \<Rightarrow> Ws Transport" where
  "axum_transport from_slice to_vec =
    \<lparr> tr_read_frame = WebSocketConnection_read_frame from_slice to_vec,
      tr_write_frame = WebSocketConnection_write_frame, tr_close = AxumWsConnection_close \<rparr>"

definition warp_transport :: "json_from_slice \<Rightarrow> json_to_vec \<Rightarrow> Ws Transport" where
  "warp_transport from_slice to_vec =
    \<lparr> tr_read_frame = WebSocketConnection_read_frame from_slice to_vec,
      tr_write_frame = WebSocketConnection_write_frame, tr_close = WarpWsConnection_close \<rparr>"

section \<open>The bridge\<close>

text \<open>\<open>br_in\<close>: what the framework's reader task sends until it stops; \<open>br_open\<close>: the framework's
  writer task still receives.\<close>

record Bridge =
  br_in :: "bytes list"
  br_out :: "bytes list"
  br_open :: bool

definition tag_B :: byte where "tag_B = 66"

definition tag_T :: byte where "tag_T = 84"

definition tag_C :: byte where "tag_C = 67"

definition bridge_decode :: "json_from_slice \<Rightarrow> json_to_vec \<Rightarrow> bytes \<Rightarrow> Frame rift_result" where
  "bridge_decode from_slice to_vec raw =
    (case raw of
       [] \<Rightarrow> Inl (RiftError.Frame (FrameReject.FrameInvalid ''invalid bridge frame tag''))
     | t # rest \<Rightarrow>
         if t = tag_B then decode_binary_frame rest DEFAULT_MAX_BINARY_PAYLOAD
         else if t = tag_T then decode_text_frame from_slice to_vec rest
         else if t = tag_C then Inl session_closed
         else Inl (RiftError.Frame (FrameReject.FrameInvalid ''invalid bridge frame tag'')))"

definition BridgeConnection_read_frame ::
  "json_from_slice \<Rightarrow> json_to_vec \<Rightarrow> Bridge \<Rightarrow> Frame rift_result \<times> Bridge" where
  "BridgeConnection_read_frame from_slice to_vec br =
    (case br_in br of
       [] \<Rightarrow> (Inl session_closed, br)
     | raw # rest \<Rightarrow> (bridge_decode from_slice to_vec raw, br\<lparr>br_in := rest\<rparr>))"

definition BridgeConnection_write_frame :: "Frame \<Rightarrow> Bridge \<Rightarrow> unit rift_result \<times> Bridge" where
  "BridgeConnection_write_frame frame br =
    (case encode_frame frame of
       Inl e \<Rightarrow> (Inl e, br)
     | Inr payload \<Rightarrow>
         if br_open br then (Inr (), br\<lparr>br_out := br_out br @ [tag_B # payload]\<rparr>)
         else (Inl (RiftError.Io ''bridge write channel closed''), br))"

definition BridgeConnection_close :: "CloseCode \<Rightarrow> string \<Rightarrow> Bridge \<Rightarrow> unit rift_result \<times> Bridge" where
  "BridgeConnection_close code reason br =
    (let buf = [tag_C] @ be_bytes 2 (unat (CloseCode_as_u16 code)) @ as_bytes reason
     in (Inr (), if br_open br then br\<lparr>br_out := br_out br @ [buf]\<rparr> else br))"

definition bridge_transport :: "json_from_slice \<Rightarrow> json_to_vec \<Rightarrow> Bridge Transport" where
  "bridge_transport from_slice to_vec =
    \<lparr> tr_read_frame = BridgeConnection_read_frame from_slice to_vec,
      tr_write_frame = BridgeConnection_write_frame, tr_close = BridgeConnection_close \<rparr>"

text \<open>The framework's reader task: the bytes it sends for a message, until an error.\<close>

definition bridge_tag :: "WsMessage \<Rightarrow> bytes option" where
  "bridge_tag m =
    (case m of
       Binary bin \<Rightarrow> Some (tag_B # bin)
     | Text text \<Rightarrow> Some (tag_T # as_bytes text)
     | Close _ \<Rightarrow> Some [tag_C]
     | _ \<Rightarrow> None)"

fun bridge_reader :: "(string + WsMessage) list \<Rightarrow> bytes list" where
  "bridge_reader [] = []"
| "bridge_reader (Inl e # items) = []"
| "bridge_reader (Inr m # items) =
    (case bridge_tag m of Some raw \<Rightarrow> raw # bridge_reader items | None \<Rightarrow> bridge_reader items)"

text \<open>The framework's writer task of ntex: the messages it sends to the peer.\<close>

fun bridge_writer :: "bytes list \<Rightarrow> WsMessage list" where
  "bridge_writer [] = []"
| "bridge_writer (raw # rest) =
    (case raw of
       [] \<Rightarrow> bridge_writer rest
     | t # payload \<Rightarrow>
         if t = tag_C then [Close None]
         else if payload \<noteq> [] then Binary payload # bridge_writer rest
         else bridge_writer rest)"

section \<open>The contract\<close>

text \<open>The wire bytes of a frame.\<close>

definition wire :: "Frame \<Rightarrow> bytes" where
  "wire frame = (case encode_frame frame of Inr bs \<Rightarrow> bs | Inl _ \<Rightarrow> [])"

text \<open>\<open>let _ = transport.write_frame(..)\<close> on each frame.\<close>

definition write_all :: "'t Transport \<Rightarrow> Frame list \<Rightarrow> 't \<Rightarrow> 't" where
  "write_all T frames t = foldl (\<lambda>t f. snd (tr_write_frame T f t)) t frames"

locale frame_transport =
  fixes T :: "'t Transport"
    and sent :: "'t \<Rightarrow> bytes list"
    and is_open :: "'t \<Rightarrow> bool"
  assumes write_sent: "tr_write_frame T f t = (r, t')
      \<Longrightarrow> (r = Inr () \<longleftrightarrow> is_open t) \<and> sent t' = sent t @ (if is_open t then [wire f] else []) \<and> is_open t' = is_open t"
    and read_sent: "tr_read_frame T t = (x, t') \<Longrightarrow> sent t' = sent t \<and> is_open t' = is_open t"
begin

lemma write_all_sent:
  "sent (write_all T fs t) = sent t @ (if is_open t then map wire fs else []) \<and> is_open (write_all T fs t) = is_open t"
proof (induction fs arbitrary: t)
  case (Cons f fs)
  obtain r t' where w: "tr_write_frame T f t = (r, t')" by (rule prod.exhaust)
  then have "write_all T (f # fs) t = write_all T fs t'" by (simp add: write_all_def)
  with write_sent [OF w] Cons.IH [of t'] show ?case by simp
qed (simp add: write_all_def)

end

lemma encode_wire: "encode_frame f = Inr (wire f)"
  by (simp add: wire_def encode_frame_def Let_def)

lemma decode_wire:
  assumes "i64_ok (fr_timestamp f)" "payload_len f < 2 ^ 32" "payload_len f \<le> m"
  shows "decode_binary_frame (wire f) m = Inr (wire_image f)"
  using decode_wire_image [OF encode_wire assms, of "[]"] by simp

definition binary_messages :: "WsMessage list \<Rightarrow> bytes list" where
  "binary_messages ms = List.map_filter (\<lambda>m. case m of Binary b \<Rightarrow> Some b | _ \<Rightarrow> None) ms"

lemma binary_messages_append [simp]:
  "binary_messages (xs @ ys) = binary_messages xs @ binary_messages ys" "binary_messages [Binary b] = [b]"
  by (simp_all add: binary_messages_def List.map_filter_def)

lemma ws_frame_transport:
  assumes "tr_read_frame T = WebSocketConnection_read_frame from_slice to_vec"
    "tr_write_frame T = WebSocketConnection_write_frame"
  shows "frame_transport T (\<lambda>ws. binary_messages (ws_out ws)) ws_open"
  using assms by unfold_locales
    (auto simp: WebSocketConnection_write_frame_def WebSocketConnection_read_frame_def encode_wire ws_send_def
      split: prod.splits if_splits)

interpretation websocket: frame_transport "websocket_transport from_slice to_vec"
  "\<lambda>ws. binary_messages (ws_out ws)" ws_open for from_slice to_vec
  by (rule ws_frame_transport) (simp_all add: websocket_transport_def)

interpretation axum: frame_transport "axum_transport from_slice to_vec"
  "\<lambda>ws. binary_messages (ws_out ws)" ws_open for from_slice to_vec
  by (rule ws_frame_transport) (simp_all add: axum_transport_def)

interpretation warp: frame_transport "warp_transport from_slice to_vec"
  "\<lambda>ws. binary_messages (ws_out ws)" ws_open for from_slice to_vec
  by (rule ws_frame_transport) (simp_all add: warp_transport_def)

text \<open>What the bridge's writer task will have sent for the tagged frames.\<close>

definition bridge_sent :: "Bridge \<Rightarrow> bytes list" where
  "bridge_sent br = map tl (filter (\<lambda>raw. raw \<noteq> [] \<and> hd raw = tag_B) (br_out br))"

interpretation bridge: frame_transport "bridge_transport from_slice to_vec" bridge_sent br_open
  for from_slice to_vec
  by unfold_locales
    (auto simp: bridge_transport_def BridgeConnection_write_frame_def BridgeConnection_read_frame_def bridge_sent_def
      encode_wire split: list.splits if_splits)

section \<open>The bridge and the socket agree\<close>

fun read_frames :: "'t Transport \<Rightarrow> nat \<Rightarrow> 't \<Rightarrow> Frame rift_result list" where
  "read_frames T 0 t = []"
| "read_frames T (Suc n) t = (case tr_read_frame T t of (r, t') \<Rightarrow> r # read_frames T n t')"

lemma bridge_reads_next:
  "\<forall>i \<in> set items. \<exists>m. i = Inr m \<Longrightarrow> ws_next_frame from_slice to_vec items = (r, items')
    \<Longrightarrow> BridgeConnection_read_frame from_slice to_vec (br\<lparr>br_in := bridge_reader items\<rparr>)
      = (r, br\<lparr>br_in := bridge_reader items'\<rparr>) \<and> set items' \<subseteq> set items"
proof (induction items)
  case Nil
  then show ?case by (auto simp: BridgeConnection_read_frame_def)
next
  case (Cons i items)
  then obtain m where i: "i = Inr m" by auto
  have rest: "\<forall>i \<in> set items. \<exists>m. i = Inr m" using Cons.prems(1) by simp
  show ?case
    using Cons.IH [OF rest] Cons.prems(2)
    by (cases m)
       (auto simp: i bridge_tag_def BridgeConnection_read_frame_def bridge_decode_def tag_B_def tag_T_def tag_C_def)
qed

lemma bridge_reads_all:
  "\<forall>i \<in> set items. \<exists>m. i = Inr m \<Longrightarrow>
    read_frames (bridge_transport from_slice to_vec) n (br\<lparr>br_in := bridge_reader items\<rparr>)
    = read_frames (websocket_transport from_slice to_vec) n (ws\<lparr>ws_in := items\<rparr>)"
proof (induction n arbitrary: items)
  case (Suc n)
  obtain r items' where w: "ws_next_frame from_slice to_vec items = (r, items')" by (rule prod.exhaust)
  note b = bridge_reads_next [OF Suc.prems w, of br]
  have "\<forall>i \<in> set items'. \<exists>m. i = Inr m" using b Suc.prems by blast
  from Suc.IH [OF this] b w show ?case
    by (simp add: bridge_transport_def websocket_transport_def WebSocketConnection_read_frame_def)
qed simp

lemma wire_length: "24 \<le> length (wire f)"
  by (simp add: wire_def encode_frame_def Let_def)

lemma bridge_writes_all:
  "br_open br \<Longrightarrow> br_out (write_all (bridge_transport from_slice to_vec) fs br) = br_out br @ map (\<lambda>f. tag_B # wire f) fs"
proof (induction fs arbitrary: br)
  case (Cons f fs)
  have "BridgeConnection_write_frame f br = (Inr (), br\<lparr>br_out := br_out br @ [tag_B # wire f]\<rparr>)"
    using Cons.prems by (simp add: BridgeConnection_write_frame_def encode_wire)
  then show ?case using Cons.IH [of "br\<lparr>br_out := br_out br @ [tag_B # wire f]\<rparr>"] Cons.prems
    by (simp add: write_all_def bridge_transport_def)
qed (simp add: write_all_def)

lemma bridge_writer_frames: "bridge_writer (map (\<lambda>f. tag_B # wire f) fs) = map (\<lambda>f. Binary (wire f)) fs"
proof (induction fs)
  case (Cons f fs)
  have "wire f \<noteq> []" using wire_length [of f] by auto
  then show ?case using Cons by (simp add: tag_B_def tag_C_def)
qed simp

section \<open>Properties\<close>



end
