(* ===== verification/Handshake.thy ===== *)
theory Handshake
  imports Connection Transports
begin

text \<open>
  The handshake of a connection (\<open>Connection::handshake\<close> and its helpers in
  \<open>rifts-broker/src/connection/mod.rs\<close>): decoding the hello, the checks on it, opening or
  resuming the session, the welcome, the replay of missed messages, and ready.
\<close>

section \<open>The hello\<close>

definition frame_invalid :: "string \<Rightarrow> RiftError" where
  "frame_invalid msg = RiftError.Frame (FrameReject.FrameInvalid msg)"

definition hello_version :: "(string \<times> json) list \<Rightarrow> u16 rift_result" where
  "hello_version obj =
    (case obj_u64 obj ''version'' of
       Some v \<Rightarrow> if v \<le> 0xFFFF then Inr (ucast v)
                else Inl (frame_invalid (''hello version out of range: '' @ dec (unat v)))
     | None \<Rightarrow> Inr 0)"

definition hello_codec :: "json \<Rightarrow> EncodingFormat option" where
  "hello_codec c =
    (case json_as_str c of
       Some s \<Rightarrow> if s = ''json'' then Some EncodingFormat.Json
                else if s = ''cbor'' then Some EncodingFormat.Cbor else None
     | None \<Rightarrow> None)"

definition hello_auth_mode :: "json \<Rightarrow> AuthMode option" where
  "hello_auth_mode c =
    (case json_as_str c of
       Some s \<Rightarrow> if s = ''bearer'' then Some AuthMode.Bearer
                else if s = ''cookie'' then Some AuthMode.Cookie
                else if s = ''mtls'' then Some AuthMode.Mtls
                else if s = ''signed_challenge'' then Some AuthMode.SignedChallenge
                else if s = ''anonymous'' then Some AuthMode.Anonymous else None
     | None \<Rightarrow> None)"

definition obj_array :: "(string \<times> json) list \<Rightarrow> string \<Rightarrow> json list" where
  "obj_array obj k = (case map_of obj k of Some (JArray arr) \<Rightarrow> arr | _ \<Rightarrow> [])"

definition hello_offsets :: "(string \<times> json) list \<Rightarrow> (string, i64) hmap" where
  "hello_offsets obj =
    (case map_of obj ''last_offsets'' of
       Some (JObject kvs) \<Rightarrow>
         foldl (\<lambda>m (k, v). case json_as_i64 v of Some n \<Rightarrow> hm_put k n m | None \<Rightarrow> m) [] kvs
     | _ \<Rightarrow> [])"

definition decode_hello_payload :: "Libs \<Rightarrow> bytes option \<Rightarrow> (Hello \<times> string option) rift_result" where
  "decode_hello_payload libs payload =
    (case payload of
       None \<Rightarrow> Inl (RiftError.Frame (FrameReject.RequiredFieldMissing ''payload''))
     | Some p \<Rightarrow>
    (case lb_from_slice libs p of
       Inl e \<Rightarrow> Inl (frame_invalid e)
     | Inr (JObject obj) \<Rightarrow>
         (case hello_version obj of
            Inl e \<Rightarrow> Inl e
          | Inr version \<Rightarrow> Inr
              (\<lparr> h_protocol = unwrap_or '''' (obj_str obj ''protocol''), h_version = version,
                 h_client_id = obj_str obj ''client_id'', h_session_id = obj_str obj ''session_id'',
                 h_epoch = map_option ucast (obj_u64 obj ''epoch''),
                 h_codecs = List.map_filter hello_codec (obj_array obj ''codecs''),
                 h_compression = [],
                 h_auth_modes = List.map_filter hello_auth_mode (obj_array obj ''auth_modes''),
                 h_last_offsets = hello_offsets obj, h_client_clock = None, h_sdk = None, h_features = [] \<rparr>,
               obj_str obj ''token''))
     | Inr _ \<Rightarrow> Inl (frame_invalid ''hello must be object'')))"

definition server_codecs :: "Libs \<Rightarrow> ServerConfig \<Rightarrow> PayloadCodec list" where
  "server_codecs libs config =
    (let json = JsonCodec (lb_to_vec libs) (lb_from_slice libs);
         cbor = CborCodec (lb_cbor_to libs) (lb_cbor_from libs)
     in if sc_codec_offer config = [] then [json, cbor]
        else map (\<lambda>offer. case offer of EncodingFormat.Json \<Rightarrow> json | EncodingFormat.Cbor \<Rightarrow> cbor)
               (sc_codec_offer config))"

definition select_auth_mode :: "AuthMode list \<Rightarrow> AuthMode list \<Rightarrow> AuthMode" where
  "select_auth_mode server_modes offered =
    unwrap_or AuthMode.Anonymous (find (\<lambda>m. m \<in> set server_modes) offered)"

text \<open>The checks between reading the hello and looking up the session.\<close>

definition check_hello ::
  "Libs \<Rightarrow> 'a AuthProvider \<Rightarrow> ServerConfig \<Rightarrow> 'a \<Rightarrow> Frame \<Rightarrow> (Hello \<times> PayloadCodec \<times> AuthContext) rift_result" where
  "check_hello libs auth config a frame =
    (if fr_frame_type frame \<noteq> FrameType.Control then Inl (frame_invalid ''expected control frame'')
     else case decode_hello_payload libs (fr_payload frame) of
       Inl e \<Rightarrow> Inl e
     | Inr (hello, token) \<Rightarrow>
    (if h_protocol hello \<noteq> PROTOCOL_NAME
     then Inl (frame_invalid (''unknown protocol: '' @ h_protocol hello))
     else if negotiate_major (drop_bit 8 (h_version hello)) = None
     then Inl (RiftError.Frame (FrameReject.ProtocolVersionUnsupported (h_version hello) encoded_version))
     else case negotiate (server_codecs libs config) (h_codecs hello) of
       Inl e \<Rightarrow> Inl e
     | Inr codec \<Rightarrow>
    (case ap_authenticate auth (select_auth_mode (ap_supported_modes auth) (h_auth_modes hello)) token a of
       Inl e \<Rightarrow> Inl e
     | Inr ctx \<Rightarrow>
         if h_codecs hello = [] then Inl (frame_invalid ''hello must include at least one codec'')
         else if case token of Some t \<Rightarrow> 8192 < length t | None \<Rightarrow> False
         then Inl (RiftError.Frame (FrameReject.PayloadTooLarge (length (the token)) 8192))
         else if 1024 < length (h_last_offsets hello)
         then Inl (frame_invalid ''hello last_offsets exceeds maximum 1024 entries'')
         else Inr (hello, codec, ctx))))"

section \<open>The session\<close>

text \<open>The heads of the topics the client names.\<close>

definition topic_heads ::
  "('o, 'l, 'd, 's) BrokerStores \<Rightarrow> ('o, 'l, 'd, 's) InMemoryBroker \<Rightarrow> (string, i64) hmap \<Rightarrow> (string, i64) hmap" where
  "topic_heads ops b last_offsets =
    foldl (\<lambda>m t. hm_put t (InMemoryBroker_head_offset ops t b) m) [] (map fst last_offsets)"

text \<open>Lookup or creation: the session's id and, on a resume, the decision.\<close>

definition open_session ::
  "('o, 'l, 'd, 's) BrokerStores \<Rightarrow> i64 \<Rightarrow> string \<Rightarrow> Hello \<Rightarrow> AuthContext \<Rightarrow> ('o, 'l, 'd, 's) Node
    \<Rightarrow> (string \<times> ResumeDecision option) rift_result \<times> ('o, 'l, 'd, 's) Node" where
  "open_session ops now fresh_id hello ctx nd =
    (case h_session_id hello of
       Some sid \<Rightarrow>
         (case SessionStore_get sid (nd_sessions nd) of
            None \<Rightarrow> (Inl (RiftError.Session (SessionReject.NotFound sid)), nd)
          | Some existing \<Rightarrow>
              let incoming = unwrap_or 0 (h_epoch hello);
                  conflict = Inl (RiftError.Session (SessionReject.Conflict incoming (s_epoch existing)))
              in if incoming \<noteq> s_epoch existing then (conflict, nd)
                 else if s_state existing \<in> {SessionState.Active, SessionState.Ready} then (conflict, nd)
                 else
                   let resumed = Session_set_state now SessionState.Resuming (snd (Session_bump_epoch existing));
                       nd1 = nd\<lparr>nd_sessions := SessionStore_update sid (\<lambda>_. resumed) (nd_sessions nd)\<rparr>
                   in case ResumeManager_evaluate resumed (h_last_offsets hello)
                        (topic_heads ops (nd_broker nd1) (h_last_offsets hello)) of
                        Inl e \<Rightarrow> (Inl e, nd1\<lparr>nd_metrics := Metrics_inc m_resume_failed_total_update (nd_metrics nd1)\<rparr>)
                      | Inr d \<Rightarrow> (Inr (sid, Some d), nd1))
     | None \<Rightarrow>
         let s = Session_new now fresh_id (ac_client_id ctx)
         in (Inr (fresh_id, None), nd\<lparr>nd_sessions := snd (SessionStore_insert s (nd_sessions nd))\<rparr>))"

definition count_resume :: "ResumeDecision option \<Rightarrow> Metrics \<Rightarrow> Metrics" where
  "count_resume d m =
    (case d of
       None \<Rightarrow> m
     | Some d \<Rightarrow>
         if d \<in> {ResumeDecision.FullResume, ResumeDecision.PartialResume, ResumeDecision.Replaying}
         then Metrics_inc m_resume_success_total_update m else Metrics_inc m_resume_failed_total_update m)"

primrec resume_result_str :: "ResumeDecision \<Rightarrow> string" where
  "resume_result_str ResumeDecision.FullResume = ''resumed''"
| "resume_result_str ResumeDecision.PartialResume = ''partial''"
| "resume_result_str ResumeDecision.Replaying = ''replaying''"
| "resume_result_str ResumeDecision.SnapshotRequired = ''snapshot_required''"
| "resume_result_str ResumeDecision.ColdStart = ''cold_start''"
| "resume_result_str ResumeDecision.Rejected = ''rejected''"

section \<open>Welcome and ready\<close>

text \<open>\<open>d.as_millis() as u32\<close>, as a JSON number.\<close>

definition json_u32 :: "nat \<Rightarrow> json" where
  "json_u32 n = json_u64 (ucast (word_of_nat n :: u32))"

definition session_frame :: "Libs \<Rightarrow> i64 \<Rightarrow> Session \<Rightarrow> EncodingFormat \<Rightarrow> json \<Rightarrow> Frame" where
  "session_frame libs now session codec body =
    Frame_default\<lparr>fr_frame_type := FrameType.Control, fr_codec := codec, fr_session_id := Some (s_id session),
      fr_payload := Some (lb_to_string libs body), fr_timestamp := now\<rparr>"

definition welcome_body :: "i64 \<Rightarrow> Session \<Rightarrow> EncodingFormat \<Rightarrow> string option \<Rightarrow> ServerConfig \<Rightarrow> json" where
  "welcome_body now session codec resume_result config = JObject
    ([(''epoch'', json_u64 (ucast (s_epoch session))),
      (''features'', JArray (map JString (ServerConfig_supported_features config))),
      (''negotiated_codec'', JString (EncodingFormat_name codec))]
     @ (case resume_result of Some r \<Rightarrow> [(''resume_result'', JString r)] | None \<Rightarrow> [])
     @ [(''resume_window_ms'', json_u32 (sc_replay_window config)), (''server_time'', json_i64 now),
        (''session_id'', JString (s_id session)), (''type'', JString ''welcome'')])"

definition build_welcome_frame ::
  "Libs \<Rightarrow> i64 \<Rightarrow> Session \<Rightarrow> EncodingFormat \<Rightarrow> string option \<Rightarrow> ServerConfig \<Rightarrow> Frame" where
  "build_welcome_frame libs now session codec resume_result config =
    session_frame libs now session codec (welcome_body now session codec resume_result config)"

definition ready_body :: "i64 \<Rightarrow> Session \<Rightarrow> ServerConfig \<Rightarrow> json" where
  "ready_body now session config = JObject
    [(''epoch'', json_u64 (ucast (s_epoch session))),
     (''idle_timeout_ms'', json_u32 (hp_idle_timeout (sc_heartbeat config))),
     (''jitter_ms'', json_u32 (hp_jitter (sc_heartbeat config))),
     (''max_missed_pongs'', json_u64 (ucast (hp_max_missed_pongs (sc_heartbeat config)))),
     (''max_payload_bytes'', json_u32 (unat (sc_max_payload_bytes config))),
     (''max_send_queue_bytes'', json_u32 (unat (sc_max_send_queue_bytes config))),
     (''max_topics_per_connection'', json_u32 (unat (sc_max_topics_per_connection config))),
     (''ping_interval_ms'', json_u32 (hp_ping_interval (sc_heartbeat config))),
     (''pong_timeout_ms'', json_u32 (hp_pong_timeout (sc_heartbeat config))),
     (''server_time'', json_i64 now), (''session_id'', JString (s_id session)), (''type'', JString ''ready'')]"

definition build_ready_frame :: "Libs \<Rightarrow> i64 \<Rightarrow> Session \<Rightarrow> ServerConfig \<Rightarrow> EncodingFormat \<Rightarrow> Frame" where
  "build_ready_frame libs now session config codec =
    session_frame libs now session codec (ready_body now session config)"

text \<open>The frames replayed on a resume, in the order they are written.\<close>

definition replay_frame :: "string \<Rightarrow> bytes \<Rightarrow> Frame" where
  "replay_frame topic data =
    Frame_mark_replay (Frame_default\<lparr>fr_frame_type := FrameType.Data, fr_codec := EncodingFormat.Json,
      fr_payload := Some data, fr_flags := 0, fr_topic := Some topic\<rparr>)"

definition replay_frames ::
  "('o, 'l, 'd, 's) BrokerStores \<Rightarrow> ('o, 'l, 'd, 's) InMemoryBroker \<Rightarrow> (string, i64) hmap \<Rightarrow> Frame list" where
  "replay_frames ops b last_offsets =
    concat (map (\<lambda>(topic, last_offset).
      let head = InMemoryBroker_head_offset ops topic b
      in if last_offset < head
         then (case InMemoryBroker_replay ops topic (last_offset + 1) head b of
                 Inr frames \<Rightarrow> map (replay_frame topic) frames
               | Inl _ \<Rightarrow> [])
         else []) last_offsets)"

definition handshake ::
  "Libs \<Rightarrow> ('o, 'l, 'd, 's) BrokerStores \<Rightarrow> 'a AuthProvider \<Rightarrow> 't Transport \<Rightarrow> ServerConfig \<Rightarrow> i64 \<Rightarrow> string
    \<Rightarrow> 'a \<Rightarrow> 't \<Rightarrow> ('o, 'l, 'd, 's) Node
    \<Rightarrow> (string \<times> EncodingFormat) rift_result \<times> 't \<times> ('o, 'l, 'd, 's) Node" where
  "handshake libs ops auth T config now fresh_id a t nd =
    (case tr_read_frame T t of
       (Inl e, t) \<Rightarrow> (Inl e, t, nd)
     | (Inr frame, t) \<Rightarrow>
    (case check_hello libs auth config a frame of
       Inl e \<Rightarrow> (Inl e, t, nd)
     | Inr (hello, codec, ctx) \<Rightarrow>
    (case open_session ops now fresh_id hello ctx nd of
       (Inl e, nd) \<Rightarrow> (Inl e, t, nd)
     | (Inr (sid, decision), nd) \<Rightarrow>
         let nd = nd\<lparr>nd_metrics := count_resume decision (nd_metrics nd),
                     nd_sessions := SessionStore_update sid (Session_set_state now SessionState.Ready) (nd_sessions nd)\<rparr>;
             session = unwrap_or (Session_new now sid (ac_client_id ctx)) (SessionStore_get sid (nd_sessions nd));
             fc = pc_frame_codec codec;
             welcome = build_welcome_frame libs now session fc (map_option resume_result_str decision) config
         in case tr_write_frame T welcome t of
              (Inl e, t) \<Rightarrow> (Inl e, t, nd)
            | (Inr _, t) \<Rightarrow>
                let t = (if decision \<in> {Some ResumeDecision.PartialResume, Some ResumeDecision.Replaying}
                         then write_all T (replay_frames ops (nd_broker nd) (h_last_offsets hello)) t else t)
                in case tr_write_frame T (build_ready_frame libs now session config fc) t of
                     (Inl e, t) \<Rightarrow> (Inl e, t, nd)
                   | (Inr _, t) \<Rightarrow>
                       (Inr (sid, fc), t,
                        nd\<lparr>nd_sessions := SessionStore_update sid (Session_set_state now SessionState.Active)
                             (nd_sessions nd)\<rparr>))))"

end
