(* ===== verification/Server.thy ===== *)
theory Server
  imports Handshake
begin

text \<open>
  The server (\<open>rifts/src/server.rs\<close>) and the life of its connections: building, accepting, the
  run of a connection (\<open>Connection::new\<close>, \<open>run\<close>), and the maintenance task.  The spawned tasks
  interleave: a step is an accept, the start of a connection's task, an iteration of a
  reader or writer, or a maintenance sweep.
\<close>

section \<open>Building a server\<close>

text \<open>The transport factory holds the message size limit of the listener it will bind.\<close>

record WebSocketFactory =
  wf_max_message_size :: usize

record ('o, 'l, 'd, 's) RiftServerBuilder =
  rb_config :: ServerConfig
  rb_broker :: "('o, 'l, 'd, 's) InMemoryBroker option"
  rb_metrics :: "Metrics option"
  rb_session_store :: "SessionStore option"
  rb_transport :: "WebSocketFactory option"

type_synonym memory_builder =
  "(MemoryOffsetStore, MemoryLogStore, MemoryDedupeStore, MemorySnapshotStore) RiftServerBuilder"

definition RiftServerBuilder_new :: "('o, 'l, 'd, 's) RiftServerBuilder" where
  "RiftServerBuilder_new =
    \<lparr> rb_config = ServerConfig_default, rb_broker = None, rb_metrics = None, rb_session_store = None,
      rb_transport = None \<rparr>"

text \<open>\<open>RiftServerBuilder::{config, broker, metrics, session_store, websocket_transport}\<close>.\<close>

definition RiftServerBuilder_config ::
  "ServerConfig \<Rightarrow> ('o, 'l, 'd, 's) RiftServerBuilder \<Rightarrow> ('o, 'l, 'd, 's) RiftServerBuilder" where
  "RiftServerBuilder_config config rb = rb\<lparr>rb_config := config\<rparr>"

definition RiftServerBuilder_broker ::
  "('o, 'l, 'd, 's) InMemoryBroker \<Rightarrow> ('o, 'l, 'd, 's) RiftServerBuilder \<Rightarrow> ('o, 'l, 'd, 's) RiftServerBuilder" where
  "RiftServerBuilder_broker broker rb = rb\<lparr>rb_broker := Some broker\<rparr>"

definition RiftServerBuilder_metrics ::
  "Metrics \<Rightarrow> ('o, 'l, 'd, 's) RiftServerBuilder \<Rightarrow> ('o, 'l, 'd, 's) RiftServerBuilder" where
  "RiftServerBuilder_metrics metrics rb = rb\<lparr>rb_metrics := Some metrics\<rparr>"

definition RiftServerBuilder_session_store ::
  "SessionStore \<Rightarrow> ('o, 'l, 'd, 's) RiftServerBuilder \<Rightarrow> ('o, 'l, 'd, 's) RiftServerBuilder" where
  "RiftServerBuilder_session_store store rb = rb\<lparr>rb_session_store := Some store\<rparr>"

definition RiftServerBuilder_websocket_transport ::
  "('o, 'l, 'd, 's) RiftServerBuilder \<Rightarrow> ('o, 'l, 'd, 's) RiftServerBuilder" where
  "RiftServerBuilder_websocket_transport rb = rb\<lparr>rb_transport := Some \<lparr> wf_max_message_size = 0 \<rparr>\<rparr>"

text \<open>\<open>sv_spawned\<close>: connection tasks that have not run yet; \<open>sv_conns\<close>: connections in their
  active phase.\<close>

record ('o, 'l, 'd, 's) RiftServer =
  sv_config :: ServerConfig
  sv_node :: "('o, 'l, 'd, 's) Node"
  sv_transport :: "WebSocketFactory option"
  sv_next_conn_id :: u64
  sv_spawned :: "u64 list"
  sv_conns :: "(u64, ConnLocal) hmap"

definition RiftServerBuilder_build ::
  "memory_builder \<Rightarrow> (MemoryOffsetStore, MemoryLogStore, MemoryDedupeStore, MemorySnapshotStore) RiftServer" where
  "RiftServerBuilder_build rb =
    (let config = rb_config rb;
         broker = unwrap_or (InMemoryBroker_new (sc_default_topic_profile config) (sc_dedupe_window config)
                              (sc_max_payload_bytes config)) (rb_broker rb)
     in \<lparr> sv_config = config,
          sv_node = \<lparr> nd_broker = broker, nd_net = \<lparr> nt_channels = [], nt_sinks = [] \<rparr>,
            nd_acks = AckManager_new, nd_sessions = unwrap_or SessionStore_new (rb_session_store rb),
            nd_metrics = unwrap_or Metrics_new (rb_metrics rb) \<rparr>,
          sv_transport = map_option (\<lambda>_. \<lparr> wf_max_message_size = sc_max_payload_bytes config \<rparr>) (rb_transport rb),
          sv_next_conn_id = 1, sv_spawned = [], sv_conns = [] \<rparr>)"

section \<open>Accepting\<close>

definition spawn_connection :: "('o, 'l, 'd, 's) RiftServer \<Rightarrow> ('o, 'l, 'd, 's) RiftServer" where
  "spawn_connection sv =
    (let limit = sc_max_connections (sv_config sv)
     in if 0 < limit \<and> limit \<le> m_active_connections (nd_metrics (sv_node sv)) then sv
        else sv\<lparr>sv_next_conn_id := sv_next_conn_id sv + 1,
                sv_spawned := sv_spawned sv @ [sv_next_conn_id sv]\<rparr>)"

section \<open>The run of a connection\<close>

definition Channel_new :: Channel where
  "Channel_new = \<lparr> ch_queue = [], ch_capacity = 1024, ch_open = True, ch_in_flight_bytes = 0 \<rparr>"

definition Connection_new :: "u64 \<Rightarrow> bytes \<Rightarrow> ServerConfig \<Rightarrow> string \<Rightarrow> EncodingFormat \<Rightarrow> ConnLocal" where
  "Connection_new conn_id uuid config sid codec =
    \<lparr> cn_id = conn_id, cn_sink_id = new_sink_id uuid, cn_session_id = sid, cn_codec = codec,
      cn_max_bytes = sc_max_send_queue_bytes config, cn_published_topics = [], cn_subscription_sinks = [],
      cn_slot = True \<rparr>"

definition handshake_close_code :: "RiftError \<Rightarrow> CloseCode" where
  "handshake_close_code e = (case e of RiftError.Auth _ \<Rightarrow> CloseCode.AuthFailed | _ \<Rightarrow> CloseCode.ProtocolError)"

text \<open>The first part of \<open>run\<close>: \<open>Some\<close> connection when the handshake succeeded.\<close>

definition Connection_start ::
  "Libs \<Rightarrow> ('o, 'l, 'd, 's) BrokerStores \<Rightarrow> 'a AuthProvider \<Rightarrow> 't Transport \<Rightarrow> ServerConfig \<Rightarrow> u64 \<Rightarrow> i64
    \<Rightarrow> string \<Rightarrow> bytes \<Rightarrow> 'a \<Rightarrow> 't \<Rightarrow> ('o, 'l, 'd, 's) Node
    \<Rightarrow> ConnLocal rift_result \<times> 't \<times> ('o, 'l, 'd, 's) Node" where
  "Connection_start libs ops auth T config c now fresh_id uuid a t nd =
    (let nd = nd\<lparr>nd_metrics := Metrics_inc m_active_connections_update
                  (Metrics_inc m_connection_open_total_update (nd_metrics nd))\<rparr>
     in case handshake libs ops auth T config now fresh_id a t nd of
          (Inl e, t, nd) \<Rightarrow>
            (Inl e, snd (tr_close T (handshake_close_code e) (RiftError_to_string e) t),
             nd\<lparr>nd_metrics := m_active_connections_update (\<lambda>n. n - 1)
                  (Metrics_inc m_connection_close_total_update (nd_metrics nd))\<rparr>)
        | (Inr (sid, codec), t, nd) \<Rightarrow>
            (Inr (Connection_new c uuid config sid codec), t,
             nd\<lparr>nd_net := (nd_net nd)\<lparr>nt_channels := hm_put c Channel_new (nt_channels (nd_net nd))\<rparr>\<rparr>))"

section \<open>Maintenance\<close>

definition run_maintenance ::
  "('o, 'l, 'd, 's) BrokerStores \<Rightarrow> i64 \<Rightarrow> nat \<Rightarrow> ('o, 'l, 'd, 's) Node \<Rightarrow> ('o, 'l, 'd, 's) Node" where
  "run_maintenance ops now idle_timeout nd =
    nd\<lparr>nd_broker := snd (InMemoryBroker_maintain ops now (nd_broker nd)),
       nd_sessions := snd (SessionStore_expire_sessions now idle_timeout (nd_sessions nd)),
       nd_acks := snd (AckManager_reap_all_timeouts now (nd_acks nd))\<rparr>"

section \<open>Steps\<close>

datatype 't ServerEvent =
    Accept
  | Start u64 i64 string bytes 't
  | Conn u64 ConnEvent
  | Sweep_tick i64

primrec server_step ::
  "Libs \<Rightarrow> ('o, 'l, 'd, 's) BrokerStores \<Rightarrow> 'a AuthProvider \<Rightarrow> 't Transport \<Rightarrow> 'a \<Rightarrow> 't ServerEvent
    \<Rightarrow> ('o, 'l, 'd, 's) RiftServer \<Rightarrow> ('o, 'l, 'd, 's) RiftServer" where
  "server_step libs ops auth T a Accept sv = spawn_connection sv"
| "server_step libs ops auth T a (Start c now fresh_id uuid t) sv =
    (if c \<notin> set (sv_spawned sv) then sv
     else
       let sv = sv\<lparr>sv_spawned := remove1 c (sv_spawned sv)\<rparr>
       in case Connection_start libs ops auth T (sv_config sv) c now fresh_id uuid a t (sv_node sv) of
            (Inl _, _, nd) \<Rightarrow> sv\<lparr>sv_node := nd\<rparr>
          | (Inr cl, _, nd) \<Rightarrow> sv\<lparr>sv_node := nd, sv_conns := hm_put c cl (sv_conns sv)\<rparr>)"
| "server_step libs ops auth T a (Conn c ev) sv =
    (case hm_get (sv_conns sv) c of
       None \<Rightarrow> sv
     | Some cl \<Rightarrow>
         (case conn_event libs ops ev cl (sv_node sv) of
            (None, cl', nd) \<Rightarrow> sv\<lparr>sv_node := nd, sv_conns := hm_put c cl' (sv_conns sv)\<rparr>
          | (Some _, cl', nd) \<Rightarrow> sv\<lparr>sv_node := snd (teardown cl' nd), sv_conns := hm_del c (sv_conns sv)\<rparr>))"
| "server_step libs ops auth T a (Sweep_tick now) sv =
    sv\<lparr>sv_node := run_maintenance ops now (sc_idle_timeout (sv_config sv)) (sv_node sv)\<rparr>"

text \<open>Reachable states, while the 64-bit counters of subscriptions and connections have not
  wrapped around.\<close>

definition counters_ok :: "('o, 'l, 'd, 's) RiftServer \<Rightarrow> bool" where
  "counters_ok sv \<longleftrightarrow> fe_seq (b_fanout (nd_broker (sv_node sv))) \<noteq> - 1 \<and> sv_next_conn_id sv \<noteq> - 1"

inductive server_reach ::
  "Libs \<Rightarrow> ('o, 'l, 'd, 's) BrokerStores \<Rightarrow> 'a AuthProvider \<Rightarrow> 't Transport \<Rightarrow> 'a
    \<Rightarrow> ('o, 'l, 'd, 's) RiftServer \<Rightarrow> ('o, 'l, 'd, 's) RiftServer \<Rightarrow> bool"
  for libs ops auth T a sv0 where
  start: "server_reach libs ops auth T a sv0 sv0"
| step: "server_reach libs ops auth T a sv0 sv \<Longrightarrow> counters_ok sv
    \<Longrightarrow> server_reach libs ops auth T a sv0 (server_step libs ops auth T a ev sv)"

end
