(* ===== verification/Server_Demo.thy ===== *)
theory Server_Demo
  imports Server
begin

text \<open>A concrete run of the server model, used by the witnesses of the server's properties.\<close>

section \<open>A run\<close>

text \<open>A run used by the witnesses: a client without credentials connects, subscribes to a topic
  and disconnects.  The library and the transport are the least ones that carry it.\<close>

definition demo_libs :: Libs where
  "demo_libs =
    \<lparr> lb_to_string = (\<lambda>_. [0, 0, 0, 0]), lb_to_vec = (\<lambda>_. Inr [0]),
      lb_from_slice = (\<lambda>b.
        if b = [1] then Inr (JObject [(''protocol'', JString ''rift''), (''version'', JNumber (PosInt 256)),
          (''codecs'', JArray [JString ''json'']), (''auth_modes'', JArray [JString ''anonymous''])])
        else if b = [2] then Inr (JObject [(''type'', JString ''subscribe''), (''topic'', JString ''t'')])
        else Inl ''unexpected''),
      lb_cbor_to = (\<lambda>_. Inr [0]), lb_cbor_from = (\<lambda>_. Inl ''unexpected'') \<rparr>"

definition demo_transport :: "Frame Transport" where
  "demo_transport =
    \<lparr> tr_read_frame = (\<lambda>f. (Inr f, f)), tr_write_frame = (\<lambda>_ f. (Inr (), f)), tr_close = (\<lambda>_ _ f. (Inr (), f)) \<rparr>"

abbreviation demo_control :: "bytes \<Rightarrow> Frame" where
  "demo_control b \<equiv> Frame_control\<lparr>fr_payload := Some b\<rparr>"

abbreviation demo_step ::
  "Frame ServerEvent \<Rightarrow> (MemoryOffsetStore, MemoryLogStore, MemoryDedupeStore, MemorySnapshotStore) RiftServer
    \<Rightarrow> (MemoryOffsetStore, MemoryLogStore, MemoryDedupeStore, MemorySnapshotStore) RiftServer" where
  "demo_step \<equiv> server_step demo_libs memory_stores AllowAllAuth_provider demo_transport ()"

abbreviation demo_server where "demo_server \<equiv> RiftServerBuilder_build RiftServerBuilder_new"

definition demo_started :: "(MemoryOffsetStore, MemoryLogStore, MemoryDedupeStore, MemorySnapshotStore) RiftServer" where
  "demo_started = demo_step (Start 1 10 ''s1'' [] (demo_control [1])) (demo_step Accept demo_server)"

definition demo_subscribed :: "(MemoryOffsetStore, MemoryLogStore, MemoryDedupeStore, MemorySnapshotStore) RiftServer" where
  "demo_subscribed = demo_step (Conn 1 (Rd \<lparr> ri_event = FrameRead (demo_control [2]), ri_now = 11,
     ri_sink_uuid = [7], ri_ack_uuid = ''u'' \<rparr>)) demo_started"

lemmas demo_server_defs = demo_libs_def demo_transport_def RiftServerBuilder_build_def RiftServerBuilder_new_def
  ServerConfig_default_def InMemoryBroker_new_def InMemoryBroker_with_stores_def TopicStore_new_def FanoutEngine_new_def
  Metrics_new_def SessionStore_new_def spawn_connection_def Connection_start_def handshake_def check_hello_def
  decode_hello_payload_def hello_version_def hello_codec_def hello_auth_mode_def hello_offsets_def obj_array_def
  obj_str_def obj_u64_def json_as_str_def json_as_u64_def frame_defs PROTOCOL_NAME_def negotiate_major_def SUPPORTED_MAJOR_def
  negotiate_def server_codecs_def JsonCodec_def CborCodec_def select_auth_mode_def AllowAllAuth_provider_def
  AllowAllAuth_authenticate_def open_session_def count_resume_def SessionStore_update_def SessionStore_get_def
  SessionStore_insert_def Session_new_def Session_set_state_def Session_touch_def Metrics_inc_def Connection_new_def
  default_modes_def

lemma demo_started_eq:
  "sv_conns demo_started = [(1, Connection_new 1 [] ServerConfig_default ''s1'' EncodingFormat.Json)]"
  "sv_spawned demo_started = []" "sv_next_conn_id demo_started = 2"
  "map_option s_state (SessionStore_get ''s1'' (nd_sessions (sv_node demo_started))) = Some SessionState.Active"
  "map_option s_epoch (SessionStore_get ''s1'' (nd_sessions (sv_node demo_started))) = Some 1"
  "nd_broker (sv_node demo_started) = InMemoryBroker_new TopicProfile_default 60000 65536"
  "nd_net (sv_node demo_started) = \<lparr> nt_channels = [(1, Channel_new)], nt_sinks = [] \<rparr>"
  by (simp_all add: demo_started_def demo_server_defs Let_def List.map_filter_simps)

lemmas demo_subscribe_defs = reader_step_def reader_dispatch_def handle_control_def control_body_def
  control_subscribe_def subscribe_intent_def json_get_def json_as_str_def InMemoryBroker_subscribe_def
  validate_name_def LocalRouter_route_def TopicStore_get_or_create_def TopicEntry_try_inc_subscriber_def
  slot_next_def TopicEntry_new_def FanoutEngine_subscribe_def out_send_def try_send_def new_sink_id_def
  hm_get_or_def hm_or_insert_def Channel_new_def control_frame_def frame_defs

lemma demo_subscribed_eq:
  "map fst (sv_conns demo_subscribed) = [1]" "sv_spawned demo_subscribed = []"
  "fe_by_id (b_fanout (nd_broker (sv_node demo_subscribed))) = [(1, ''t'', 7)]"
  "map_option ch_queue (hm_get (nt_channels (nd_net (sv_node demo_subscribed))) 1)
    = Some [control_frame EncodingFormat.Json None (Some [0, 0, 0, 0])]"
  by (simp_all add: demo_subscribed_def demo_started_eq demo_subscribe_defs demo_server_defs Let_def
      TopicProfile_default_def from_be_def)

text \<open>The states of the run are reachable.\<close>

abbreviation demo_reach where
  "demo_reach \<equiv> server_reach demo_libs memory_stores AllowAllAuth_provider demo_transport () demo_server"

lemma demo_reach_started: "demo_reach demo_started"
proof -
  have "counters_ok demo_server" "counters_ok (demo_step Accept demo_server)"
    by (simp_all add: counters_ok_def demo_server_defs Let_def)
  then show ?thesis
    unfolding demo_started_def by (intro server_reach.step server_reach.start)
qed

lemma demo_reach_subscribed: "demo_reach demo_subscribed"
proof -
  have "counters_ok demo_started"
    by (simp add: counters_ok_def demo_started_eq InMemoryBroker_new_def InMemoryBroker_with_stores_def FanoutEngine_new_def)
  then show ?thesis
    unfolding demo_subscribed_def by (rule server_reach.step [OF demo_reach_started])
qed

lemma demo_builder: "rb_broker RiftServerBuilder_new = None" "rb_metrics RiftServerBuilder_new = None"
  "rb_session_store RiftServerBuilder_new = None"
  by (simp_all add: RiftServerBuilder_new_def)

end
