(* ===== verification/Broker_History.thy ===== *)
theory Broker_History
  imports Broker
begin

text \<open>
  What the broker stores and replays, for any stores that keep their contracts: the
  locale \<open>broker_stores\<close> joins the four contracts, its lemmas follow a run of broker
  operations, and its interpretations are the memory stores and stores on sled trees.
\<close>

section \<open>The broker on stores that keep their contracts\<close>

locale broker_stores =
  off: offset_store "bs_alloc ops" "bs_head ops" oremove oinv topic_ok +
  lg: log_store "bs_append ops" "bs_range ops" latest lremove entries retain linv topic_ok entry_ok +
  dd: dedupe_store "bs_check ops" "bs_sweep ops" expiry dinv topic_ok +
  sn: snapshot_store "bs_capture ops" "bs_get ops" sremove current sinv topic_ok
  for ops :: "('o, 'l, 'd, 's) BrokerStores"
    and oremove oinv topic_ok latest lremove entries retain linv entry_ok expiry dinv sremove current sinv +
  assumes valid_topic: "validate_name t = Inr () \<Longrightarrow> topic_ok t"
    and durable: "retain now Durable e g = g"
    and broker_entry: "le_appended_at e = None \<Longrightarrow> entry_ok e"

text \<open>What an operation published: the topic and payload of an accepted publish.\<close>

definition op_published ::
  "('o, 'l, 'd, 's) BrokerStores \<Rightarrow> 'w sink_deliver \<Rightarrow> broker_op
    \<Rightarrow> ('o, 'l, 'd, 's) InMemoryBroker \<times> 'w \<Rightarrow> (string \<times> bytes) list" where
  "op_published ops deliver op s =
    (case op of
       Publish now frame \<Rightarrow>
         (case fst (InMemoryBroker_publish ops deliver now frame (fst s) (snd s)) of
            Inr _ \<Rightarrow> [(the (fr_topic frame), case fr_payload frame of None \<Rightarrow> [] | Some p \<Rightarrow> p)]
          | Inl _ \<Rightarrow> [])
     | _ \<Rightarrow> [])"

fun broker_history ::
  "('o, 'l, 'd, 's) BrokerStores \<Rightarrow> 'w sink_deliver \<Rightarrow> broker_op list
    \<Rightarrow> ('o, 'l, 'd, 's) InMemoryBroker \<times> 'w
    \<Rightarrow> (string \<times> bytes) list \<times> ('o, 'l, 'd, 's) InMemoryBroker \<times> 'w" where
  "broker_history ops deliver [] s = ([], s)"
| "broker_history ops deliver (op # rest) s =
    (case broker_history ops deliver rest (broker_apply ops deliver op s) of
       (h, s') \<Rightarrow> (op_published ops deliver op s @ h, s'))"

text \<open>The clock of an operation is before \<open>e\<close>.\<close>

primrec op_before :: "i64 \<Rightarrow> broker_op \<Rightarrow> bool" where
  "op_before e (Publish now _) = (now < e)"
| "op_before e (Subscribe _ _ _) = True"
| "op_before e (Unsubscribe _) = True"
| "op_before e (DropSinkOp _) = True"
| "op_before e (DecPublisher _) = True"
| "op_before e (Maintain now) = (now < e)"

definition profiles_default :: "('o, 'l, 'd, 's) InMemoryBroker \<Rightarrow> bool" where
  "profiles_default b \<longleftrightarrow> (\<forall>t e. hm_get (b_store b) t = Some e \<longrightarrow> te_profile e = b_default_profile b)"

lemma route_profile:
  "profiles_default b \<Longrightarrow> LocalRouter_route (b_default_profile b) topic (b_store b) = Some (entry, st)
    \<Longrightarrow> te_profile entry = b_default_profile b"
  using route_Some(2) [of "b_default_profile b" topic "b_store b" entry st]
  by (auto simp: profiles_default_def TopicEntry_new_def split: option.splits)

text \<open>The operations other than publish leave offsets, log and snapshots alone.\<close>

lemma release_all_profile:
  "hm_get (foldl (\<lambda>st topic. TopicStore_update topic TopicEntry_dec_subscriber st) st topics) t = Some e
    \<Longrightarrow> \<exists>e0. hm_get st t = Some e0 \<and> te_profile e = te_profile e0"
proof -
  have "te_profile ((TopicEntry_dec_subscriber ^^ n) x) = te_profile x" for n x
    by (induction n) (simp_all add: TopicEntry_dec_subscriber_def)
  then show "hm_get (foldl (\<lambda>st topic. TopicStore_update topic TopicEntry_dec_subscriber st) st topics) t = Some e
    \<Longrightarrow> \<exists>e0. hm_get st t = Some e0 \<and> te_profile e = te_profile e0"
    by (auto simp: release_all_get)
qed

lemma apply_not_publish:
  assumes "\<And>now frame. op \<noteq> Publish now frame" "broker_apply ops deliver op (b, w) = (b', w')"
  shows "b_offsets b' = b_offsets b" "b_log b' = b_log b" "b_snapshots b' = b_snapshots b"
    "b_default_profile b' = b_default_profile b"
    "b_dedupe b' = b_dedupe b \<or> (\<exists>now. b_dedupe b' = snd (bs_sweep ops now (b_dedupe b)))"
    "profiles_default b \<Longrightarrow> profiles_default b'"
proof -
  have all: "b_offsets b' = b_offsets b \<and> b_log b' = b_log b \<and> b_snapshots b' = b_snapshots b
    \<and> b_default_profile b' = b_default_profile b
    \<and> (b_dedupe b' = b_dedupe b \<or> (\<exists>now. b_dedupe b' = snd (bs_sweep ops now (b_dedupe b))))
    \<and> (profiles_default b \<longrightarrow> profiles_default b')"
  proof (cases op)
    case (Subscribe topic intent sink)
    show ?thesis
    proof (cases "LocalRouter_route (b_default_profile b) topic (b_store b)")
      case None
      then show ?thesis
        using assms(2) Subscribe by (auto simp: InMemoryBroker_subscribe_def split: sum.splits)
    next
      case (Some es)
      obtain entry st where es: "es = (entry, st)" by (cases es)
      note rs = route_Some [OF Some [unfolded es]]
      have "profiles_default b \<Longrightarrow> te_profile entry = b_default_profile b"
        using route_profile Some es by blast
      then show ?thesis
        using assms(2) Subscribe Some es rs(1,3)
        by (auto simp: InMemoryBroker_subscribe_def try_inc_subscriber_eq profiles_default_def
            split: prod.splits if_splits)
    qed
  next
    case (Unsubscribe i)
    then show ?thesis
      using assms(2) by (auto simp: InMemoryBroker_unsubscribe_def profiles_default_def update_get
          TopicEntry_dec_subscriber_def split: prod.splits option.splits if_splits)
  next
    case (DropSinkOp k)
    then show ?thesis
      using assms(2) by (auto simp: InMemoryBroker_drop_sink_def profiles_default_def
          split: prod.splits dest!: release_all_profile)
  next
    case (DecPublisher topic)
    then show ?thesis
      using assms(2) by (auto simp: InMemoryBroker_dec_publisher_def profiles_default_def update_get
          TopicEntry_dec_publisher_def split: if_splits)
  next
    case (Maintain now)
    then show ?thesis
      using assms(2) by (auto simp: InMemoryBroker_maintain_def profiles_default_def split: prod.splits
          intro: exI [of _ now])
  qed (use assms(1) in blast)
  show "b_offsets b' = b_offsets b" "b_log b' = b_log b" "b_snapshots b' = b_snapshots b"
    "b_default_profile b' = b_default_profile b"
    "b_dedupe b' = b_dedupe b \<or> (\<exists>now. b_dedupe b' = snd (bs_sweep ops now (b_dedupe b)))"
    "profiles_default b \<Longrightarrow> profiles_default b'"
    using all by auto
qed

context broker_stores
begin

definition stores_ok :: "('o, 'l, 'd, 's) InMemoryBroker \<Rightarrow> bool" where
  "stores_ok b \<longleftrightarrow> oinv (b_offsets b) \<and> linv (b_log b) \<and> dinv (b_dedupe b) \<and> sinv (b_snapshots b)"

text \<open>On durable topics the log holds the offsets from one to the head.\<close>

definition log_complete :: "('o, 'l, 'd, 's) InMemoryBroker \<Rightarrow> bool" where
  "log_complete b \<longleftrightarrow> (\<forall>t. topic_ok t \<longrightarrow>
    map le_offset (entries (b_log b) t) = map (\<lambda>i. 1 + int i) [0..<nat (bs_head ops t (b_offsets b))])"

definition history_ok :: "('o, 'l, 'd, 's) InMemoryBroker \<Rightarrow> bool" where
  "history_ok b \<longleftrightarrow> stores_ok b \<and> profiles_default b \<and> log_complete b
    \<and> tp_retention (b_default_profile b) = Durable"

lemma head_bounds: "stores_ok b \<Longrightarrow> topic_ok t \<Longrightarrow> 0 \<le> bs_head ops t (b_offsets b)"
  by (simp add: stores_ok_def off.head_nonneg)

text \<open>An entry with the next offset keeps the log complete.\<close>

lemma log_complete_snoc:
  assumes "log_complete b" "le_offset e = bs_head ops topic (b_offsets b) + 1" "0 \<le> bs_head ops topic (b_offsets b)"
    and heads: "\<And>t. topic_ok t \<Longrightarrow> bs_head ops t (b_offsets b') = bs_head ops t (b_offsets b) + (if t = topic then 1 else 0)"
    and ent: "\<And>t. topic_ok t \<Longrightarrow> entries (b_log b') t = entries (b_log b) t @ (if t = topic then [e] else [])"
  shows "log_complete b'"
  unfolding log_complete_def
proof (intro allI impI)
  fix t assume t: "topic_ok t"
  have complete: "map le_offset (entries (b_log b) t) = map (\<lambda>i. 1 + int i) [0..<nat (bs_head ops t (b_offsets b))]"
    using assms(1) t by (simp add: log_complete_def)
  show "map le_offset (entries (b_log b') t) = map (\<lambda>i. 1 + int i) [0..<nat (bs_head ops t (b_offsets b'))]"
  proof (cases "t = topic")
    case True
    then have "nat (bs_head ops t (b_offsets b) + 1) = Suc (nat (bs_head ops t (b_offsets b)))" using assms(3) by simp
    then show ?thesis using ent [OF t] complete heads [OF t] True assms(2,3) by simp
  next
    case False
    then show ?thesis using ent [OF t] complete heads [OF t] by simp
  qed
qed

text \<open>An accepted publish: the next offset, and the entry at the end of the topic's log.\<close>

lemma publish_accepted:
  assumes "history_ok b" "InMemoryBroker_publish ops deliver now frame b w = (Inr out, b', w')"
    and "\<And>t. topic_ok t \<Longrightarrow> bs_head ops t (b_offsets b) < i64_max - 1"
  shows "\<exists>topic mid. fr_topic frame = Some topic \<and> topic_ok topic
    \<and> po_offset out = bs_head ops topic (b_offsets b) + 1
    \<and> history_ok b'
    \<and> (\<forall>t. topic_ok t \<longrightarrow> bs_head ops t (b_offsets b')
        = bs_head ops t (b_offsets b) + (if t = topic then 1 else 0))
    \<and> (\<forall>t. topic_ok t \<longrightarrow> entries (b_log b') t
        = entries (b_log b) t @ (if t = topic then [publish_entry frame mid (po_offset out)] else []))"
  using assms(2)
proof (cases rule: publish_cases)
  case (accepted topic mid entry st fresh d off offs)
  note st = assms(1) [unfolded history_ok_def stores_ok_def]
  have name: "validate_name topic = Inr ()" by (rule route_Some(1) [OF accepted(2)])
  then have t: "topic_ok topic" by (rule valid_topic)
  have topic: "fr_topic frame = Some topic"
    using accepted(1) by (auto simp: validate_publish_def split: option.splits if_splits)
  have prof: "te_profile entry = b_default_profile b" using route_profile accepted(2) st by blast
  let ?h = "\<lambda>t. bs_head ops t (b_offsets b)"
  have bound: "?h topic < i64_max - 1" by (rule assms(3) [OF t])
  have oinv: "oinv (b_offsets b)" and linv: "linv (b_log b)" using st by auto
  have off: "off = ?h topic + 1" "bs_head ops topic offs = ?h topic + 1" "oinv offs"
    using off.alloc_next [OF oinv t bound] off.alloc_inv [OF oinv t bound] accepted(5) by auto
  have off': "bs_head ops t' offs = ?h t'" if "topic_ok t'" "t' \<noteq> topic" for t'
    using off.alloc_other [OF oinv t that] accepted(5) by simp
  have heads: "bs_head ops t' offs = ?h t' + (if t' = topic then 1 else 0)" if "topic_ok t'" for t'
    using off(2) off' [OF that] by simp
  let ?e = "publish_entry frame mid off"
  have h0: "0 \<le> ?h topic" by (rule off.head_nonneg [OF oinv t])
  have complete: "map le_offset (entries (b_log b) t') = map (\<lambda>i. 1 + int i) [0..<nat (?h t')]" if "topic_ok t'" for t'
    using st that by (auto simp: log_complete_def)
  have le: "le_offset x < off" if "x \<in> set (entries (b_log b) topic)" for x
  proof -
    have "le_offset x \<in> set (map le_offset (entries (b_log b) topic))" using that by simp
    then show ?thesis unfolding complete [OF t] using h0 off(1) by auto
  qed
  have fresh: "fresh_entry ?e (entries (b_log b) topic)"
    using le h0 off(1) bound by (auto simp: fresh_entry_def publish_entry_def i64_max_def)
  have "entry_ok ?e" by (rule broker_entry) (simp add: publish_entry_def)
  note ap = lg.append_entries [OF linv t this fresh, of now Durable]
  have log: "b_log b' = bs_append ops now topic ?e Durable (b_log b)"
    using accepted(7) prof st by simp
  have ent: "entries (b_log b') t' = entries (b_log b) t' @ (if t' = topic then [?e] else [])" if "topic_ok t'" for t'
    using ap that unfolding log by (simp add: durable)
  have stores: "stores_ok b'"
    unfolding stores_ok_def
  proof (intro conjI)
    show "oinv (b_offsets b')" using off(3) accepted(7) by simp
    show "linv (b_log b')" using ap unfolding log by blast
    have "dinv d" using dd.check_inv [OF _ t, of "b_dedupe b" now mid "b_dedupe_window b"] st accepted(4) by simp
    then show "dinv (b_dedupe b')" using accepted(7) by simp
    show "sinv (b_snapshots b')" using sn.capture_current [OF _ t] st accepted(7) by simp
  qed
  have "profiles_default b'"
    using st prof route_Some(3) [OF accepted(2)] accepted(7) by (auto simp: profiles_default_def)
  moreover have "log_complete b'"
    by (rule log_complete_snoc [where b = b and topic = topic and e = ?e])
      (use st heads ent accepted(7) off(1) h0 in \<open>auto simp: publish_entry_def\<close>)
  ultimately have "history_ok b'" using stores st accepted(7) by (simp add: history_ok_def)
  moreover have "po_offset out = off" using accepted(6) by simp
  ultimately show ?thesis
    using topic t off(1) heads ent accepted(7) by (intro exI [of _ topic] exI [of _ mid]) simp
qed simp_all

text \<open>A refused publish changes at most the topic store.\<close>

lemma publish_refused:
  assumes "history_ok b" "InMemoryBroker_publish ops deliver now frame b w = (Inl e, b', w')"
  shows "history_ok b' \<and> b_log b' = b_log b \<and> b_offsets b' = b_offsets b"
  using assms(2)
proof (cases rule: publish_cases)
  case (limit topic mid entry st)
  have "te_profile entry = b_default_profile b"
    using route_profile [OF _ limit(2)] assms(1) by (simp add: history_ok_def)
  then have "profiles_default b'"
    using assms(1) route_Some(3) [OF limit(2)] limit(5) by (auto simp: history_ok_def profiles_default_def)
  then show ?thesis
    using assms(1) limit(5) by (simp add: history_ok_def stores_ok_def log_complete_def)
qed (use assms(1) in simp_all)

lemma step_history:
  assumes "history_ok b" "broker_apply ops deliver op (b, w) = (b', w')"
    and "\<And>t. topic_ok t \<Longrightarrow> bs_head ops t (b_offsets b) < i64_max - 1" and "topic_ok t"
  shows "history_ok b' \<and>
    map le_payload (entries (b_log b') t) = map le_payload (entries (b_log b) t)
      @ map snd (filter (\<lambda>p. fst p = t) (op_published ops deliver op (b, w)))
    \<and> bs_head ops t (b_offsets b') = bs_head ops t (b_offsets b)
      + int (length (filter (\<lambda>p. fst p = t) (op_published ops deliver op (b, w))))"
proof (cases "\<exists>now frame. op = Publish now frame")
  case True
  then obtain now frame where op: "op = Publish now frame" by blast
  obtain r where r: "InMemoryBroker_publish ops deliver now frame b w = (r, b', w')"
    using assms(2) op by (cases "InMemoryBroker_publish ops deliver now frame b w") auto
  show ?thesis
  proof (cases r)
    case (Inl e)
    then show ?thesis
      using publish_refused [OF assms(1), of deliver now frame w e b' w'] r by (simp add: op_published_def op)
  next
    case (Inr out)
    then obtain topic mid where p: "fr_topic frame = Some topic" "history_ok b'"
      "\<forall>t. topic_ok t \<longrightarrow> bs_head ops t (b_offsets b') = bs_head ops t (b_offsets b) + (if t = topic then 1 else 0)"
      "\<forall>t. topic_ok t \<longrightarrow> entries (b_log b') t
        = entries (b_log b) t @ (if t = topic then [publish_entry frame mid (po_offset out)] else [])"
      using publish_accepted [OF assms(1) _ assms(3), of deliver now frame w out b' w'] r by blast
    have "op_published ops deliver op (b, w) = [(topic, case fr_payload frame of None \<Rightarrow> [] | Some p \<Rightarrow> p)]"
      using r Inr p(1) by (simp add: op_published_def op)
    then show ?thesis using p(2-4) assms(4) by (simp add: publish_entry_def)
  qed
next
  case False
  then have np: "\<And>now frame. op \<noteq> Publish now frame" by blast
  note same = apply_not_publish [OF np assms(2)]
  have "op_published ops deliver op (b, w) = []" using np by (cases op) (auto simp: op_published_def)
  moreover have "dinv (b_dedupe b')"
    using same(5) assms(1) dd.sweep_inv by (auto simp: history_ok_def stores_ok_def)
  ultimately show ?thesis
    using assms(1) same by (simp add: history_ok_def stores_ok_def log_complete_def)
qed

lemma run_history:
  "\<lbrakk>history_ok b; \<forall>t. topic_ok t \<longrightarrow> bs_head ops t (b_offsets b) + int (length calls) < i64_max - 1;
    broker_history ops deliver calls (b, w) = (h, b', w'); topic_ok t\<rbrakk>
   \<Longrightarrow> history_ok b' \<and>
    map le_payload (entries (b_log b') t) = map le_payload (entries (b_log b) t) @ map snd (filter (\<lambda>p. fst p = t) h)
    \<and> bs_head ops t (b_offsets b') = bs_head ops t (b_offsets b) + int (length (filter (\<lambda>p. fst p = t) h))"
proof (induction calls arbitrary: b w h)
  case (Cons op calls)
  obtain b1 w1 where a: "broker_apply ops deliver op (b, w) = (b1, w1)" by (rule prod.exhaust)
  obtain h1 where r: "broker_history ops deliver calls (b1, w1) = (h1, b', w')"
    and h: "h = op_published ops deliver op (b, w) @ h1"
    using Cons.prems(3) a by (auto split: prod.splits)
  have bound: "bs_head ops t (b_offsets b) < i64_max - 1" if "topic_ok t" for t
    using Cons.prems(2) that by force
  note step = step_history [OF Cons.prems(1) a bound]
  have one: "length (filter P (op_published ops deliver op (b, w))) \<le> 1" for P
    by (auto simp: op_published_def split: broker_op.split sum.split)
  have "bs_head ops t (b_offsets b1) + int (length calls) < i64_max - 1" if "topic_ok t" for t
  proof -
    have "bs_head ops t (b_offsets b) + int (length (op # calls)) < i64_max - 1" using Cons.prems(2) that by blast
    then show ?thesis using step [OF _ that] one [of "\<lambda>p. fst p = t"] by auto
  qed
  then have "\<forall>t. topic_ok t \<longrightarrow> bs_head ops t (b_offsets b1) + int (length calls) < i64_max - 1" by blast
  from Cons.IH [OF _ this r Cons.prems(4)] step [OF _ Cons.prems(4)] show ?case by (simp add: h)
qed simp

text \<open>Replay of the whole log of a durable topic.\<close>

lemma replay_history:
  assumes "history_ok b" "\<forall>t. topic_ok t \<longrightarrow> entries (b_log b) t = []"
    and "\<forall>t. topic_ok t \<longrightarrow> bs_head ops t (b_offsets b) = 0" "int (length calls) < i64_max - 1"
    and "broker_history ops deliver calls (b, w) = (h, b', w')" "topic_ok t"
  shows "InMemoryBroker_replay ops t 1 (InMemoryBroker_head_offset ops t b') b'
      = Inr (map snd (filter (\<lambda>p. fst p = t) h))
    \<and> InMemoryBroker_head_offset ops t b' = int (length (filter (\<lambda>p. fst p = t) h))"
proof -
  have run: "history_ok b'" "map le_payload (entries (b_log b') t) = map snd (filter (\<lambda>p. fst p = t) h)"
    "bs_head ops t (b_offsets b') = int (length (filter (\<lambda>p. fst p = t) h))"
    using run_history [OF assms(1) _ assms(5,6)] assms(2-4,6) by simp_all
  let ?hd = "bs_head ops t (b_offsets b')"
  have offs: "map le_offset (entries (b_log b') t) = map (\<lambda>i. 1 + int i) [0..<nat ?hd]" and inv: "linv (b_log b')"
    using run(1) assms(6) by (auto simp: history_ok_def log_complete_def stores_ok_def)
  have "1 \<le> le_offset e \<and> le_offset e \<le> ?hd" if "e \<in> set (entries (b_log b') t)" for e
  proof -
    have "le_offset e \<in> set (map le_offset (entries (b_log b') t))" using that by simp
    then show ?thesis unfolding offs by auto
  qed
  then have "filter (\<lambda>e. 1 \<le> le_offset e \<and> le_offset e \<le> ?hd) (entries (b_log b') t) = entries (b_log b') t"
    by (simp add: filter_id_conv)
  then show ?thesis
    using run lg.range_entries [OF inv assms(6)]
    by (simp add: InMemoryBroker_replay_def InMemoryBroker_head_offset_def)
qed

text \<open>A deduplication record is kept by every operation whose clock is before its expiry.\<close>

lemma step_expiry:
  assumes "dinv (b_dedupe b)" "topic_ok t" "expiry (b_dedupe b) t k = Some e" "op_before e op"
    and "broker_apply ops deliver op (b, w) = (b', w')"
  shows "dinv (b_dedupe b') \<and> expiry (b_dedupe b') t k = Some e \<and> b_dedupe_window b' = b_dedupe_window b"
proof (cases op)
  case (Publish now frame)
  then obtain r where r: "InMemoryBroker_publish ops deliver now frame b w = (r, b', w')"
    using assms(5) by (cases "InMemoryBroker_publish ops deliver now frame b w") auto
  then show ?thesis
  proof (cases rule: publish_cases)
    case (accepted topic mid entry st fresh d off offs)
    have ok: "topic_ok topic" by (rule valid_topic [OF route_Some(1) [OF accepted(2)]])
    have d: "d = snd (bs_check ops now topic mid (b_dedupe_window b) (b_dedupe b))"
      and f: "fresh = fst (bs_check ops now topic mid (b_dedupe_window b) (b_dedupe b))" using accepted(4) by simp_all
    have "\<not> (t = topic \<and> k = mid \<and> fresh)"
      using dd.check_fresh [OF assms(1) ok, of now mid "b_dedupe_window b"] assms(3,4) Publish f by auto
    then have "expiry d t k = Some e"
      using dd.check_expiry [OF assms(1) ok assms(2), of now mid "b_dedupe_window b" k] assms(3) d f by auto
    then show ?thesis
      using dd.check_inv [OF assms(1) ok, of now mid "b_dedupe_window b"] accepted(7) d by simp
  qed (use assms in simp_all)
next
  case (Maintain now)
  then show ?thesis
    using assms dd.sweep_expiry [OF assms(1,2), of now k] dd.sweep_inv [OF assms(1), of now]
    by (auto simp: InMemoryBroker_maintain_def split: prod.splits)
qed (use assms in \<open>auto simp: InMemoryBroker_subscribe_def InMemoryBroker_unsubscribe_def
      InMemoryBroker_drop_sink_def InMemoryBroker_dec_publisher_def split: sum.splits option.splits prod.splits bool.splits\<close>)

lemma run_expiry:
  "\<lbrakk>dinv (b_dedupe b); topic_ok t; expiry (b_dedupe b) t k = Some e; \<forall>op \<in> set calls. op_before e op;
    broker_history ops deliver calls (b, w) = (h, b', w')\<rbrakk>
   \<Longrightarrow> dinv (b_dedupe b') \<and> expiry (b_dedupe b') t k = Some e"
proof (induction calls arbitrary: b w h)
  case (Cons op calls)
  obtain b1 w1 where a: "broker_apply ops deliver op (b, w) = (b1, w1)" by (rule prod.exhaust)
  obtain h1 where r: "broker_history ops deliver calls (b1, w1) = (h1, b', w')"
    using Cons.prems(5) a by (auto split: prod.splits)
  have "op_before e op" "\<forall>op \<in> set calls. op_before e op" using Cons.prems(4) by simp_all
  from step_expiry [OF Cons.prems(1-3) this(1) a] this(2) show ?case
    using Cons.IH [OF _ Cons.prems(2) _ _ r] by blast
qed simp

text \<open>What an accepted publish tells the deduplication store and the sinks.\<close>

lemma publish_delivery:
  assumes "dinv (b_dedupe b)" "InMemoryBroker_publish ops deliver now frame b w = (Inr out, b', w')"
    and "fr_topic frame = Some t" "fr_message_id frame = Some mid"
  shows "topic_ok t \<and> dinv (b_dedupe b')
    \<and> (po_duplicate out \<longleftrightarrow> (\<exists>e. expiry (b_dedupe b) t mid = Some e \<and> now < e))
    \<and> (\<not> po_duplicate out \<longrightarrow> expiry (b_dedupe b') t mid = Some (dedupe_expiry now (b_dedupe_window b)))
    \<and> w' = (if po_duplicate out then w else snd (FanoutEngine_deliver deliver t
               (serialize_frame_for_fanout frame (po_offset out)) (b_fanout b) w))"
  using assms(2)
proof (cases rule: publish_cases)
  case (accepted topic message_id entry st fresh d off offs)
  have id: "topic = t" "message_id = mid"
    using accepted(1) assms(3,4) by (auto simp: validate_publish_def split: if_splits option.splits)
  have ok: "topic_ok t" using valid_topic [OF route_Some(1) [OF accepted(2)]] id by simp
  have d: "d = snd (bs_check ops now t mid (b_dedupe_window b) (b_dedupe b))"
    and f: "fresh = fst (bs_check ops now t mid (b_dedupe_window b) (b_dedupe b))" using accepted(4) id by simp_all
  show ?thesis
    using dd.check_fresh [OF assms(1) ok, of now mid "b_dedupe_window b"]
      dd.check_expiry [OF assms(1) ok ok, of now mid "b_dedupe_window b" mid]
      dd.check_inv [OF assms(1) ok, of now mid "b_dedupe_window b"] accepted(6-8) id ok d f
    by (auto split: option.splits)
qed simp_all

end

section \<open>The stores of the repository\<close>

lemma memory_stores_sel [simp]:
  "bs_alloc memory_stores = MemoryOffsetStore_alloc" "bs_head memory_stores = MemoryOffsetStore_head"
  "bs_append memory_stores = MemoryLogStore_append" "bs_range memory_stores = MemoryLogStore_range"
  "bs_check memory_stores = MemoryDedupeStore_check_and_record" "bs_sweep memory_stores = MemoryDedupeStore_sweep"
  "bs_capture memory_stores = MemorySnapshotStore_capture" "bs_get memory_stores = MemorySnapshotStore_get"
  by (simp_all add: memory_stores_def)

interpretation mem_broker: broker_stores memory_stores MemoryOffsetStore_remove mem_offsets_ok "\<lambda>_. True"
  MemoryLogStore_latest MemoryLogStore_remove "hm_get_or []" memory_retain hm_wf "\<lambda>_. True"
  "\<lambda>s t k. hm_get s (t, k)" hm_wf MemorySnapshotStore_remove hm_get hm_wf
  unfolding broker_stores_def broker_stores_axioms_def memory_stores_sel
  by (intro conjI allI impI mem_offsets.offset_store_axioms mem_log.log_store_axioms
      mem_dedupe.dedupe_store_axioms mem_snapshots.snapshot_store_axioms TrueI) (simp add: memory_retain_def)

text \<open>The same broker on sled: offsets in an engine, each other store on a tree of its own.
  Offsets keep, besides their contract, what reopening the tree needs.\<close>

definition sled_stores ::
  "'t SledTree \<Rightarrow> LogEntry Serde \<Rightarrow> StoredSnapshot Serde \<Rightarrow> ('t SledOffsetStore, 't, 't, 't) BrokerStores" where
  "sled_stores tree LS SS =
    \<lparr> bs_alloc = SledOffsetStore_alloc (SledEngine_ops tree), bs_head = SledOffsetStore_head (SledEngine_ops tree),
      bs_append = SledLogStore_append tree LS, bs_range = SledLogStore_range tree LS,
      bs_check = sled_check tree, bs_sweep = SledDedupeStore_sweep tree,
      bs_capture = SledSnapshotStore_capture tree SS, bs_get = SledSnapshotStore_get tree SS \<rparr>"

lemma sled_stores_sel [simp]:
  "bs_alloc (sled_stores tree LS SS) = SledOffsetStore_alloc (SledEngine_ops tree)"
  "bs_head (sled_stores tree LS SS) = SledOffsetStore_head (SledEngine_ops tree)"
  "bs_append (sled_stores tree LS SS) = SledLogStore_append tree LS"
  "bs_range (sled_stores tree LS SS) = SledLogStore_range tree LS"
  "bs_check (sled_stores tree LS SS) = sled_check tree"
  "bs_sweep (sled_stores tree LS SS) = SledDedupeStore_sweep tree"
  "bs_capture (sled_stores tree LS SS) = SledSnapshotStore_capture tree SS"
  "bs_get (sled_stores tree LS SS) = SledSnapshotStore_get tree SS"
  by (simp_all add: sled_stores_def)

context storage_engine
begin

definition reopenable :: "'t SledOffsetStore \<Rightarrow> bool" where
  "reopenable s \<longleftrightarrow> sled_offsets_ok eng einv s \<and> offset_keys_only (contents (so_engine s))"

lemma reopenable_offset_store:
  "offset_store (SledOffsetStore_alloc eng) (SledOffsetStore_head eng) (SledOffsetStore_remove eng) reopenable nul_free"
proof unfold_locales
  fix s t t'
  assume r: "reopenable s" and t: "nul_free t"
  then have ok: "sled_offsets_ok eng einv s" and keys: "offset_keys_only (contents (so_engine s))"
    and ei: "einv (so_engine s)" by (simp_all add: reopenable_def sled_offsets_ok_def)
  note os = engine_offset_store
  show "0 \<le> SledOffsetStore_head eng t s" by (rule offset_store.head_nonneg [OF os ok t])
  show "SledOffsetStore_head eng t' (SledOffsetStore_remove eng t s) = (if t' = t then 0 else SledOffsetStore_head eng t' s)"
    if "nul_free t'" by (rule offset_store.remove_head [OF os ok t that])
  have "offset_keys_only (contents (so_engine (SledOffsetStore_remove eng t s)))"
    using delete_contents [OF ei, of "offset_key t"] keys
    by (auto simp: SledOffsetStore_remove_def offset_keys_only_def)
  then show "reopenable (SledOffsetStore_remove eng t s)"
    using offset_store.remove_inv [OF os ok t] by (simp add: reopenable_def)
  show "SledOffsetStore_head eng t' (snd (SledOffsetStore_alloc eng t s)) = SledOffsetStore_head eng t' s"
    if "nul_free t'" "t' \<noteq> t" by (rule offset_store.alloc_other [OF os ok t that])
  assume b: "SledOffsetStore_head eng t s < i64_max - 1"
  show "fst (SledOffsetStore_alloc eng t s) = SledOffsetStore_head eng t s + 1 \<and>
      SledOffsetStore_head eng t (snd (SledOffsetStore_alloc eng t s)) = SledOffsetStore_head eng t s + 1"
    by (rule offset_store.alloc_next [OF os ok t b])
  show "reopenable (snd (SledOffsetStore_alloc eng t s))"
    using offset_store.alloc_inv [OF os ok t b] offset_keys_only_alloc [OF ei keys t] by (simp add: reopenable_def)
qed

lemma reopen_head:
  assumes "reopenable s" "nul_free t"
  shows "SledOffsetStore_head eng t (SledOffsetStore_new eng (so_engine s)) = SledOffsetStore_head eng t s"
proof -
  have ok: "sled_offsets_ok eng einv s" "offset_keys_only (contents (so_engine s))" "einv (so_engine s)"
    using assms(1) by (simp_all add: reopenable_def sled_offsets_ok_def)
  show ?thesis using sled_new_head [OF ok(3,2)] sled_head [OF ok(1) assms(2)] by simp
qed

end

lemma sled_broker_stores:
  assumes tree: "sled_tree_ok tree contents tinv" and LS: "serde_ok LS" and SS: "serde_ok SS"
    and total: "\<forall>e. le_appended_at e = None \<longrightarrow> to_vec LS e \<noteq> None"
  shows "broker_stores (sled_stores tree LS SS) (SledOffsetStore_remove (SledEngine_ops tree))
    (storage_engine.reopenable (SledEngine_ops tree) contents tinv) nul_free
    (SledLogStore_latest tree LS) (SledLogStore_remove tree) (sled_entries tree LS) sled_retain
    (\<lambda>t. tinv t \<and> sled_log_ok LS (contents t)) (\<lambda>e. to_vec LS e \<noteq> None)
    (\<lambda>t. dedupe_record (contents t)) (\<lambda>t. tinv t \<and> records_wf (contents t))
    (SledSnapshotStore_remove tree) (sled_current tree SS) (\<lambda>t. tinv t \<and> snapshots_ok tree SS t)"
  unfolding broker_stores_def broker_stores_axioms_def sled_stores_sel
  using storage_engine.reopenable_offset_store [OF sled_storage_engine [OF tree]]
    sled_log_store [OF tree LS] sled_dedupe_store [OF tree] sled_snapshot_store [OF tree SS] total
  by (auto simp: sled_retain_def nul_free_def valid_name_no_NUL)

end
