(* ===== verification/Broker_Properties.thy ===== *)
theory Broker_Properties
  imports Broker_History
begin

text \<open>
  What the broker guarantees over its runs: slots, replay, deduplication, snapshots,
  and a restart on sled trees.
\<close>

section \<open>Publisher slots\<close>

text \<open>The publisher slots taken on a topic.\<close>

definition publishers :: "('o, 'l, 'd, 's) InMemoryBroker \<Rightarrow> string \<Rightarrow> u64" where
  "publishers b t = (case hm_get (b_store b) t of None \<Rightarrow> 0 | Some e \<Rightarrow> te_publisher_count e)"


lemma dec_subscribers_publishers [simp]:
  "te_publisher_count ((TopicEntry_dec_subscriber ^^ n) e) = te_publisher_count e"
  by (induction n) (simp_all add: TopicEntry_dec_subscriber_def)

lemma route_publishers:
  assumes "LocalRouter_route p topic st = Some (entry, st')"
  shows "te_publisher_count entry = (case hm_get st topic of None \<Rightarrow> 0 | Some e \<Rightarrow> te_publisher_count e)"
  using route_Some(2) [OF assms] by (simp add: TopicEntry_new_def split: option.split)

lemma publishers_kept:
  assumes "\<And>now frame. op \<noteq> Publish now frame" "\<And>t. op \<noteq> DecPublisher t"
    and "broker_apply ops deliver op (b, w) = (b', w')"
  shows "publishers b' t = publishers b t"
proof (cases op)
  case (Subscribe topic intent sink)
  show ?thesis
  proof (cases "LocalRouter_route (b_default_profile b) topic (b_store b)")
    case None
    then show ?thesis
      using assms(3) Subscribe by (auto simp: InMemoryBroker_subscribe_def publishers_def split: sum.splits)
  next
    case (Some es)
    obtain entry st where es: "es = (entry, st)" by (cases es)
    note rs = route_Some [OF Some [unfolded es]] and rp = route_publishers [OF Some [unfolded es]]
    show ?thesis
      using assms(3) Subscribe Some es rs(1,3) rp
      by (auto simp: InMemoryBroker_subscribe_def try_inc_subscriber_eq publishers_def split: prod.splits if_splits)
  qed
next
  case (Unsubscribe i)
  then show ?thesis
    using assms(3) by (auto simp: InMemoryBroker_unsubscribe_def publishers_def update_get
        TopicEntry_dec_subscriber_def split: prod.splits option.splits if_splits)
next
  case (DropSinkOp k)
  then show ?thesis
    using assms(3) by (auto simp: InMemoryBroker_drop_sink_def publishers_def release_all_get split: prod.splits option.splits)
next
  case (Maintain now)
  then show ?thesis
    using assms(3) by (auto simp: InMemoryBroker_maintain_def publishers_def split: prod.splits)
qed (use assms in blast)+

lemma publish_publishers:
  assumes "profiles_default b" "InMemoryBroker_publish ops deliver now frame b w = (r, b', w')"
  shows "(case r of Inl _ \<Rightarrow> publishers b' = publishers b
    | Inr _ \<Rightarrow> \<exists>topic. fr_topic frame = Some topic \<and> publishers b topic < tp_max_publishers (b_default_profile b)
        \<and> publishers b' = (publishers b)(topic := publishers b topic + 1))
   \<and> profiles_default b' \<and> b_default_profile b' = b_default_profile b"
  using assms(2)
proof (cases rule: publish_cases)
  case (limit topic mid entry st)
  note route_profile [OF assms(1) limit(2)]
  then show ?thesis
    using limit(4,5) route_Some(3) [OF limit(2)] route_publishers [OF limit(2)] assms(1)
    by (auto simp: publishers_def profiles_default_def fun_eq_iff)
next
  case (accepted topic mid entry st fresh d off offs)
  have topic: "fr_topic frame = Some topic"
    using accepted(1) by (auto simp: validate_publish_def split: option.splits if_splits)
  note route_profile [OF assms(1) accepted(2)]
  then show ?thesis
    using accepted(3,6,7) route_Some(3) [OF accepted(2)] route_publishers [OF accepted(2)] assms(1) topic
    by (auto simp: publishers_def profiles_default_def fun_eq_iff)
qed (use assms in simp_all)

lemma run_publishers:
  "\<lbrakk>profiles_default b; \<forall>t. DecPublisher t \<notin> set calls;
    broker_history ops deliver calls (b, w) = (h, b', w')\<rbrakk>
   \<Longrightarrow> unat (publishers b' t) = unat (publishers b t) + length (filter (\<lambda>p. fst p = t) h)
     \<and> (publishers b t \<le> tp_max_publishers (b_default_profile b)
         \<longrightarrow> publishers b' t \<le> tp_max_publishers (b_default_profile b))"
proof (induction calls arbitrary: b w h)
  case (Cons op calls)
  obtain b1 w1 where a: "broker_apply ops deliver op (b, w) = (b1, w1)" by (rule prod.exhaust)
  obtain h1 where r: "broker_history ops deliver calls (b1, w1) = (h1, b', w')"
    and h: "h = op_published ops deliver op (b, w) @ h1"
    using Cons.prems(3) a by (auto split: prod.splits)
  let ?n = "length (filter (\<lambda>p. fst p = t) (op_published ops deliver op (b, w)))"
  have step: "unat (publishers b1 t) = unat (publishers b t) + ?n \<and> profiles_default b1
    \<and> b_default_profile b1 = b_default_profile b
    \<and> (publishers b t \<le> tp_max_publishers (b_default_profile b) \<longrightarrow> publishers b1 t \<le> tp_max_publishers (b_default_profile b))"
  proof (cases "\<exists>now frame. op = Publish now frame")
    case True
    then obtain now frame where op: "op = Publish now frame" by blast
    obtain x where x: "InMemoryBroker_publish ops deliver now frame b w = (x, b1, w1)"
      using a op by (cases "InMemoryBroker_publish ops deliver now frame b w") auto
    show ?thesis
      using publish_publishers [OF Cons.prems(1) x] x op
      by (auto simp: op_published_def unat_inc_less inc_le split: sum.splits)
  next
    case False
    then have "\<And>now frame. op \<noteq> Publish now frame" "\<And>t. op \<noteq> DecPublisher t" using Cons.prems(2) by auto
    note publishers_kept [OF this a] and apply_not_publish(4,6) [OF this(1) a]
    moreover have "?n = 0" using False by (cases op) (auto simp: op_published_def)
    ultimately show ?thesis using Cons.prems(1) by simp
  qed
  have "\<forall>t. DecPublisher t \<notin> set calls" using Cons.prems(2) by simp
  from Cons.IH [OF _ this r] step show ?case by (simp add: h)
qed simp

section \<open>Snapshots\<close>

lemma publish_snapshots_kept:
  assumes "broker_ok b" "InMemoryBroker_publish memory_stores deliver now frame b w = (r, b', w')"
  shows "b_snapshots b' = b_snapshots b"
  using assms(2)
proof (cases rule: publish_cases)
  case (accepted topic mid entry st fresh d off offs)
  have "te_latest_snapshot entry = None"
    using route_fits(1) [OF assms(1) accepted(2)] by (simp add: entry_fits_def)
  then show ?thesis
    using accepted(7) by (simp add: MemorySnapshotStore_capture_def take_snapshot_def TopicStore_get_def TopicEntry_snapshot_def)
qed simp_all

lemma reach_snapshots_kept:
  "broker_reach memory_stores deliver b0 w0 b w \<Longrightarrow> broker_ok b0 \<Longrightarrow> b_snapshots b = b_snapshots b0"
proof (induction rule: broker_reach.induct)
  case (step b w op b' w')
  have ok: "broker_ok b" by (rule reach_broker_ok [OF step.hyps(1) step.prems])
  show ?case
  proof (cases "\<exists>now frame. op = Publish now frame")
    case True
    then obtain now frame where op: "op = Publish now frame" by blast
    obtain r where "InMemoryBroker_publish memory_stores deliver now frame b w = (r, b', w')"
      using step.hyps(3) op by (cases "InMemoryBroker_publish memory_stores deliver now frame b w") auto
    from publish_snapshots_kept [OF ok this] step show ?thesis by simp
  next
    case False
    then show ?thesis using apply_not_publish(3) [OF _ step.hyps(3)] step by simp
  qed
qed simp

section \<open>A complete serialisation of log entries\<close>

text \<open>A serialisation that keeps every entry, for the examples below: fields one after
  another, lengths and numbers in unary.\<close>

definition put_nat :: "nat \<Rightarrow> bytes" where
  "put_nat n = replicate n 1 @ [0]"

definition get_nat :: "bytes \<Rightarrow> nat \<times> bytes" where
  "get_nat b = (length (takeWhile (\<lambda>x. x = 1) b), tl (dropWhile (\<lambda>x. x = 1) b))"

definition put_int :: "int \<Rightarrow> bytes" where
  "put_int i = (if i < 0 then 1 else 0) # put_nat (nat \<bar>i\<bar>)"

definition get_int :: "bytes \<Rightarrow> int \<times> bytes" where
  "get_int b = (case get_nat (tl b) of (n, r) \<Rightarrow> (if hd b = 1 then - int n else int n, r))"

definition put_bytes :: "bytes \<Rightarrow> bytes" where
  "put_bytes x = put_nat (length x) @ x"

definition get_bytes :: "bytes \<Rightarrow> bytes \<times> bytes" where
  "get_bytes b = (case get_nat b of (n, r) \<Rightarrow> (take n r, drop n r))"

definition put_string :: "string \<Rightarrow> bytes" where
  "put_string x = put_bytes (as_bytes x)"

definition get_string :: "bytes \<Rightarrow> string \<times> bytes" where
  "get_string b = (case get_bytes b of (x, r) \<Rightarrow> (from_utf8_lossy x, r))"

definition put_opt :: "('a \<Rightarrow> bytes) \<Rightarrow> 'a option \<Rightarrow> bytes" where
  "put_opt put x = (case x of None \<Rightarrow> [0] | Some y \<Rightarrow> 1 # put y)"

definition get_opt :: "(bytes \<Rightarrow> 'a \<times> bytes) \<Rightarrow> bytes \<Rightarrow> 'a option \<times> bytes" where
  "get_opt get b = (if hd b = 1 then (case get (tl b) of (x, r) \<Rightarrow> (Some x, r)) else (None, tl b))"

lemma get_put [simp]:
  "get_nat (put_nat n @ r) = (n, r)"
  "get_int (put_int i @ r) = (i, r)"
  "get_bytes (put_bytes x @ r) = (x, r)"
  "get_string (put_string t @ r) = (t, r)"
proof -
  show n: "get_nat (put_nat n @ r) = (n, r)" for n r
    by (induction n) (simp_all add: get_nat_def put_nat_def)
  show "get_int (put_int i @ r) = (i, r)" by (simp add: get_int_def put_int_def n)
  show x: "get_bytes (put_bytes x @ r) = (x, r)" for x by (simp add: get_bytes_def put_bytes_def n)
  show "get_string (put_string t @ r) = (t, r)" by (simp add: get_string_def put_string_def x)
qed

lemma get_put_opt [simp]:
  "(\<And>x r. get (put x @ r) = (x, r)) \<Longrightarrow> get_opt get (put_opt put x @ r) = (x, r)"
  by (simp add: get_opt_def put_opt_def split: option.split)

definition put_entry :: "LogEntry \<Rightarrow> bytes" where
  "put_entry e = put_int (le_offset e) @ put_opt put_string (le_publisher_session e)
    @ put_string (le_message_id e) @ put_string (le_class e) @ put_opt put_string (le_event e)
    @ put_bytes (le_payload e) @ put_int (le_timestamp e) @ put_opt put_int (le_appended_at e)"

definition get_entry :: "bytes \<Rightarrow> LogEntry" where
  "get_entry b =
    (case get_int b of (o1, b) \<Rightarrow> case get_opt get_string b of (p, b) \<Rightarrow> case get_string b of (m, b) \<Rightarrow>
     case get_string b of (c, b) \<Rightarrow> case get_opt get_string b of (v, b) \<Rightarrow> case get_bytes b of (x, b) \<Rightarrow>
     case get_int b of (t, b) \<Rightarrow> case get_opt get_int b of (a, b) \<Rightarrow>
       \<lparr> le_offset = o1, le_publisher_session = p, le_message_id = m, le_class = c, le_event = v,
         le_payload = x, le_timestamp = t, le_appended_at = a \<rparr>)"

definition entry_serde :: "LogEntry Serde" where
  "entry_serde = \<lparr> to_vec = (\<lambda>e. Some (put_entry e)), from_slice = (\<lambda>b. Some (get_entry b)) \<rparr>"

lemma entry_serde_ok: "serde_ok entry_serde"
proof -
  have "get_opt get_int (put_opt put_int a) = (a, [])" for a
    using get_put_opt [of get_int put_int a "[]"] by simp
  then show ?thesis
    by (simp add: serde_ok_def entry_serde_def get_entry_def put_entry_def)
qed

section \<open>Properties\<close>

definition demo_frame :: "string \<Rightarrow> string \<Rightarrow> bytes \<Rightarrow> Frame" where
  "demo_frame topic mid payload =
    Frame_data\<lparr>fr_topic := Some topic, fr_message_id := Some mid, fr_payload := Some payload\<rparr>"

definition demo_profile :: TopicProfile where
  "demo_profile = TopicProfile_default\<lparr>tp_retention := Durable, tp_max_publishers := 2\<rparr>"

lemma demo_durable: "tp_retention demo_profile = Durable"
  by (simp add: demo_profile_def)

lemmas demo_eval = demo_frame_def frame_defs demo_profile_def TopicProfile_default_def
  InMemoryBroker_new_def InMemoryBroker_with_stores_def InMemoryBroker_publish_def op_published_def
  validate_publish_def validate_name_def LocalRouter_route_def TopicStore_get_or_create_def TopicStore_new_def
  TopicEntry_new_def try_inc_publisher_eq Let_def hm_get_or_def

text \<open>C2. Replay is exact on durable topics: after any sequence of publishes, subscriptions and
  maintenance on a new in-memory broker, replaying a topic from offset 1 to its head
  returns the payloads of exactly the accepted publishes on that topic, in order, and the
  head is their number.\<close>

theorem broker_replay_exact:
  assumes "tp_retention p = Durable" "int (length calls) < i64_max - 1"
    and "broker_history memory_stores deliver calls (InMemoryBroker_new p window max_payload, w) = (h, b', w')"
  shows "InMemoryBroker_replay memory_stores t 1 (InMemoryBroker_head_offset memory_stores t b') b'
      = Inr (map snd (filter (\<lambda>m. fst m = t) h))
    \<and> InMemoryBroker_head_offset memory_stores t b' = int (length (filter (\<lambda>m. fst m = t) h))"
proof -
  let ?b = "InMemoryBroker_new p window max_payload"
  have "mem_broker.history_ok ?b"
    using assms(1) by (simp add: mem_broker.history_ok_def mem_broker.stores_ok_def mem_broker.log_complete_def
      profiles_default_def InMemoryBroker_new_def InMemoryBroker_with_stores_def TopicStore_new_def
      mem_offsets_ok_def MemoryOffsetStore_head_def hm_get_or_def)
  then show ?thesis
    by (rule mem_broker.replay_history [OF _ _ _ assms(2,3) TrueI])
       (simp_all add: InMemoryBroker_new_def InMemoryBroker_with_stores_def MemoryOffsetStore_head_def hm_get_or_def)
qed

theorem broker_replay_exact_witness:
  "\<exists>b' w'. broker_history memory_stores counting_deliver [Publish 5 (demo_frame ''t'' ''m'' [7]), Maintain 6]
      (InMemoryBroker_new demo_profile 60 100, \<lambda>_. CountingSink_new) = ([(''t'', [7])], b', w')
    \<and> InMemoryBroker_replay memory_stores ''t'' 1 1 b' = Inr [[7]]"
proof -
  let ?calls = "[Publish 5 (demo_frame ''t'' ''m'' [7]), Maintain 6]"
  let ?b = "(InMemoryBroker_new demo_profile 60 100, \<lambda>_. CountingSink_new)"
  have "fst (broker_history memory_stores counting_deliver ?calls ?b) = [(''t'', [7])]"
    by (simp add: demo_eval split: prod.split)
  then obtain b' w' where r: "broker_history memory_stores counting_deliver ?calls ?b = ([(''t'', [7])], b', w')"
    by (metis prod.collapse)
  have len: "int (length ?calls) < i64_max - 1" by (simp add: i64_max_def)
  note exact = broker_replay_exact [OF demo_durable len r, of "''t''"]
  have "InMemoryBroker_head_offset memory_stores ''t'' b' = 1" using exact by simp
  with exact r show ?thesis by auto
qed



text \<open>C3. A message is delivered once per window: after a publish that was not a duplicate, any
  further publish of the same topic and message id before the window ends, whatever
  happened in between, is accepted as a duplicate and reaches no sink.\<close>

theorem message_delivered_once:
  assumes "hm_wf (b_dedupe b)" "fr_topic frame = Some t" "fr_message_id frame = Some mid"
    and "InMemoryBroker_publish memory_stores deliver now frame b w = (Inr out, b1, w1)" "\<not> po_duplicate out"
    and "\<forall>op \<in> set calls. op_before (dedupe_expiry now (b_dedupe_window b)) op"
    and "broker_history memory_stores deliver calls (b1, w1) = (h, b2, w2)"
    and "fr_topic frame' = Some t" "fr_message_id frame' = Some mid"
    and "now' < dedupe_expiry now (b_dedupe_window b)"
    and "InMemoryBroker_publish memory_stores deliver now' frame' b2 w2 = (Inr out', b3, w3)"
  shows "po_duplicate out' \<and> w3 = w2"
proof -
  have 1: "hm_wf (b_dedupe b1)" "hm_get (b_dedupe b1) (t, mid) = Some (dedupe_expiry now (b_dedupe_window b))"
    using mem_broker.publish_delivery [OF assms(1,4,2,3)] assms(5) by auto
  from mem_broker.run_expiry [OF 1(1) TrueI 1(2) assms(6,7)]
  have 2: "hm_wf (b_dedupe b2)" "hm_get (b_dedupe b2) (t, mid) = Some (dedupe_expiry now (b_dedupe_window b))" by auto
  show ?thesis
    using mem_broker.publish_delivery [OF 2(1) assms(11,8,9)] 2(2) assms(10) by auto
qed

theorem message_delivered_once_witness:
  "\<exists>out b1 w1 b2 w2 out' b3. InMemoryBroker_publish memory_stores counting_deliver 5 (demo_frame ''t'' ''m'' [7])
        (InMemoryBroker_new demo_profile 60 100) (\<lambda>_. CountingSink_new) = (Inr out, b1, w1)
    \<and> broker_apply memory_stores counting_deliver (Maintain 6) (b1, w1) = (b2, w2)
    \<and> InMemoryBroker_publish memory_stores counting_deliver 64 (demo_frame ''t'' ''m'' [8]) b2 w2 = (Inr out', b3, w2)
    \<and> po_duplicate out'"
proof -
  let ?b = "InMemoryBroker_new demo_profile 60 100" and ?w = "\<lambda>_ :: sink_id. CountingSink_new"
  let ?f = "demo_frame ''t'' ''m'' [7]" and ?f' = "demo_frame ''t'' ''m'' [8]"
  have e: "dedupe_expiry 5 (b_dedupe_window ?b) = 65"
    by (simp add: dedupe_expiry_def i64_defs InMemoryBroker_new_def InMemoryBroker_with_stores_def)
  have fr: "fr_topic (demo_frame t m p) = Some t" "fr_message_id (demo_frame t m p) = Some m" for t m p
    by (simp_all add: demo_frame_def)
  obtain out b1 w1 where 1: "InMemoryBroker_publish memory_stores counting_deliver 5 ?f ?b ?w = (Inr out, b1, w1)"
    and dup: "\<not> po_duplicate out" and b1: "b_store b1 = [(''t'', (TopicEntry_new ''t'' demo_profile)\<lparr>te_publisher_count := 1\<rparr>)]"
      "b_max_payload_bytes b1 = 100" "b_default_profile b1 = demo_profile"
    by (simp add: demo_eval MemoryDedupeStore_check_and_record_def MemoryOffsetStore_alloc_def
        hm_or_insert_def split: prod.split)
  obtain b2 w2 where m: "broker_apply memory_stores counting_deliver (Maintain 6) (b1, w1) = (b2, w2)" by (rule prod.exhaust)
  then have b2: "b_store b2 = b_store b1" "b_max_payload_bytes b2 = 100" "b_default_profile b2 = demo_profile"
    using b1 by (auto simp: InMemoryBroker_maintain_def split: prod.splits)
  obtain out' b3 w3 where 2: "InMemoryBroker_publish memory_stores counting_deliver 64 ?f' b2 w2 = (Inr out', b3, w3)"
  proof -
    have "\<exists>x. fst (InMemoryBroker_publish memory_stores counting_deliver 64 ?f' b2 w2) = Inr x"
      using b1 b2 by (simp add: demo_eval hm_or_insert_def split: prod.split)
    then show ?thesis using that by (metis prod.collapse)
  qed
  have h: "broker_history memory_stores counting_deliver [Maintain 6] (b1, w1) = ([], b2, w2)"
    using m by (simp add: op_published_def)
  have "hm_wf (b_dedupe ?b)" by (simp add: InMemoryBroker_new_def InMemoryBroker_with_stores_def)
  from message_delivered_once [OF this fr 1 dup _ h fr _ 2] e have "po_duplicate out' \<and> w3 = w2" by simp
  with 1 m 2 show ?thesis by blast
qed

text \<open>C22. Subscriber slots are exact: in every reachable state of a broker, over any stores and
  sinks, a topic's subscriber counter is the number of its live subscriptions and is at
  most the limit of its profile; a topic that does not exist has none.\<close>

theorem subscriber_slots_exact:
  assumes "broker_reach ops deliver (InMemoryBroker_with_stores p window max_payload offs l d sn) w0 b w"
  shows "case TopicStore_get t (b_store b) of
      None \<Rightarrow> InMemoryBroker_subscriber_count t b = 0
    | Some e \<Rightarrow> unat (te_subscriber_count e) = InMemoryBroker_subscriber_count t b
        \<and> te_subscriber_count e \<le> tp_max_subscribers (te_profile e)"
proof -
  have ok: "broker_ok b" by (rule reach_broker_ok [OF assms new_broker_ok])
  show ?thesis
    using broker_okD(3,4) [OF ok, of t]
    by (simp add: TopicStore_get_def InMemoryBroker_subscriber_count_def topic_count entry_fits_def split: option.split)
qed

theorem subscriber_slots_exact_witness:
  "\<exists>b w e. broker_reach memory_stores counting_deliver (InMemoryBroker_with_stores TopicProfile_default 60 100 [] [] [] [])
        (\<lambda>_. CountingSink_new) b w
    \<and> TopicStore_get ''t'' (b_store b) = Some e \<and> te_subscriber_count e = 1
    \<and> InMemoryBroker_subscriber_count ''t'' b = 1"
proof -
  let ?b0 = "InMemoryBroker_with_stores TopicProfile_default 60 100 [] [] [] []" and ?w0 = "\<lambda>_. CountingSink_new"
  obtain b w where a: "broker_apply memory_stores counting_deliver (Subscribe ''t'' Live 7) (?b0, ?w0) = (b, w)"
    by (rule prod.exhaust)
  have "fe_seq (b_fanout ?b0) \<noteq> - 1" by (simp add: InMemoryBroker_with_stores_def FanoutEngine_new_def)
  then have r: "broker_reach memory_stores counting_deliver ?b0 ?w0 b w"
    by (rule broker_reach.step [OF broker_reach.start _ a])
  obtain e where e: "TopicStore_get ''t'' (b_store b) = Some e" "te_subscriber_count e = 1"
    using a by (auto simp: demo_eval InMemoryBroker_subscribe_def try_inc_subscriber_eq hm_or_insert_def
        TopicStore_get_def split: prod.splits)
  with r subscriber_slots_exact [OF r, of "''t''"] show ?thesis by auto
qed

text \<open>Publisher slots are taken per message: without a call to \<open>dec_publisher\<close>, a broker accepts at
  most \<open>max_publishers\<close> messages on a topic over its whole life, whoever publishes them, and every
  accepted message holds a slot of the topic.\<close>

lemma publishers_exhausted:
  assumes "\<forall>t. DecPublisher t \<notin> set calls"
    and "broker_history ops deliver calls (InMemoryBroker_with_stores p window max_payload offs l d sn, w) = (h, b, w')"
  shows "unat (publishers b t) = length (filter (\<lambda>m. fst m = t) h)
    \<and> length (filter (\<lambda>m. fst m = t) h) \<le> unat (tp_max_publishers p)"
proof -
  let ?b0 = "InMemoryBroker_with_stores p window max_payload offs l d sn"
  have 0: "profiles_default ?b0" "publishers ?b0 t = 0" "b_default_profile ?b0 = p"
    by (simp_all add: profiles_default_def publishers_def InMemoryBroker_with_stores_def TopicStore_new_def)
  show ?thesis using run_publishers [OF 0(1) assms, of t] 0 by (simp add: word_le_nat_alt)
qed

lemma publishers_exhausted_witness:
  "\<exists>h b w'. broker_history memory_stores counting_deliver
      [Publish 5 (demo_frame ''t'' ''a'' [1]), Publish 6 (demo_frame ''t'' ''b'' [2]), Publish 7 (demo_frame ''t'' ''c'' [3])]
      (InMemoryBroker_with_stores demo_profile 60 100 [] [] [] [], \<lambda>_. CountingSink_new) = (h, b, w')
    \<and> length (filter (\<lambda>m. fst m = ''t'') h) \<le> 2 \<and> unat (publishers b ''t'') = length (filter (\<lambda>m. fst m = ''t'') h)"
proof -
  let ?calls = "[Publish 5 (demo_frame ''t'' ''a'' [1]), Publish 6 (demo_frame ''t'' ''b'' [2]), Publish 7 (demo_frame ''t'' ''c'' [3])]"
  obtain h b w' where r: "broker_history memory_stores counting_deliver ?calls
      (InMemoryBroker_with_stores demo_profile 60 100 [] [] [] [], \<lambda>_. CountingSink_new) = (h, b, w')" by (rule prod_cases3)
  have "\<forall>t. DecPublisher t \<notin> set ?calls" by simp
  from publishers_exhausted [OF this r, of "''t''"] r show ?thesis
    by (intro exI conjI) (auto simp: demo_profile_def)
qed

text \<open>No snapshot is ever captured: in every reachable state of an in-memory broker the
  snapshot of every topic is absent, at any time, whatever was published.\<close>

theorem broker_has_no_snapshots:
  assumes "broker_reach memory_stores deliver (InMemoryBroker_new p window max_payload) w0 b w"
  shows "InMemoryBroker_snapshot memory_stores now t b = Inr None"
proof -
  have "b_snapshots b = b_snapshots (InMemoryBroker_new p window max_payload)"
    by (rule reach_snapshots_kept [OF assms]) (simp add: InMemoryBroker_new_def new_broker_ok)
  then show ?thesis
    by (simp add: InMemoryBroker_new_def InMemoryBroker_snapshot_def MemorySnapshotStore_get_def
        InMemoryBroker_with_stores_def)
qed

theorem broker_has_no_snapshots_witness:
  "\<exists>b w. broker_reach memory_stores counting_deliver (InMemoryBroker_new TopicProfile_default 60 100)
        (\<lambda>_. CountingSink_new) b w
    \<and> op_published memory_stores counting_deliver (Publish 5 (demo_frame ''t'' ''m'' [7]))
        (InMemoryBroker_new TopicProfile_default 60 100, \<lambda>_. CountingSink_new) = [(''t'', [7])]
    \<and> InMemoryBroker_snapshot memory_stores 5 ''t'' b = Inr None"
proof -
  let ?b0 = "InMemoryBroker_new TopicProfile_default 60 100" and ?w0 = "\<lambda>_. CountingSink_new"
  let ?op = "Publish 5 (demo_frame ''t'' ''m'' [7])"
  obtain b w where a: "broker_apply memory_stores counting_deliver ?op (?b0, ?w0) = (b, w)" by (rule prod.exhaust)
  have "fe_seq (b_fanout ?b0) \<noteq> - 1"
    by (simp add: InMemoryBroker_new_def InMemoryBroker_with_stores_def FanoutEngine_new_def)
  then have r: "broker_reach memory_stores counting_deliver ?b0 ?w0 b w"
    by (rule broker_reach.step [OF broker_reach.start _ a])
  have "op_published memory_stores counting_deliver ?op (?b0, ?w0) = [(''t'', [7])]"
    by (simp add: demo_eval split: prod.split)
  with r broker_has_no_snapshots [OF r, of 5 "''t''"] show ?thesis by blast
qed

end
