(* ===== verification/Server_Invariants.thy ===== *)
theory Server_Invariants
  imports Server_Demo Broker_Properties
begin

text \<open>
  The invariant of the server: what every step keeps of the broker, of the sinks handed to
  it, of the session store and of the connection gauge.
\<close>

lemma apply_dec_publisher_ok:
  assumes "broker_ok b"
  shows "broker_ok (InMemoryBroker_dec_publisher t b)"
proof -
  have "topic_store_ok (TopicStore_update t TopicEntry_dec_publisher (b_store b))"
    by (rule topic_store_ok_update [OF broker_okD(1) [OF assms]]) (simp add: TopicEntry_dec_publisher_def)
  then show ?thesis
    using assms unfolding InMemoryBroker_dec_publisher_def broker_ok_def
    by (auto simp: update_get entry_fits_def TopicEntry_dec_publisher_def split: if_splits)
qed

section \<open>What delivery leaves alone\<close>

lemma deliver_keeps:
  assumes "\<And>k b w r w'. deliver k b w = (r, w') \<Longrightarrow> P w \<Longrightarrow> P w'" and "P w"
  shows "P (snd (FanoutEngine_deliver deliver topic frame f w))"
proof -
  let ?offer = "\<lambda>(ok :: nat, w) sink. case deliver sink frame w of (Inr _, w') \<Rightarrow> (ok + 1, w') | (Inl _, w') \<Rightarrow> (ok, w')"
  have "P (snd (foldl ?offer nw ks))" if "P (snd nw)" for nw ks
    using that
  proof (induction ks arbitrary: nw)
    case (Cons k ks)
    obtain n w0 where nw: "nw = (n, w0)" by (cases nw)
    obtain r w1 where d: "deliver k frame w0 = (r, w1)" by (cases "deliver k frame w0")
    have "P w1" using assms(1) [OF d] Cons.prems nw by simp
    then show ?case using Cons.IH nw d by (cases r) simp_all
  qed simp
  from this [of "(0, w)"] assms(2) show ?thesis
    by (simp add: FanoutEngine_deliver_def split: option.split)
qed

lemma publish_keeps:
  assumes "InMemoryBroker_publish ops deliver now frame b w = (r, b', w')"
    and "\<And>k b w r w'. deliver k b w = (r, w') \<Longrightarrow> P w \<Longrightarrow> P w'" and "P w"
  shows "P w'" and "b_fanout b' = b_fanout b"
proof -
  have "P w' \<and> b_fanout b' = b_fanout b"
    using assms(1)
  proof (cases rule: publish_cases)
    case (accepted topic mid entry st fresh d off offs)
    then show ?thesis using deliver_keeps [of deliver P, OF assms(2,3)] assms(3) by simp
  qed (use assms(3) in simp_all)
  then show "P w'" "b_fanout b' = b_fanout b" by auto
qed

lemma net_deliver_sinks: "net_deliver k b net = (r, net') \<Longrightarrow> nt_sinks net' = nt_sinks net"
  by (auto simp: net_deliver_def split: option.splits prod.splits)

lemma out_send_sinks [simp]: "nt_sinks (snd (out_send c f net)) = nt_sinks net"
  by (simp add: out_send_def split: option.split prod.split try_send_result.split)

lemma send_ack_sinks [simp]: "nt_sinks (snd (send_ack_frame libs c ack codec net)) = nt_sinks net"
  by (simp add: send_ack_frame_def split: sum.split)

section \<open>What a connection's step changes\<close>

text \<open>Every subscription after the step was there before, with the same sink, or its sink is
  one of the connection's own and tracked.\<close>

definition subs_follow ::
  "ConnLocal \<Rightarrow> ('o, 'l, 'd, 's) Node \<Rightarrow> ConnLocal \<Rightarrow> ('o, 'l, 'd, 's) Node \<Rightarrow> bool" where
  "subs_follow cl nd cl' nd' \<longleftrightarrow>
    set (cn_subscription_sinks cl) \<subseteq> set (cn_subscription_sinks cl') \<and>
    (\<forall>i t k. subs (b_fanout (nd_broker nd')) i = Some (t, k) \<longrightarrow>
      subs (b_fanout (nd_broker nd)) i = Some (t, k) \<and> hm_get (nt_sinks (nd_net nd')) k = hm_get (nt_sinks (nd_net nd)) k
      \<or> (\<exists>s. hm_get (nt_sinks (nd_net nd')) k = Some s \<and> ms_conn s = cn_id cl) \<and> k \<in> set (cn_subscription_sinks cl'))"

lemma subs_follow_same:
  "\<lbrakk>b_fanout (nd_broker nd') = b_fanout (nd_broker nd); nt_sinks (nd_net nd') = nt_sinks (nd_net nd);
    cn_subscription_sinks cl' = cn_subscription_sinks cl\<rbrakk> \<Longrightarrow> subs_follow cl nd cl' nd'"
  by (simp add: subs_follow_def)

definition step_frame ::
  "ConnLocal \<Rightarrow> ('o, 'l, 'd, 's) Node \<Rightarrow> ConnLocal \<Rightarrow> ('o, 'l, 'd, 's) Node \<Rightarrow> bool" where
  "step_frame cl nd cl' nd' \<longleftrightarrow>
    cn_id cl' = cn_id cl \<and> cn_session_id cl' = cn_session_id cl \<and> cn_sink_id cl' = cn_sink_id cl
    \<and> nd_sessions nd' = nd_sessions nd
    \<and> m_active_connections (nd_metrics nd') = m_active_connections (nd_metrics nd)
    \<and> broker_ok (nd_broker nd') \<and> subs_follow cl nd cl' nd'"

lemma reader_data_frame:
  assumes "broker_ok (nd_broker nd)" "reader_data libs ops now uuid frame cl nd = (cl', nd')"
  shows "step_frame cl nd cl' nd'"
proof (cases "frame_expired now frame")
  case True
  then show ?thesis
    using assms by (auto simp: reader_data_def step_frame_def Metrics_inc_def intro: subs_follow_same)
next
  case False
  obtain r b net where p: "InMemoryBroker_publish ops net_deliver now frame (nd_broker nd) (nd_net nd) = (r, b, net)"
    by (rule prod_cases3)
  have "nt_sinks net = nt_sinks (nd_net nd)"
    by (rule publish_keeps(1) [OF p, of "\<lambda>w. nt_sinks w = nt_sinks (nd_net nd)"]) (auto dest: net_deliver_sinks)
  moreover have "b_fanout b = b_fanout (nd_broker nd)"
    by (rule publish_keeps(2) [OF p, of "\<lambda>_. True"]) auto
  moreover have "broker_ok b" by (rule publish_ok [OF assms(1) p])
  ultimately show ?thesis
    using assms(2) False p
    by (auto simp: reader_data_def step_frame_def Let_def intro!: subs_follow_same split: sum.splits option.splits if_splits)
qed

lemma subscribe_fanout:
  assumes "InMemoryBroker_subscribe topic intent k b = (r, b')"
  shows "(case r of Inl _ \<Rightarrow> b_fanout b' = b_fanout b
    | Inr i \<Rightarrow> subs (b_fanout b') = (subs (b_fanout b))(i \<mapsto> (topic, k)))"
  using assms
  by (auto simp: InMemoryBroker_subscribe_def fun_eq_iff dest: subscribe_subs
      split: sum.splits option.splits prod.splits bool.splits)

lemma control_subscribe_frame:
  assumes "broker_ok (nd_broker nd)" "fe_seq (b_fanout (nd_broker nd)) \<noteq> - 1"
    and "control_subscribe libs uuid frame v cl nd = (r, cl', nd')"
  shows "step_frame cl nd cl' nd'"
proof (cases "Option.bind (json_get ''topic'' v) json_as_str")
  case None
  then show ?thesis
    using assms by (simp add: control_subscribe_def step_frame_def subs_follow_same)
next
  case (Some topic)
  show ?thesis
  proof (cases "subscribe_intent v")
    case (Inl e)
    then show ?thesis
      using assms Some by (simp add: control_subscribe_def step_frame_def subs_follow_same)
  next
    case (Inr intent)
    let ?k = "new_sink_id uuid"
    obtain x b where s: "InMemoryBroker_subscribe topic intent ?k (nd_broker nd) = (x, b)" by (rule prod.exhaust)
    have ok: "broker_ok b" by (rule subscribe_broker_ok [OF assms(1,2) s])
    show ?thesis
    proof (cases x)
      case (Inl e)
      then show ?thesis
        using assms(3) Some Inr s ok subscribe_fanout [OF s]
        by (auto simp: control_subscribe_def Let_def step_frame_def intro!: subs_follow_same)
    next
      case (Inr sid)
      then have "subs (b_fanout b) = (subs (b_fanout (nd_broker nd)))(sid \<mapsto> (topic, ?k))"
        using subscribe_fanout [OF s] by simp
      moreover have "cl' = cl\<lparr>cn_subscription_sinks := List.insert ?k (cn_subscription_sinks cl)\<rparr>"
        "nd_broker nd' = b" "nd_sessions nd' = nd_sessions nd" "nd_metrics nd' = nd_metrics nd"
        "nt_sinks (nd_net nd') = hm_put ?k \<lparr> ms_conn = cn_id cl, ms_max_bytes = cn_max_bytes cl, ms_codec = cn_codec cl \<rparr>
           (nt_sinks (nd_net nd))"
        using assms(3) Some \<open>subscribe_intent v = Inr intent\<close> s Inr
        by (auto simp: control_subscribe_def Let_def out_send_def split: prod.splits option.splits try_send_result.splits)
      ultimately show ?thesis using ok by (auto simp: step_frame_def subs_follow_def)
    qed
  qed
qed

lemma control_unsubscribe_frame:
  assumes "broker_ok (nd_broker nd)" "control_unsubscribe libs frame v cl nd = (r, nd')"
  shows "step_frame cl nd cl nd'"
proof (cases "Option.bind (json_get ''subscription_id'' v) json_as_u64")
  case None
  then show ?thesis
    using assms by (simp add: control_unsubscribe_def step_frame_def subs_follow_same)
next
  case (Some i)
  obtain x b where u: "InMemoryBroker_unsubscribe i (nd_broker nd) = (x, b)" by (rule prod.exhaust)
  obtain t f where f: "FanoutEngine_unsubscribe i (b_fanout (nd_broker nd)) = (t, f)" by (rule prod.exhaust)
  have "subs (b_fanout b) = (subs (b_fanout (nd_broker nd)))(i := None)"
    using u f unsubscribe_subs(2) [OF broker_okD(2) [OF assms(1)] f]
    by (auto simp: InMemoryBroker_unsubscribe_def split: option.splits)
  moreover have "broker_ok b" by (rule unsubscribe_broker_ok [OF assms(1) u])
  moreover have "\<exists>y. x = Inr y" using u f by (auto simp: InMemoryBroker_unsubscribe_def split: option.splits)
  ultimately show ?thesis
    using assms(2) Some u
    by (auto simp: control_unsubscribe_def step_frame_def subs_follow_def Let_def out_send_def
        split: prod.splits option.splits try_send_result.splits if_splits)
qed

lemma handle_control_frame:
  assumes "broker_ok (nd_broker nd)" "fe_seq (b_fanout (nd_broker nd)) \<noteq> - 1"
    and "handle_control libs uuid frame cl nd = (r, cl', nd')"
  shows "step_frame cl nd cl' nd'"
proof -
  have same: "out_send c f (nd_net nd) = (x, net) \<Longrightarrow> step_frame cl nd cl (nd\<lparr>nd_net := net\<rparr>)"
    "step_frame cl nd cl nd" for c f x net
    using assms(1) out_send_sinks [of c f "nd_net nd"] by (simp_all add: step_frame_def subs_follow_same)
  show ?thesis
    using assms(3) same control_subscribe_frame [OF assms(1,2)] control_unsubscribe_frame [OF assms(1)]
    by (auto simp: handle_control_def Let_def split: sum.splits prod.splits if_splits)
qed

lemma reader_dispatch_frame:
  assumes "broker_ok (nd_broker nd)" "fe_seq (b_fanout (nd_broker nd)) \<noteq> - 1"
    and "reader_dispatch libs ops i frame cl nd = (cl', nd')"
  shows "step_frame cl nd cl' nd'"
proof (cases "fr_frame_type frame")
  case Control
  obtain r cl1 nd1 where h: "handle_control libs (ri_sink_uuid i) frame cl nd = (r, cl1, nd1)" by (rule prod_cases3)
  have f: "step_frame cl nd cl1 nd1" by (rule handle_control_frame [OF assms(1,2) h])
  show ?thesis
  proof (cases r)
    case (Inl e)
    then have "cl' = cl1" "nd' = nd1\<lparr>nd_net := snd (send_error_frame libs (cn_id cl) frame e (nd_net nd1))\<rparr>"
      using assms(3) Control h by (simp_all add: reader_dispatch_def)
    then show ?thesis using f by (simp add: step_frame_def subs_follow_def send_error_frame_def)
  next
    case (Inr u)
    then show ?thesis using assms(3) Control h f by (simp add: reader_dispatch_def)
  qed
next
  case Data
  then show ?thesis using assms(3) reader_data_frame [OF assms(1)] by (simp add: reader_dispatch_def)
qed (use assms in \<open>auto simp: reader_dispatch_def step_frame_def intro: subs_follow_same\<close>)

lemma writer_task_frame:
  assumes "broker_ok (nd_broker nd)" "writer_task ev cl nd = (cl', nd')"
  shows "step_frame cl nd cl' nd'"
  using assms by (auto simp: writer_task_def step_frame_def intro!: subs_follow_same
      split: option.splits if_splits prod.splits)

section \<open>Teardown\<close>

lemma drop_sinks_subs:
  "broker_ok b \<Longrightarrow> broker_ok (drop_sinks ks b)
    \<and> subs (b_fanout (drop_sinks ks b)) = (\<lambda>i. case subs (b_fanout b) i of None \<Rightarrow> None
        | Some tk \<Rightarrow> if snd tk \<in> set ks then None else Some tk)
    \<and> fe_seq (b_fanout (drop_sinks ks b)) = fe_seq (b_fanout b)"
proof (induction ks arbitrary: b)
  case Nil
  then show ?case by (simp add: drop_sinks_def fun_eq_iff split: option.split)
next
  case (Cons k ks)
  obtain n b1 where d: "InMemoryBroker_drop_sink k b = (n, b1)" by (rule prod.exhaust)
  obtain ts f where f: "FanoutEngine_drop_sink k (b_fanout b) = (ts, f)" by (rule prod.exhaust)
  have b1: "broker_ok b1" by (rule drop_sink_broker_ok [OF Cons.prems d])
  have "b_fanout b1 = f" using d f by (auto simp: InMemoryBroker_drop_sink_def)
  moreover have "drop_sinks (k # ks) b = drop_sinks ks b1" using d by (simp add: drop_sinks_def)
  ultimately show ?case
    using Cons.IH [OF b1] drop_sink_subs(3,4) [OF broker_okD(2) [OF Cons.prems] f] b1
    by (auto simp: fun_eq_iff split: option.splits)
qed

lemma dec_publishers_ok:
  "broker_ok b \<Longrightarrow> broker_ok (dec_publishers ts b) \<and> b_fanout (dec_publishers ts b) = b_fanout b"
proof (induction ts arbitrary: b)
  case (Cons t ts)
  have "broker_ok (InMemoryBroker_dec_publisher t b)"
    using apply_dec_publisher_ok [OF Cons.prems] .
  with Cons.IH [OF this] show ?case by (simp add: dec_publishers_def InMemoryBroker_dec_publisher_def)
qed (simp add: dec_publishers_def)

section \<open>Sessions\<close>

text \<open>Every stored session is in use: \<open>handshake\<close> leaves it active, or ready when a write
  failed, and nothing else changes its state.\<close>

definition sessions_busy :: "SessionStore \<Rightarrow> bool" where
  "sessions_busy st \<longleftrightarrow>
    (\<forall>sid s. hm_get (st_inner st) sid = Some s \<longrightarrow> s_state s \<in> {SessionState.Active, SessionState.Ready})"

lemma busy_update [keeps]:
  "sessions_busy st \<Longrightarrow> (\<And>s. s_state s \<in> {SessionState.Active, SessionState.Ready}
      \<Longrightarrow> s_state (f s) \<in> {SessionState.Active, SessionState.Ready})
    \<Longrightarrow> sessions_busy (SessionStore_update sid f st)"
  by (auto simp: sessions_busy_def SessionStore_update_def split: option.split)

lemma busy_touch [keeps]: "sessions_busy st \<Longrightarrow> sessions_busy (SessionStore_update sid (Session_touch now) st)"
  by (rule busy_update) (simp_all add: Session_touch_def)

lemma busy_remove: "sessions_busy st \<Longrightarrow> sessions_busy (snd (SessionStore_remove sid st))"
  by (auto simp: sessions_busy_def SessionStore_remove_def)

lemma busy_expire [keeps]: "sessions_busy st \<Longrightarrow> sessions_busy (snd (SessionStore_expire_sessions now idle st))"
proof -
  have "sessions_busy (foldl (\<lambda>st sid. snd (SessionStore_remove sid st)) st ids)" if "sessions_busy st" for ids st
    using that by (induction ids arbitrary: st) (auto intro: busy_remove)
  then show "sessions_busy st \<Longrightarrow> ?thesis" by (simp add: SessionStore_expire_sessions_def Let_def)
qed

text \<open>A busy session is not resumed.\<close>

lemma open_session_busy:
  assumes "sessions_busy (nd_sessions nd)" "open_session ops now fresh_id hello ctx nd = (r, nd')"
  shows "(\<exists>sid. h_session_id hello = Some sid \<and> nd' = nd \<and>
      (r = Inl (RiftError.Session (SessionReject.NotFound sid))
       \<or> (\<exists>e e'. r = Inl (RiftError.Session (SessionReject.Conflict e e')))))
    \<or> h_session_id hello = None \<and> r = Inr (fresh_id, None)
      \<and> nd' = nd\<lparr>nd_sessions := snd (SessionStore_insert (Session_new now fresh_id (ac_client_id ctx)) (nd_sessions nd))\<rparr>"
  using assms by (auto simp: open_session_def Let_def SessionStore_get_def sessions_busy_def
      split: option.splits if_splits)

lemma busy_ready:
  assumes "sessions_busy st"
  shows "sessions_busy (SessionStore_update sid (Session_set_state now SessionState.Ready)
    (snd (SessionStore_insert (Session_new now' sid c) st)))"
  using assms by (auto simp: sessions_busy_def SessionStore_update_def SessionStore_insert_def Let_def
      Session_new_def Session_set_state_def Session_touch_def split: option.split if_splits)

lemma handshake_frame:
  assumes "sessions_busy (nd_sessions nd)" "handshake libs ops auth T config now fresh_id a t nd = (r, t', nd')"
  shows "nd_broker nd' = nd_broker nd \<and> nd_net nd' = nd_net nd \<and> nd_acks nd' = nd_acks nd
    \<and> nd_metrics nd' = nd_metrics nd \<and> sessions_busy (nd_sessions nd')"
proof -
  obtain x t1 where rd: "tr_read_frame T t = (x, t1)" by (rule prod.exhaust)
  show ?thesis
  proof (cases x)
    case (Inl e)
    then show ?thesis using assms rd by (auto simp: handshake_def)
  next
    case (Inr frame)
    show ?thesis
    proof (cases "check_hello libs auth config a frame")
      case (Inl e)
      then show ?thesis using assms rd Inr by (auto simp: handshake_def)
    next
      case (Inr hcc)
      obtain hello codec ctx where hcc: "hcc = (hello, codec, ctx)" by (rule prod_cases3)
      obtain y nd1 where o: "open_session ops now fresh_id hello ctx nd = (y, nd1)" by (rule prod.exhaust)
      note rest = assms(2) rd \<open>x = Inr frame\<close> Inr hcc o
      from open_session_busy [OF assms(1) o] show ?thesis
      proof (elim disjE exE conjE)
        fix e e' sid assume "nd1 = nd" "y = Inl (RiftError.Session (SessionReject.Conflict e e'))"
        then show ?thesis using rest assms(1) by (auto simp: handshake_def)
      next
        assume y: "y = Inr (fresh_id, None)"
          and nd1: "nd1 = nd\<lparr>nd_sessions := snd (SessionStore_insert (Session_new now fresh_id (ac_client_id ctx)) (nd_sessions nd))\<rparr>"
        let ?st = "SessionStore_update fresh_id (Session_set_state now SessionState.Ready) (nd_sessions nd1)"
        have "sessions_busy ?st" using busy_ready [OF assms(1)] nd1 by simp
        moreover from this have "sessions_busy (SessionStore_update fresh_id (Session_set_state now SessionState.Active) ?st)"
          by (rule busy_update) (simp add: Session_set_state_def Session_touch_def)
        moreover have "nd' = nd1\<lparr>nd_sessions := ?st\<rparr> \<or>
            nd' = nd1\<lparr>nd_sessions := SessionStore_update fresh_id (Session_set_state now SessionState.Active) ?st\<rparr>"
          using rest y by (auto simp: handshake_def Let_def count_resume_def split: prod.splits sum.splits)
        ultimately show ?thesis using nd1 by auto
      qed (use rest assms(1) in \<open>auto simp: handshake_def\<close>)
    qed
  qed
qed

section \<open>The invariant\<close>

text \<open>Every subscription belongs to a connection in its active phase, which tracks its sink.\<close>

definition subs_owned :: "('o, 'l, 'd, 's) Node \<Rightarrow> (u64, ConnLocal) hmap \<Rightarrow> bool" where
  "subs_owned nd conns \<longleftrightarrow>
    (\<forall>i t k. subs (b_fanout (nd_broker nd)) i = Some (t, k) \<longrightarrow>
      (\<exists>s cl. hm_get (nt_sinks (nd_net nd)) k = Some s \<and> hm_get conns (ms_conn s) = Some cl
        \<and> k \<in> set (cn_subscription_sinks cl)))"

definition server_ok :: "('o, 'l, 'd, 's) RiftServer \<Rightarrow> bool" where
  "server_ok sv \<longleftrightarrow> broker_ok (nd_broker (sv_node sv)) \<and> sessions_busy (nd_sessions (sv_node sv))
    \<and> subs_owned (sv_node sv) (sv_conns sv) \<and> hm_wf (sv_conns sv) \<and> distinct (sv_spawned sv)
    \<and> m_active_connections (nd_metrics (sv_node sv)) = word_of_nat (length (sv_conns sv))
    \<and> (\<forall>c cl. hm_get (sv_conns sv) c = Some cl \<longrightarrow> cn_id cl = c \<and> c < sv_next_conn_id sv)
    \<and> (\<forall>c \<in> set (sv_spawned sv). c < sv_next_conn_id sv \<and> hm_get (sv_conns sv) c = None)"

lemma server_okD:
  assumes "server_ok sv"
  shows "broker_ok (nd_broker (sv_node sv))" "sessions_busy (nd_sessions (sv_node sv))"
    "subs_owned (sv_node sv) (sv_conns sv)" "hm_wf (sv_conns sv)" "distinct (sv_spawned sv)"
    "m_active_connections (nd_metrics (sv_node sv)) = word_of_nat (length (sv_conns sv))"
    "hm_get (sv_conns sv) c = Some cl \<Longrightarrow> cn_id cl = c \<and> c < sv_next_conn_id sv"
    "c \<in> set (sv_spawned sv) \<Longrightarrow> c < sv_next_conn_id sv \<and> hm_get (sv_conns sv) c = None"
  using assms by (auto simp: server_ok_def)

lemma subs_owned_step:
  assumes "subs_owned nd conns" "hm_get conns c = Some cl" "cn_id cl = c" "subs_follow cl nd cl' nd'"
  shows "subs_owned nd' (hm_put c cl' conns)"
  unfolding subs_owned_def
proof (intro allI impI)
  fix i t k assume i: "subs (b_fanout (nd_broker nd')) i = Some (t, k)"
  note follow = assms(4) [unfolded subs_follow_def]
  have "subs (b_fanout (nd_broker nd)) i = Some (t, k) \<and> hm_get (nt_sinks (nd_net nd')) k = hm_get (nt_sinks (nd_net nd)) k
      \<or> (\<exists>s. hm_get (nt_sinks (nd_net nd')) k = Some s \<and> ms_conn s = cn_id cl) \<and> k \<in> set (cn_subscription_sinks cl')"
    using follow i by blast
  then show "\<exists>s cl''. hm_get (nt_sinks (nd_net nd')) k = Some s \<and> hm_get (hm_put c cl' conns) (ms_conn s) = Some cl''
      \<and> k \<in> set (cn_subscription_sinks cl'')"
  proof
    assume old: "subs (b_fanout (nd_broker nd)) i = Some (t, k) \<and> hm_get (nt_sinks (nd_net nd')) k = hm_get (nt_sinks (nd_net nd)) k"
    then obtain s cl0 where s: "hm_get (nt_sinks (nd_net nd)) k = Some s" "hm_get conns (ms_conn s) = Some cl0"
      "k \<in> set (cn_subscription_sinks cl0)" using assms(1) unfolding subs_owned_def by blast
    show ?thesis
    proof (cases "ms_conn s = c")
      case True
      then have "k \<in> set (cn_subscription_sinks cl')" using s assms(2) follow by auto
      then show ?thesis using s(1) old True by simp
    qed (use s old in simp)
  qed (use assms(3) in auto)
qed

lemma subs_owned_teardown:
  assumes "subs_owned nd conns" "hm_get conns c = Some cl" "cn_id cl = c" "broker_ok (nd_broker nd)"
    "teardown cl nd = (cl', nd')"
  shows "subs_owned nd' (hm_del c conns) \<and> broker_ok (nd_broker nd')"
proof -
  let ?b = "drop_sinks (cn_sink_id cl # cn_subscription_sinks cl) (nd_broker nd)"
  have b': "nd_broker nd' = dec_publishers (cn_published_topics cl) ?b"
    and net: "nt_sinks (nd_net nd') = nt_sinks (nd_net nd)"
    using assms(5) by (auto simp: teardown_def drop_sinks_def split: option.split)
  note d = drop_sinks_subs [OF assms(4), of "cn_sink_id cl # cn_subscription_sinks cl"]
  have ok: "broker_ok (nd_broker nd')" "b_fanout (nd_broker nd') = b_fanout ?b"
    using dec_publishers_ok [of ?b] d unfolding b' by auto
  have "subs_owned nd' (hm_del c conns)"
    unfolding subs_owned_def
  proof (intro allI impI)
    fix i t k assume "subs (b_fanout (nd_broker nd')) i = Some (t, k)"
    then have i: "subs (b_fanout (nd_broker nd)) i = Some (t, k)" "k \<notin> set (cn_subscription_sinks cl)"
      using ok(2) d by (auto split: option.splits if_splits)
    obtain s cl0 where s: "hm_get (nt_sinks (nd_net nd)) k = Some s" "hm_get conns (ms_conn s) = Some cl0"
      "k \<in> set (cn_subscription_sinks cl0)" using assms(1) i(1) unfolding subs_owned_def by blast
    then have "ms_conn s \<noteq> c" using assms(2) i(2) by auto
    then show "\<exists>s cl'. hm_get (nt_sinks (nd_net nd')) k = Some s \<and> hm_get (hm_del c conns) (ms_conn s) = Some cl'
        \<and> k \<in> set (cn_subscription_sinks cl')" using s net by auto
  qed
  with ok show ?thesis by simp
qed

lemma conn_event_effect:
  assumes "broker_ok (nd_broker nd)" "fe_seq (b_fanout (nd_broker nd)) \<noteq> - 1" "sessions_busy (nd_sessions nd)"
    and "conn_event libs ops ev cl nd = (r, cl', nd')"
  shows "cn_id cl' = cn_id cl \<and> broker_ok (nd_broker nd') \<and> subs_follow cl nd cl' nd'
    \<and> sessions_busy (nd_sessions nd')
    \<and> m_active_connections (nd_metrics nd') = m_active_connections (nd_metrics nd)"
proof (cases ev)
  case (Wr w)
  then show ?thesis using writer_task_frame [OF assms(1)] assms(3,4) by (auto simp: step_frame_def)
next
  case (Rd i)
  show ?thesis
  proof (cases "\<exists>frame. ri_event i = FrameRead frame \<and> cn_slot cl")
    case True
    then obtain frame where f: "ri_event i = FrameRead frame" "cn_slot cl" by blast
    let ?nd = "nd\<lparr>nd_metrics := Metrics_inc m_messages_in_total_update (nd_metrics nd),
        nd_sessions := SessionStore_update (cn_session_id cl) (Session_touch (ri_now i)) (nd_sessions nd)\<rparr>"
    have "reader_dispatch libs ops i frame cl ?nd = (cl', nd')"
      using assms(4) Rd f by (simp add: reader_step_def Let_def)
    from reader_dispatch_frame [OF _ _ this] assms(1-3) show ?thesis
      by (simp add: step_frame_def subs_follow_def Metrics_inc_def busy_touch)
  next
    case False
    then have "cl' = cl" "nd' = nd \<or> nd' = nd\<lparr>nd_metrics := Metrics_inc m_connection_close_total_update (nd_metrics nd)\<rparr>"
      using assms(4) Rd by (auto simp: reader_step_def split: ReadEvent.splits if_splits)
    then show ?thesis using assms(1,3) by (auto simp: Metrics_inc_def intro!: subs_follow_same)
  qed
qed

lemma Connection_start_effect:
  assumes "sessions_busy (nd_sessions nd)"
    and "Connection_start libs ops auth T config c now fresh_id uuid a t nd = (r, t', nd')"
  shows "nd_broker nd' = nd_broker nd \<and> nt_sinks (nd_net nd') = nt_sinks (nd_net nd) \<and> sessions_busy (nd_sessions nd')
    \<and> m_active_connections (nd_metrics nd') = m_active_connections (nd_metrics nd) + (case r of Inl _ \<Rightarrow> 0 | Inr _ \<Rightarrow> 1)
    \<and> (\<forall>cl. r = Inr cl \<longrightarrow> cn_id cl = c)"
proof -
  let ?nd = "nd\<lparr>nd_metrics := Metrics_inc m_active_connections_update
      (Metrics_inc m_connection_open_total_update (nd_metrics nd))\<rparr>"
  obtain x t1 nd1 where h: "handshake libs ops auth T config now fresh_id a t ?nd = (x, t1, nd1)" by (rule prod_cases3)
  have "sessions_busy (nd_sessions ?nd)" using assms(1) by simp
  note f = handshake_frame [OF this h]
  show ?thesis
    using assms(2) h f
    by (cases x) (auto simp: Connection_start_def Let_def Metrics_inc_def Connection_new_def)
qed

lemma accept_server_ok:
  assumes "server_ok sv" "counters_ok sv"
  shows "server_ok (server_step libs ops auth T a Accept sv)"
proof -
  note ok = server_okD [OF assms(1)]
  have inc: "sv_next_conn_id sv < sv_next_conn_id sv + 1"
    using assms(2) by (intro u64_less_inc) (simp add: counters_ok_def)
  have "sv_next_conn_id sv \<notin> set (sv_spawned sv)" "hm_get (sv_conns sv) (sv_next_conn_id sv) = None"
    using ok(8) ok(7) [of "sv_next_conn_id sv"] by (auto, cases "hm_get (sv_conns sv) (sv_next_conn_id sv)") auto
  moreover have "c < sv_next_conn_id sv + 1" if "c < sv_next_conn_id sv" for c using that inc by (rule less_trans)
  ultimately show ?thesis
    using ok(1-7) ok(8) inc
    by (simp add: spawn_connection_def Let_def server_ok_def)
qed

lemma start_server_ok:
  assumes "server_ok sv" "counters_ok sv"
  shows "server_ok (server_step libs ops auth T a (Start c now fresh_id uuid t) sv)"
proof -
  note ok = server_okD [OF assms(1)]
  show ?thesis
  proof (cases "c \<in> set (sv_spawned sv)")
    case False
    then show ?thesis using assms(1) by simp
  next
    case True
    obtain r t' nd' where st: "Connection_start libs ops auth T (sv_config sv) c now fresh_id uuid a t (sv_node sv) = (r, t', nd')"
      by (rule prod_cases3)
    note eff = Connection_start_effect [OF ok(2) st]
    have new: "hm_get (sv_conns sv) c = None" "c < sv_next_conn_id sv" using ok(8) [OF True] by auto
    have owned: "subs_owned nd' (sv_conns sv)"
      using ok(3) eff by (simp add: subs_owned_def)
    show ?thesis
    proof (cases r)
      case (Inl e)
      then have "server_step libs ops auth T a (Start c now fresh_id uuid t) sv = sv\<lparr>sv_spawned := remove1 c (sv_spawned sv), sv_node := nd'\<rparr>"
        using True st by (simp add: Let_def)
      then show ?thesis
        using ok eff owned Inl by (auto simp: server_ok_def dest: notin_set_remove1)
    next
      case (Inr cl)
      then have s: "server_step libs ops auth T a (Start c now fresh_id uuid t) sv =
          sv\<lparr>sv_spawned := remove1 c (sv_spawned sv), sv_node := nd', sv_conns := hm_put c cl (sv_conns sv)\<rparr>"
        using True st by (simp add: Let_def)
      have "subs_owned nd' (hm_put c cl (sv_conns sv))"
        unfolding subs_owned_def
      proof (intro allI impI)
        fix i t k assume "subs (b_fanout (nd_broker nd')) i = Some (t, k)"
        then obtain s cl0 where "hm_get (nt_sinks (nd_net nd')) k = Some s" "hm_get (sv_conns sv) (ms_conn s) = Some cl0"
          "k \<in> set (cn_subscription_sinks cl0)" using owned unfolding subs_owned_def by blast
        moreover from this have "ms_conn s \<noteq> c" using new(1) by auto
        ultimately show "\<exists>s cl'. hm_get (nt_sinks (nd_net nd')) k = Some s
            \<and> hm_get (hm_put c cl (sv_conns sv)) (ms_conn s) = Some cl' \<and> k \<in> set (cn_subscription_sinks cl')" by simp
      qed
      then show ?thesis
        using ok eff Inr new True unfolding s server_ok_def
        by (auto simp: hm_length_put dest: notin_set_remove1)
    qed
  qed
qed

lemma conn_server_ok:
  assumes "server_ok sv" "counters_ok sv"
  shows "server_ok (server_step libs ops auth T a (Conn c cev) sv)"
proof -
  note ok = server_okD [OF assms(1)]
  show ?thesis
  proof (cases "hm_get (sv_conns sv) c")
    case None
    then show ?thesis using assms(1) by simp
  next
    case (Some cl)
    obtain r cl' nd' where e: "conn_event libs ops cev cl (sv_node sv) = (r, cl', nd')" by (rule prod_cases3)
    have seq: "fe_seq (b_fanout (nd_broker (sv_node sv))) \<noteq> - 1" using assms(2) by (simp add: counters_ok_def)
    note eff = conn_event_effect [OF ok(1) seq ok(2) e] and cid = ok(7) [OF Some]
    have ns: "c \<notin> set (sv_spawned sv)" using ok(8) [of c] Some by auto
    have owned: "subs_owned nd' (hm_put c cl' (sv_conns sv))"
      using subs_owned_step [OF ok(3) Some] cid eff by blast
    show ?thesis
    proof (cases r)
      case None
      then have "server_step libs ops auth T a (Conn c cev) sv = sv\<lparr>sv_node := nd', sv_conns := hm_put c cl' (sv_conns sv)\<rparr>"
        using Some e by simp
      then show ?thesis
        using ok eff owned cid Some ns by (auto simp: server_ok_def hm_length_put split: if_splits)
    next
      case r: (Some res)
      obtain cl2 nd2 where t: "teardown cl' nd' = (cl2, nd2)" by (rule prod.exhaust)
      have s: "server_step libs ops auth T a (Conn c cev) sv = sv\<lparr>sv_node := nd2, sv_conns := hm_del c (sv_conns sv)\<rparr>"
        using Some e r t by simp
      have "hm_del c (hm_put c cl' (sv_conns sv)) = hm_del c (sv_conns sv)" by (rule delete_update_same)
      moreover have "subs_owned nd2 (hm_del c (hm_put c cl' (sv_conns sv))) \<and> broker_ok (nd_broker nd2)"
        by (rule subs_owned_teardown [OF owned _ _ _ t]) (use eff cid in auto)
      moreover have "nd_sessions nd2 = nd_sessions nd'"
        "m_active_connections (nd_metrics nd2) = m_active_connections (nd_metrics nd') - 1"
        using t by (auto simp: teardown_def Metrics_inc_def)
      moreover have "length (sv_conns sv) = Suc (length (hm_del c (sv_conns sv)))"
        using hm_length_del [OF ok(4) Some] by simp
      ultimately show ?thesis
        using ok eff unfolding s server_ok_def by auto
    qed
  qed
qed

lemma sweep_server_ok:
  assumes "server_ok sv" "counters_ok sv"
  shows "server_ok (server_step libs ops auth T a (Sweep_tick now) sv)"
proof -
  note ok = server_okD [OF assms(1)]
  have "broker_apply ops (net_deliver :: Net sink_deliver) (Maintain now) (nd_broker (sv_node sv), w)
      = (snd (InMemoryBroker_maintain ops now (nd_broker (sv_node sv))), w)" for w by simp
  from apply_broker_ok [OF ok(1) _ this] assms(2)
  have "broker_ok (snd (InMemoryBroker_maintain ops now (nd_broker (sv_node sv))))" by (simp add: counters_ok_def)
  moreover have "b_fanout (snd (InMemoryBroker_maintain ops now b)) = b_fanout b" for b
    by (simp add: InMemoryBroker_maintain_def split: prod.split)
  ultimately show ?thesis
    using ok by (simp add: server_ok_def run_maintenance_def busy_expire subs_owned_def)
qed

lemma step_server_ok:
  assumes "server_ok sv" "counters_ok sv"
  shows "server_ok (server_step libs ops auth T a ev sv)"
  by (cases ev)
    (simp_all only: accept_server_ok [OF assms] start_server_ok [OF assms] conn_server_ok [OF assms] sweep_server_ok [OF assms])

lemma reach_server_ok:
  "server_reach libs ops auth T a sv0 sv \<Longrightarrow> server_ok sv0 \<Longrightarrow> server_ok sv"
  by (induction rule: server_reach.induct) (auto intro: step_server_ok)

lemma build_server_ok:
  assumes "rb_broker rb = None" "rb_metrics rb = None" "rb_session_store rb = None"
  shows "server_ok (RiftServerBuilder_build rb)"
proof -
  have "broker_ok (InMemoryBroker_new p w m)" "fe_by_id (b_fanout (InMemoryBroker_new p w m)) = []" for p w m
    using new_broker_ok [of p w m "[]" "[]" "[]" "[]"]
    by (simp add: InMemoryBroker_new_def, simp add: InMemoryBroker_new_def InMemoryBroker_with_stores_def FanoutEngine_new_def)
  then show ?thesis
    using assms by (simp add: server_ok_def RiftServerBuilder_build_def Let_def sessions_busy_def
        SessionStore_new_def subs_owned_def Metrics_new_def)
qed

section \<open>Properties\<close>

text \<open>C1. No subscription outlives its connection: in every reachable state of a server, every
  subscription in the fanout engine was made by a connection that is still in its active
  phase and tracks its sink; so when no connection is left no topic has a subscriber, and
  every subscriber slot is free.\<close>

theorem no_subscription_leak:
  assumes "rb_broker rb = None" "rb_metrics rb = None" "rb_session_store rb = None"
    and "server_reach libs memory_stores auth T a (RiftServerBuilder_build rb) sv"
  shows "subs_owned (sv_node sv) (sv_conns sv)
    \<and> (sv_conns sv = [] \<longrightarrow> (\<forall>t e. TopicStore_get t (b_store (nd_broker (sv_node sv))) = Some e
          \<longrightarrow> te_subscriber_count e = 0))"
proof -
  have ok: "server_ok sv" by (rule reach_server_ok [OF assms(4) build_server_ok [OF assms(1-3)]])
  let ?b = "nd_broker (sv_node sv)"
  note owned = server_okD(3) [OF ok] and bok = server_okD(1) [OF ok]
  have "te_subscriber_count e = 0" if "sv_conns sv = []" "TopicStore_get t (b_store ?b) = Some e" for t e
  proof -
    have "subs (b_fanout ?b) i \<noteq> Some (t, k)" for i k using owned that(1) by (auto simp: subs_owned_def)
    then have "topic_subs (b_fanout ?b) t = []"
      using fanout_okD(4) [OF broker_okD(2) [OF bok]] by (metis last_in_set prod.exhaust)
    then show ?thesis
      using broker_okD(4) [OF bok, of t e] that(2) by (simp add: TopicStore_get_def entry_fits_def unat_eq_0)
  qed
  with owned show ?thesis by blast
qed

theorem no_subscription_leak_witness:
  "demo_reach demo_subscribed
    \<and> subs (b_fanout (nd_broker (sv_node demo_subscribed))) 1 = Some (''t'', 7)
    \<and> (\<exists>s cl. hm_get (nt_sinks (nd_net (sv_node demo_subscribed))) 7 = Some s
        \<and> hm_get (sv_conns demo_subscribed) (ms_conn s) = Some cl \<and> 7 \<in> set (cn_subscription_sinks cl))"
proof -
  have s: "subs (b_fanout (nd_broker (sv_node demo_subscribed))) 1 = Some (''t'', 7)" by (simp add: demo_subscribed_eq)
  have "subs_owned (sv_node demo_subscribed) (sv_conns demo_subscribed)"
    using no_subscription_leak [OF demo_builder demo_reach_subscribed] by simp
  then have "\<exists>s cl. hm_get (nt_sinks (nd_net (sv_node demo_subscribed))) 7 = Some s
      \<and> hm_get (sv_conns demo_subscribed) (ms_conn s) = Some cl \<and> 7 \<in> set (cn_subscription_sinks cl)"
    using s unfolding subs_owned_def by blast
  with s demo_reach_subscribed show ?thesis by simp
qed

text \<open>C33. A session is never resumed: in every reachable state of a server, whatever was sent and
  however connections ended, a hello that names a session is refused as unknown or in
  conflict, and the refusal changes nothing.\<close>

theorem resume_never_succeeds:
  assumes "rb_broker rb = None" "rb_metrics rb = None" "rb_session_store rb = None"
    and "server_reach libs memory_stores auth T a (RiftServerBuilder_build rb) sv"
    and "h_session_id hello = Some sid"
    and "open_session memory_stores now fresh_id hello ctx (sv_node sv) = (r, nd)"
  shows "nd = sv_node sv \<and> (r = Inl (RiftError.Session (SessionReject.NotFound sid))
    \<or> (\<exists>e e'. r = Inl (RiftError.Session (SessionReject.Conflict e e'))))"
proof -
  have ok: "server_ok sv" by (rule reach_server_ok [OF assms(4) build_server_ok [OF assms(1-3)]])
  from open_session_busy [OF server_okD(2) [OF ok] assms(6)] assms(5) show ?thesis by auto
qed

theorem resume_never_succeeds_witness:
  "demo_reach demo_started
    \<and> map_option s_epoch (SessionStore_get ''s1'' (nd_sessions (sv_node demo_started))) = Some 1
    \<and> (\<exists>e e'. fst (open_session memory_stores 20 ''s2'' ((Hello_new [])\<lparr>h_session_id := Some ''s1'', h_epoch := Some 1\<rparr>)
          (bearer_ctx ''c'') (sv_node demo_started)) = Inl (RiftError.Session (SessionReject.Conflict e e')))"
proof -
  let ?h = "(Hello_new [])\<lparr>h_session_id := Some ''s1'', h_epoch := Some 1\<rparr>"
  obtain r nd where o: "open_session memory_stores 20 ''s2'' ?h (bearer_ctx ''c'') (sv_node demo_started) = (r, nd)"
    by (rule prod.exhaust)
  have "r \<noteq> Inl (RiftError.Session (SessionReject.NotFound ''s1''))"
    using o demo_started_eq(4) by (auto simp: open_session_def Let_def split: if_splits sum.splits)
  then show ?thesis
    using resume_never_succeeds [OF demo_builder demo_reach_started _ o, of "''s1''"] o demo_reach_started demo_started_eq(5)
    by auto
qed



end
