(* ===== verification/Serving.thy ===== *)
theory Serving
  imports Server
begin

text \<open>
  Serving (\<open>rifts/src/server.rs\<close>: \<open>run\<close>, \<open>accept_and_spawn\<close>, \<open>run_maintenance\<close>;
  \<open>rifts-transport/src/transport/websocket.rs\<close>: binding and accepting; the constructors of the framework
  connections).  The accept loop and the maintenance task run between their awaits; TCP sockets and the
  WebSocket library are parameters.
\<close>

section \<open>The WebSocket listener\<close>

record WebSocketTransport =
  wt_max_message_size :: "usize option"

definition WebSocketTransport_new :: WebSocketTransport where
  "WebSocketTransport_new = \<lparr> wt_max_message_size = None \<rparr>"

definition WebSocketTransport_with_max_message_size :: "usize \<Rightarrow> WebSocketTransport \<Rightarrow> WebSocketTransport" where
  "WebSocketTransport_with_max_message_size limit t = t\<lparr>wt_max_message_size := Some limit\<rparr>"

definition WebSocketTransport_name :: string where
  "WebSocketTransport_name = ''websocket''"

record WebSocketListener =
  wl_max_message_size :: "usize option"

definition WebSocketTransport_bind ::
  "('addr \<Rightarrow> string + unit) \<Rightarrow> 'addr \<Rightarrow> WebSocketTransport \<Rightarrow> WebSocketListener rift_result" where
  "WebSocketTransport_bind tcp_bind addr t =
    (case tcp_bind addr of
       Inl e \<Rightarrow> Inl (RiftError.Io e)
     | Inr _ \<Rightarrow> Inr \<lparr> wl_max_message_size = wt_max_message_size t \<rparr>)"

definition WebSocketFactory_build ::
  "('addr \<Rightarrow> string + unit) \<Rightarrow> WebSocketFactory \<Rightarrow> 'addr \<Rightarrow> WebSocketListener rift_result" where
  "WebSocketFactory_build tcp_bind factory addr =
    WebSocketTransport_bind tcp_bind addr
      (WebSocketTransport_with_max_message_size (wf_max_message_size factory) WebSocketTransport_new)"

text \<open>
  The WebSocket library: the outcome of the opening handshake on a stream under a configured limit, with
  the items the accepted socket will yield.  \<open>None\<close> is the library's default configuration.
\<close>

type_synonym 'stream ws_accept = "usize option \<Rightarrow> 'stream \<Rightarrow> string + (string + WsMessage) list"

definition accept_with_config :: "'stream ws_accept \<Rightarrow> 'stream \<Rightarrow> usize option \<Rightarrow> string + Ws" where
  "accept_with_config accept stream max_message_size =
    map_sum (\<lambda>e. e) (\<lambda>items. \<lparr> ws_in = items, ws_out = [], ws_open = True \<rparr>) (accept max_message_size stream)"

definition WebSocketListener_accept ::
  "'stream ws_accept \<Rightarrow> string + 'stream \<Rightarrow> WebSocketListener \<Rightarrow> Ws rift_result" where
  "WebSocketListener_accept accept tcp l =
    (case tcp of
       Inl e \<Rightarrow> Inl (RiftError.Io e)
     | Inr stream \<Rightarrow>
         (case accept_with_config accept stream (wl_max_message_size l) of
            Inl e \<Rightarrow> Inl (RiftError.WebSocket e)
          | Inr ws \<Rightarrow> Inr ws))"

text \<open>
  What the library documents of the limit: an accepted socket yields the messages its peer sent, up to the
  first longer one, and an error in place of that one; control messages do not count.  Above 16 MiB the
  default limit on single frames, which the code leaves in place, comes first.
\<close>

fun ws_message_len :: "WsMessage \<Rightarrow> nat" where
  "ws_message_len (Text s) = length s"
| "ws_message_len (Binary b) = length b"
| "ws_message_len _ = 0"

fun limited :: "string \<Rightarrow> usize \<Rightarrow> WsMessage list \<Rightarrow> (string + WsMessage) list" where
  "limited err limit [] = []"
| "limited err limit (m # ms) = (if unat limit < ws_message_len m then [Inl err] else Inr m # limited err limit ms)"

definition ws_limit_ok :: "'stream ws_accept \<Rightarrow> ('stream \<Rightarrow> WsMessage list) \<Rightarrow> string \<Rightarrow> bool" where
  "ws_limit_ok accept sent err \<longleftrightarrow>
    (\<forall>limit stream items. unat limit \<le> 2 ^ 24 \<longrightarrow> accept (Some limit) stream = Inr items \<longrightarrow>
       items = limited err limit (sent stream))"

section \<open>Framework connections\<close>

text \<open>\<open>into_connection\<close> of axum and warp wraps an upgraded socket; actix-web and ntex start the bridge tasks.\<close>

definition axum_into_connection :: "(string + WsMessage) list \<Rightarrow> Ws" where
  "axum_into_connection items = \<lparr> ws_in = items, ws_out = [], ws_open = True \<rparr>"

definition warp_into_connection :: "(string + WsMessage) list \<Rightarrow> Ws" where
  "warp_into_connection items = \<lparr> ws_in = items, ws_out = [], ws_open = True \<rparr>"

definition spawn_bridge_local :: "bytes list \<Rightarrow> Bridge" where
  "spawn_bridge_local incoming = \<lparr> br_in = incoming, br_out = [], br_open = True \<rparr>"

definition spawn_bridge :: "bytes list \<Rightarrow> Bridge" where
  "spawn_bridge incoming = \<lparr> br_in = incoming, br_out = [], br_open = True \<rparr>"

definition ntex_into_connection :: "(string + WsMessage) list \<Rightarrow> Bridge" where
  "ntex_into_connection items = spawn_bridge_local (bridge_reader items)"

definition actix_into_connection :: "(string + WsMessage) list \<Rightarrow> Bridge" where
  "actix_into_connection items = spawn_bridge_local (bridge_reader items)"

section \<open>Accepting\<close>

text \<open>A connection over the limit is closed; any other is spawned.\<close>

definition RiftServer_accept_and_spawn ::
  "'t Transport \<Rightarrow> 't \<Rightarrow> ('o, 'l, 'd, 's) RiftServer \<Rightarrow> ('o, 'l, 'd, 's) RiftServer \<times> 't" where
  "RiftServer_accept_and_spawn T t sv =
    (let limit = sc_max_connections (sv_config sv)
     in if 0 < limit \<and> limit \<le> m_active_connections (nd_metrics (sv_node sv))
        then (sv, snd (tr_close T CloseCode.ServerOverloaded ''server at connection limit'' t))
        else (spawn_connection sv, t))"

text \<open>What the accept loop waits for, and how it ends.\<close>

datatype 'stream RunEvent =
    ShutdownNotified
  | TcpAccepted 'stream
  | TcpFailed string

primrec run_loop ::
  "'stream ws_accept \<Rightarrow> Ws Transport \<Rightarrow> WebSocketListener \<Rightarrow> 'stream RunEvent list \<Rightarrow> ('o, 'l, 'd, 's) RiftServer
    \<Rightarrow> unit option \<times> ('o, 'l, 'd, 's) RiftServer \<times> Ws list" where
  "run_loop accept T l [] sv = (None, sv, [])"
| "run_loop accept T l (ev # evs) sv =
    (case ev of
       ShutdownNotified \<Rightarrow> (Some (), sv, [])
     | TcpAccepted stream \<Rightarrow>
         (case WebSocketListener_accept accept (Inr stream) l of
            Inl _ \<Rightarrow> run_loop accept T l evs sv
          | Inr ws \<Rightarrow>
              (case RiftServer_accept_and_spawn T ws sv of
                 (sv', ws') \<Rightarrow> (case run_loop accept T l evs sv' of (r, sv'', conns) \<Rightarrow> (r, sv'', ws' # conns))))
     | TcpFailed e \<Rightarrow> run_loop accept T l evs sv)"

definition no_transport :: RiftError where
  "no_transport = RiftError.Config (ConfigError.Invalid ''transport''
    ''no transport configured; call builder.websocket_transport() before build(), or use accept_and_spawn() for framework mode'')"

text \<open>\<open>run\<close>: \<open>None\<close> while it still runs.\<close>

definition RiftServer_run ::
  "('addr \<Rightarrow> string + unit) \<Rightarrow> ('addr \<Rightarrow> string + 'addr) \<Rightarrow> 'stream ws_accept \<Rightarrow> Ws Transport \<Rightarrow> 'addr
    \<Rightarrow> 'stream RunEvent list \<Rightarrow> ('o, 'l, 'd, 's) RiftServer
    \<Rightarrow> unit rift_result option \<times> ('o, 'l, 'd, 's) RiftServer \<times> Ws list" where
  "RiftServer_run tcp_bind local_addr accept T addr evs sv =
    (case sv_transport sv of
       None \<Rightarrow> (Some (Inl no_transport), sv, [])
     | Some factory \<Rightarrow>
         (case WebSocketFactory_build tcp_bind factory addr of
            Inl e \<Rightarrow> (Some (Inl e), sv, [])
          | Inr l \<Rightarrow>
              (case local_addr addr of
                 Inl e \<Rightarrow> (Some (Inl (RiftError.Io e)), sv, [])
               | Inr _ \<Rightarrow> (case run_loop accept T l evs sv of (r, sv', conns) \<Rightarrow> (map_option Inr r, sv', conns)))))"

section \<open>The maintenance task\<close>

text \<open>
  The task waits for its first tick, then for a tick or the shutdown signal; a sweep awaits the broker.
  \<open>notify_waiters\<close> reaches the task only while it waits for the signal.
\<close>

datatype MaintenancePhase = Starting | Waiting | Sweeping | Finished

datatype MaintenanceEvent = Tick i64 | SweepDone | NotifyWaiters

definition MAINTENANCE_INTERVAL :: nat where
  "MAINTENANCE_INTERVAL = 30000"

fun maintenance_step ::
  "('o, 'l, 'd, 's) BrokerStores \<Rightarrow> nat \<Rightarrow> MaintenanceEvent \<Rightarrow> MaintenancePhase \<times> ('o, 'l, 'd, 's) Node
    \<Rightarrow> MaintenancePhase \<times> ('o, 'l, 'd, 's) Node" where
  "maintenance_step ops idle (Tick now) (Starting, nd) = (Waiting, nd)"
| "maintenance_step ops idle (Tick now) (Waiting, nd) = (Sweeping, run_maintenance ops now idle nd)"
| "maintenance_step ops idle NotifyWaiters (Waiting, nd) = (Finished, nd)"
| "maintenance_step ops idle SweepDone (Sweeping, nd) = (Waiting, nd)"
| "maintenance_step ops idle ev (phase, nd) = (phase, nd)"

definition maintenance_run ::
  "('o, 'l, 'd, 's) BrokerStores \<Rightarrow> nat \<Rightarrow> MaintenanceEvent list \<Rightarrow> ('o, 'l, 'd, 's) Node
    \<Rightarrow> MaintenancePhase \<times> ('o, 'l, 'd, 's) Node" where
  "maintenance_run ops idle evs nd = foldl (\<lambda>s ev. maintenance_step ops idle ev s) (Starting, nd) evs"

section \<open>Properties\<close>

lemma maintenance_run_snoc:
  "maintenance_run ops idle (evs @ [ev]) nd = maintenance_step ops idle ev (maintenance_run ops idle evs nd)"
  by (simp add: maintenance_run_def)

lemma maintenance_finishes:
  "fst (maintenance_step ops idle ev (p, nd)) = Finished \<longleftrightarrow> p = Finished \<or> p = Waiting \<and> ev = NotifyWaiters"
  by (cases p; cases ev) simp_all


lemma wire_length_exact: "length (wire f) = 24 + payload_len f"
  by (simp add: wire_def encode_frame_def Let_def payload_len_def i64_be_bytes_def split: option.split)

lemma ws_close_keeps_input: "ws_in (snd (WebSocketConnection_close code reason ws)) = ws_in ws"
  by (simp add: WebSocketConnection_close_def ws_send_def)

text \<open>C25. The socket limit of a built server counts the frame header: the first frame of a peer is read
  when its payload is at least 24 bytes below the configured maximum, and otherwise the connection fails,
  although the broker accepts payloads up to the maximum.\<close>

theorem socket_limit_counts_header:
  assumes lib: "ws_limit_ok accept sent err" and bind: "tcp_bind addr = Inr ()" "local_addr addr = Inr addr'"
    and sv: "sv = RiftServerBuilder_build (RiftServerBuilder_websocket_transport rb)"
    and limit: "unat (sc_max_payload_bytes (rb_config rb)) \<le> 2 ^ 24"
    and run: "RiftServer_run tcp_bind local_addr accept (websocket_transport jf jt) addr [TcpAccepted stream] sv
      = (r, sv', ws # conns)"
    and first: "sent stream = Binary (wire f) # ms"
    and frame: "i64_ok (fr_timestamp f)" "payload_len f < 2 ^ 32" "payload_len f \<le> DEFAULT_MAX_BINARY_PAYLOAD"
  shows "fst (WebSocketConnection_read_frame jf jt ws) =
    (if payload_len f + 24 \<le> unat (sc_max_payload_bytes (rb_config rb)) then Inr (wire_image f)
     else Inl (RiftError.WebSocket err))"
proof -
  have t: "sv_transport sv = Some \<lparr> wf_max_message_size = sc_max_payload_bytes (rb_config rb) \<rparr>"
    by (simp add: sv RiftServerBuilder_build_def RiftServerBuilder_websocket_transport_def Let_def)
  note defs = RiftServer_run_def WebSocketFactory_build_def WebSocketTransport_bind_def WebSocketListener_accept_def
    WebSocketTransport_with_max_message_size_def accept_with_config_def RiftServer_accept_and_spawn_def websocket_transport_def
  obtain items where items: "accept (Some (sc_max_payload_bytes (rb_config rb))) stream = Inr items"
    using run bind t by (cases "accept (Some (sc_max_payload_bytes (rb_config rb))) stream") (simp_all add: defs)
  then have "items = limited err (sc_max_payload_bytes (rb_config rb)) (sent stream)" using lib limit by (simp add: ws_limit_ok_def)
  moreover have "ws_in ws = items"
    using run bind t items ws_close_keeps_input by (auto simp: defs Let_def split: if_splits)
  ultimately have "ws_in ws = limited err (sc_max_payload_bytes (rb_config rb)) (sent stream)" by simp
  then show ?thesis using first decode_wire [OF frame]
    by (simp add: WebSocketConnection_read_frame_def wire_length_exact)
qed

definition list_accept :: "WsMessage list ws_accept" where
  "list_accept limit stream =
    Inr (case limit of Some n \<Rightarrow> limited ''Message too long'' n stream | None \<Rightarrow> map Inr stream)"

abbreviation limit_server where
  "limit_server \<equiv> RiftServerBuilder_build (RiftServerBuilder_websocket_transport RiftServerBuilder_new)"

definition full_frame :: Frame where
  "full_frame = Frame_data\<lparr>fr_payload := Some (replicate 65536 0)\<rparr>"

theorem socket_limit_counts_header_witness:
  "\<exists>r sv' ws. RiftServer_run (\<lambda>_. Inr ()) (\<lambda>a. Inr a) list_accept (websocket_transport (\<lambda>_. Inl []) (\<lambda>_. Inl [])) ()
      [TcpAccepted [Binary (wire full_frame)]] limit_server = (r, sv', [ws]) \<and>
    payload_len full_frame = unat (sc_max_payload_bytes ServerConfig_default) \<and>
    fst (WebSocketConnection_read_frame (\<lambda>_. Inl []) (\<lambda>_. Inl []) ws) = Inl (RiftError.WebSocket ''Message too long'')"
proof -
  let ?T = "websocket_transport (\<lambda>_. Inl []) (\<lambda>_. Inl [])" and ?s = "[Binary (wire full_frame)]"
  have lib: "ws_limit_ok list_accept (\<lambda>s. s) ''Message too long''" by (simp add: ws_limit_ok_def list_accept_def)
  have "\<exists>r sv' ws. RiftServer_run (\<lambda>_. Inr ()) (\<lambda>a. Inr a) list_accept ?T () [TcpAccepted ?s] limit_server = (r, sv', [ws])"
    by (auto simp: RiftServer_run_def RiftServerBuilder_build_def RiftServerBuilder_websocket_transport_def
        RiftServerBuilder_new_def WebSocketFactory_build_def WebSocketTransport_bind_def WebSocketListener_accept_def
        accept_with_config_def list_accept_def RiftServer_accept_and_spawn_def Let_def
        split: prod.split)
  then obtain r sv' ws where run: "RiftServer_run (\<lambda>_. Inr ()) (\<lambda>a. Inr a) list_accept ?T () [TcpAccepted ?s] limit_server = (r, sv', [ws])"
    by blast
  have len: "payload_len full_frame = 65536" "i64_ok (fr_timestamp full_frame)"
    by (simp_all add: payload_len_def full_frame_def Frame_data_def Frame_default_def i64_ok_def i64_min_def i64_max_def)
  have cfg: "rb_config (RiftServerBuilder_new :: memory_builder) = ServerConfig_default" "sc_max_payload_bytes ServerConfig_default = 65536"
    by (simp_all add: RiftServerBuilder_new_def ServerConfig_default_def)
  show ?thesis
    using run len cfg socket_limit_counts_header [OF lib refl refl refl _ run refl len(2)]
    by (simp add: DEFAULT_MAX_BINARY_PAYLOAD_def)
qed

text \<open>The connection limit does not hold against a burst: while the gauge of active connections is below
  the limit, every connection the accept loop takes is spawned, however many there are, since only a
  connection's own task raises the gauge.\<close>

theorem burst_passes_limit:
  assumes gauge: "m_active_connections (nd_metrics (sv_node sv)) < sc_max_connections (sv_config sv)"
    and handshakes: "\<forall>stream \<in> set streams. \<exists>items. accept (wl_max_message_size l) stream = Inr items"
    and run: "run_loop accept T l (map TcpAccepted streams) sv = (r, sv', conns)"
  shows "sv_spawned sv' = sv_spawned sv @ map (\<lambda>i. sv_next_conn_id sv + of_nat i) [0..<length streams] \<and>
    length conns = length streams"
  using assms
proof (induction streams arbitrary: sv conns)
  case (Cons s ss)
  let ?sv = "spawn_connection sv"
  have open_: "\<not> (0 < sc_max_connections (sv_config sv) \<and>
      sc_max_connections (sv_config sv) \<le> m_active_connections (nd_metrics (sv_node sv)))" using Cons.prems(1) by (simp add: not_le)
  then have sp: "?sv = sv\<lparr>sv_next_conn_id := sv_next_conn_id sv + 1, sv_spawned := sv_spawned sv @ [sv_next_conn_id sv]\<rparr>"
    by (simp add: spawn_connection_def Let_def)
  obtain items where "accept (wl_max_message_size l) s = Inr items" using Cons.prems(2) by auto
  then obtain conns' where rest: "run_loop accept T l (map TcpAccepted ss) ?sv = (r, sv', conns')"
    and c: "length conns = Suc (length conns')"
    using Cons.prems(3) open_
    by (auto simp: WebSocketListener_accept_def accept_with_config_def RiftServer_accept_and_spawn_def split: prod.splits)
  have "sv_spawned sv' = sv_spawned ?sv @ map (\<lambda>i. sv_next_conn_id ?sv + of_nat i) [0..<length ss] \<and> length conns' = length ss"
    using Cons.prems(1,2) by (intro Cons.IH [OF _ _ rest]) (simp_all add: sp)
  then show ?case by (simp add: sp c upt_conv_Cons map_Suc_upt [symmetric] comp_def add_ac del: upt_Suc)
qed simp

definition one_connection :: memory_builder where
  "one_connection = RiftServerBuilder_config (ServerConfig_default\<lparr>sc_max_connections := 1\<rparr>) RiftServerBuilder_new"

theorem burst_passes_limit_witness:
  "\<exists>r sv' conns. run_loop list_accept (websocket_transport (\<lambda>_. Inl []) (\<lambda>_. Inl [])) \<lparr> wl_max_message_size = None \<rparr>
      (map TcpAccepted [[], [], []]) (RiftServerBuilder_build one_connection) = (r, sv', conns) \<and>
    sv_spawned sv' = [1, 2, 3] \<and> sc_max_connections (sv_config (RiftServerBuilder_build one_connection)) = 1"
proof -
  let ?sv = "RiftServerBuilder_build one_connection" and ?T = "websocket_transport (\<lambda>_. Inl []) (\<lambda>_. Inl [])"
    and ?l = "\<lparr> wl_max_message_size = None \<rparr>"
  obtain r sv' conns where run: "run_loop list_accept ?T ?l (map TcpAccepted [[], [], []]) ?sv = (r, sv', conns)"
    by (rule prod_cases3)
  have sv: "sc_max_connections (sv_config ?sv) = 1" "m_active_connections (nd_metrics (sv_node ?sv)) = 0"
    "sv_spawned ?sv = []" "sv_next_conn_id ?sv = 1"
    by (simp_all add: RiftServerBuilder_build_def one_connection_def RiftServerBuilder_config_def RiftServerBuilder_new_def
        Metrics_new_def Let_def)
  show ?thesis using run sv burst_passes_limit [OF _ _ run] by (simp add: list_accept_def)
qed

end
