(* ===== verification/Broker_Interleaving.thy ===== *)
theory Broker_Interleaving
  imports Broker_Properties "HOL-Library.Multiset"
begin

text \<open>
  Concurrent publishes (\<open>rifts-broker/src/broker/memory_broker.rs\<close>: \<open>publish\<close>).  The reader tasks of the
  connections publish in parallel, and a publish awaits each of its stores in turn; here it is cut at
  those awaits, and a pool of publishes interleaves with the other calls of the broker.  Run alone, the
  steps are \<open>InMemoryBroker_publish\<close>.
\<close>

section \<open>A publish between its awaits\<close>

text \<open>The profile is the one of the route's entry; no call of the broker changes it.\<close>

datatype PublishTask =
    AtDedupe Frame string string TopicProfile
  | AtAlloc Frame string string TopicProfile bool
  | AtAppend Frame string string TopicProfile bool i64
  | AtCapture Frame string string TopicProfile bool i64
  | AtDeliver Frame string string i64
  | Published Frame string string bool i64

definition publish_enter ::
  "i64 \<Rightarrow> Frame \<Rightarrow> ('o, 'l, 'd, 's) InMemoryBroker \<Rightarrow> PublishTask rift_result \<times> ('o, 'l, 'd, 's) InMemoryBroker" where
  "publish_enter now frame b =
    (case validate_publish now frame (b_max_payload_bytes b) of
       Inl e \<Rightarrow> (Inl e, b)
     | Inr (topic, message_id) \<Rightarrow>
    (case validate_name topic of
       Inl e \<Rightarrow> (Inl e, b)
     | Inr _ \<Rightarrow>
    (case LocalRouter_route (b_default_profile b) topic (b_store b) of
       None \<Rightarrow> (Inl (RiftError.Topic (TopicReject.NotFound topic)), b)
     | Some (entry, store) \<Rightarrow>
    (case TopicEntry_try_inc_publisher entry of
       (False, _) \<Rightarrow> (Inl (RiftError.Topic (TopicReject.PublisherLimit topic)), b\<lparr>b_store := store\<rparr>)
     | (True, entry') \<Rightarrow>
         (Inr (AtDedupe frame topic message_id (te_profile entry')), b\<lparr>b_store := hm_put topic entry' store\<rparr>)))))"

fun publish_advance ::
  "('o, 'l, 'd, 's) BrokerStores \<Rightarrow> 'w sink_deliver \<Rightarrow> i64 \<Rightarrow> PublishTask \<Rightarrow> ('o, 'l, 'd, 's) InMemoryBroker \<Rightarrow> 'w
    \<Rightarrow> PublishTask \<times> ('o, 'l, 'd, 's) InMemoryBroker \<times> 'w" where
  "publish_advance ops deliver now (AtDedupe f t m p) b w =
    (case bs_check ops now t m (b_dedupe_window b) (b_dedupe b) of
       (fresh, dedupe) \<Rightarrow> (AtAlloc f t m p (\<not> fresh), b\<lparr>b_dedupe := dedupe\<rparr>, w))"
| "publish_advance ops deliver now (AtAlloc f t m p dup) b w =
    (case bs_alloc ops t (b_offsets b) of
       (offset, offsets) \<Rightarrow> (AtAppend f t m p dup offset, b\<lparr>b_offsets := offsets\<rparr>, w))"
| "publish_advance ops deliver now (AtAppend f t m p dup offset) b w =
    (AtCapture f t m p dup offset,
     b\<lparr>b_log := bs_append ops now t (publish_entry f m offset) (tp_retention p) (b_log b)\<rparr>, w)"
| "publish_advance ops deliver now (AtCapture f t m p dup offset) b w =
    (if dup then Published f t m True offset else AtDeliver f t m offset,
     if tp_snapshot_enabled p
     then b\<lparr>b_snapshots := snd (bs_capture ops now t (b_store b) (tp_snapshot_ttl p) (b_snapshots b))\<rparr> else b, w)"
| "publish_advance ops deliver now (AtDeliver f t m offset) b w =
    (Published f t m False offset, b,
     snd (FanoutEngine_deliver deliver t (serialize_frame_for_fanout f offset) (b_fanout b) w))"
| "publish_advance ops deliver now (Published f t m dup offset) b w = (Published f t m dup offset, b, w)"

primrec publish_advances ::
  "('o, 'l, 'd, 's) BrokerStores \<Rightarrow> 'w sink_deliver \<Rightarrow> i64 \<Rightarrow> nat \<Rightarrow> PublishTask \<times> ('o, 'l, 'd, 's) InMemoryBroker \<times> 'w
    \<Rightarrow> PublishTask \<times> ('o, 'l, 'd, 's) InMemoryBroker \<times> 'w" where
  "publish_advances ops deliver now 0 s = s"
| "publish_advances ops deliver now (Suc n) s =
    (case s of (task, b, w) \<Rightarrow> publish_advances ops deliver now n (publish_advance ops deliver now task b w))"

text \<open>Run alone, a publish is its steps.\<close>

definition publish_alone ::
  "('o, 'l, 'd, 's) BrokerStores \<Rightarrow> 'w sink_deliver \<Rightarrow> i64 \<Rightarrow> Frame \<Rightarrow> ('o, 'l, 'd, 's) InMemoryBroker \<Rightarrow> 'w
    \<Rightarrow> (PublishOutcome rift_result \<times> ('o, 'l, 'd, 's) InMemoryBroker \<times> 'w) option" where
  "publish_alone ops deliver now frame b w =
    (case publish_enter now frame b of
       (Inl e, b') \<Rightarrow> Some (Inl e, b', w)
     | (Inr task, b') \<Rightarrow>
         (case publish_advances ops deliver now 5 (task, b', w) of
            (Published f t m dup offset, b'', w') \<Rightarrow> Some (Inr \<lparr> po_offset = offset, po_duplicate = dup \<rparr>, b'', w')
          | _ \<Rightarrow> None))"

lemma publish_alone_eq: "publish_alone ops deliver now frame b w = Some (InMemoryBroker_publish ops deliver now frame b w)"
proof -
  have five: "5 = Suc (Suc (Suc (Suc (Suc 0))))" by simp
  show ?thesis unfolding five publish_alone_def publish_enter_def InMemoryBroker_publish_def
    by (auto simp: Let_def split: sum.split option.split prod.split bool.split)
qed

section \<open>Publishes and calls interleaved\<close>

record ('o, 'l, 'd, 's, 'w) BrokerPool =
  bp_broker :: "('o, 'l, 'd, 's) InMemoryBroker"
  bp_world :: 'w
  bp_tasks :: "PublishTask list"

text \<open>A publish is entered and advanced; the other calls are whole.\<close>

datatype PoolOp = Enter i64 Frame | Advance nat i64 | Call broker_op

fun pool_apply ::
  "('o, 'l, 'd, 's) BrokerStores \<Rightarrow> 'w sink_deliver \<Rightarrow> PoolOp
    \<Rightarrow> ('o, 'l, 'd, 's, 'w) BrokerPool \<Rightarrow> ('o, 'l, 'd, 's, 'w) BrokerPool" where
  "pool_apply ops deliver (Enter now frame) c =
    (case publish_enter now frame (bp_broker c) of
       (Inl _, b) \<Rightarrow> c\<lparr>bp_broker := b\<rparr>
     | (Inr task, b) \<Rightarrow> c\<lparr>bp_broker := b, bp_tasks := bp_tasks c @ [task]\<rparr>)"
| "pool_apply ops deliver (Advance k now) c =
    (if k < length (bp_tasks c)
     then (case publish_advance ops deliver now (bp_tasks c ! k) (bp_broker c) (bp_world c) of
             (task, b, w) \<Rightarrow> \<lparr> bp_broker = b, bp_world = w, bp_tasks = (bp_tasks c)[k := task] \<rparr>)
     else c)"
| "pool_apply ops deliver (Call (Publish now frame)) c = c"
| "pool_apply ops deliver (Call op) c =
    (case broker_apply ops deliver op (bp_broker c, bp_world c) of (b, w) \<Rightarrow> c\<lparr>bp_broker := b, bp_world := w\<rparr>)"

definition pool_run ::
  "('o, 'l, 'd, 's) BrokerStores \<Rightarrow> 'w sink_deliver \<Rightarrow> PoolOp list
    \<Rightarrow> ('o, 'l, 'd, 's, 'w) BrokerPool \<Rightarrow> ('o, 'l, 'd, 's, 'w) BrokerPool" where
  "pool_run ops deliver xs c = foldl (\<lambda>c x. pool_apply ops deliver x c) c xs"

definition pool_new ::
  "TopicProfile \<Rightarrow> nat \<Rightarrow> usize \<Rightarrow> 'w
    \<Rightarrow> (MemoryOffsetStore, MemoryLogStore, MemoryDedupeStore, MemorySnapshotStore, 'w) BrokerPool" where
  "pool_new profile window max_payload w =
    \<lparr> bp_broker = InMemoryBroker_new profile window max_payload, bp_world = w, bp_tasks = [] \<rparr>"

section \<open>What the publishes hold\<close>

text \<open>The offset a publish on a topic was given, the entry it has logged, whether it passed the duplicate check as
  new, and its profile while it still needs it.\<close>

fun pt_offset :: "string \<Rightarrow> PublishTask \<Rightarrow> i64 option" where
  "pt_offset t (AtAppend f t' m p dup off) = (if t' = t then Some off else None)"
| "pt_offset t (AtCapture f t' m p dup off) = (if t' = t then Some off else None)"
| "pt_offset t (AtDeliver f t' m off) = (if t' = t then Some off else None)"
| "pt_offset t (Published f t' m dup off) = (if t' = t then Some off else None)"
| "pt_offset t _ = None"

fun pt_entry :: "string \<Rightarrow> PublishTask \<Rightarrow> LogEntry option" where
  "pt_entry t (AtCapture f t' m p dup off) = (if t' = t then Some (publish_entry f m off) else None)"
| "pt_entry t (AtDeliver f t' m off) = (if t' = t then Some (publish_entry f m off) else None)"
| "pt_entry t (Published f t' m dup off) = (if t' = t then Some (publish_entry f m off) else None)"
| "pt_entry t _ = None"

fun pt_new :: "string \<Rightarrow> string \<Rightarrow> PublishTask \<Rightarrow> unit option" where
  "pt_new t m (AtDedupe f t' m' p) = None"
| "pt_new t m (AtAlloc f t' m' p dup) = (if t' = t \<and> m' = m \<and> \<not> dup then Some () else None)"
| "pt_new t m (AtAppend f t' m' p dup off) = (if t' = t \<and> m' = m \<and> \<not> dup then Some () else None)"
| "pt_new t m (AtCapture f t' m' p dup off) = (if t' = t \<and> m' = m \<and> \<not> dup then Some () else None)"
| "pt_new t m (AtDeliver f t' m' off) = (if t' = t \<and> m' = m then Some () else None)"
| "pt_new t m (Published f t' m' dup off) = (if t' = t \<and> m' = m \<and> \<not> dup then Some () else None)"

fun pt_profile :: "PublishTask \<Rightarrow> TopicProfile option" where
  "pt_profile (AtDedupe f t m p) = Some p"
| "pt_profile (AtAlloc f t m p dup) = Some p"
| "pt_profile (AtAppend f t m p dup off) = Some p"
| "pt_profile (AtCapture f t m p dup off) = Some p"
| "pt_profile _ = None"

definition offsets_given :: "string \<Rightarrow> PublishTask list \<Rightarrow> i64 list" where
  "offsets_given t tasks = List.map_filter (pt_offset t) tasks"

definition entries_logged :: "string \<Rightarrow> PublishTask list \<Rightarrow> LogEntry list" where
  "entries_logged t tasks = List.map_filter (pt_entry t) tasks"

definition passed_new :: "string \<Rightarrow> string \<Rightarrow> PublishTask list \<Rightarrow> nat" where
  "passed_new t m tasks = length (List.map_filter (pt_new t m) tasks)"

lemmas pool_counts = offsets_given_def entries_logged_def passed_new_def

text \<open>A publish that has logged its entry keeps its offset and entry for good; a step changes what it holds only where it
  allocates, logs or checks.\<close>

lemma pt_entry_offset: "pt_entry t p = Some e \<Longrightarrow> pt_offset t p = Some (le_offset e)"
  by (cases p) (auto simp: publish_entry_def split: if_splits)

lemma advance_offset:
  assumes "publish_advance ops deliver now p b w = (p', b', w')"
  shows "pt_offset t p = Some off \<Longrightarrow> pt_offset t p' = Some off"
    "\<not> (\<exists>f m q dup. p = AtAlloc f t m q dup) \<Longrightarrow> pt_offset t p' = pt_offset t p"
  using assms by (cases p; auto split: prod.splits if_splits)+

lemma advance_entry:
  assumes "publish_advance ops deliver now p b w = (p', b', w')"
  shows "pt_entry t p = Some e \<Longrightarrow> pt_entry t p' = Some e"
    "\<not> (\<exists>f m q dup off. p = AtAppend f t m q dup off) \<Longrightarrow> pt_entry t p' = pt_entry t p"
  using assms by (cases p; auto split: prod.splits if_splits)+

lemma advance_new:
  assumes "publish_advance ops deliver now p b w = (p', b', w')" "\<not> (\<exists>f q. p = AtDedupe f t m q)"
  shows "pt_new t m p' = pt_new t m p"
  using assms by (cases p) (auto split: prod.splits if_splits)

lemma advance_profile:
  "publish_advance ops deliver now p b w = (p', b', w') \<Longrightarrow> pt_profile p' = None \<or> pt_profile p' = pt_profile p"
  by (cases p) (auto split: prod.splits if_splits)

text \<open>What a step leaves alone in the broker.\<close>

lemma advance_broker:
  assumes "publish_advance ops deliver now p b w = (p', b', w')"
  shows "b_default_profile b' = b_default_profile b" "b_store b' = b_store b" "b_fanout b' = b_fanout b"
    "b_dedupe_window b' = b_dedupe_window b"
    "\<not> (\<exists>f t m q dup. p = AtAlloc f t m q dup) \<Longrightarrow> b_offsets b' = b_offsets b"
    "\<not> (\<exists>f t m q dup off. p = AtAppend f t m q dup off) \<Longrightarrow> b_log b' = b_log b"
    "\<not> (\<exists>f t m q. p = AtDedupe f t m q) \<Longrightarrow> b_dedupe b' = b_dedupe b"
  using assms by (cases p; auto split: prod.splits if_splits)+

lemma enter_broker:
  assumes "publish_enter now f b = (r, b')"
  shows "b_offsets b' = b_offsets b" "b_log b' = b_log b" "b_dedupe b' = b_dedupe b" "b_default_profile b' = b_default_profile b"
    "b_dedupe_window b' = b_dedupe_window b" "b_fanout b' = b_fanout b"
    "profiles_default b \<Longrightarrow> profiles_default b'"
    "r = Inr p \<Longrightarrow> \<exists>t m q. p = AtDedupe f t m q \<and> (profiles_default b \<longrightarrow> q = b_default_profile b)"
proof -
  have prof: "te_profile (snd (TopicEntry_try_inc_publisher e)) = te_profile e" for e
    by (simp add: TopicEntry_try_inc_publisher_def slot_next_def split: option.split)
  have all: "b_offsets b' = b_offsets b \<and> b_log b' = b_log b \<and> b_dedupe b' = b_dedupe b \<and> b_default_profile b' = b_default_profile b
    \<and> b_dedupe_window b' = b_dedupe_window b \<and> b_fanout b' = b_fanout b \<and> (profiles_default b \<longrightarrow> profiles_default b')
    \<and> (\<forall>p. r = Inr p \<longrightarrow> (\<exists>t m q. p = AtDedupe f t m q \<and> (profiles_default b \<longrightarrow> q = b_default_profile b)))"
  proof (cases "validate_publish now f (b_max_payload_bytes b)")
    case (Inr tm)
    obtain t m where tm: "tm = (t, m)" by (cases tm)
    show ?thesis
    proof (cases "LocalRouter_route (b_default_profile b) t (b_store b)")
      case (Some es)
      obtain entry st where es: "es = (entry, st)" by (cases es)
      note rs = route_Some [OF Some [unfolded es]]
      have "profiles_default b \<Longrightarrow> te_profile entry = b_default_profile b" using route_profile Some es by blast
      then show ?thesis
        using assms Inr tm Some es rs(1,3) prof [of entry]
        by (auto simp: publish_enter_def profiles_default_def split: prod.splits bool.splits if_splits)
    qed (use assms Inr tm in \<open>auto simp: publish_enter_def split: sum.splits\<close>)
  qed (use assms in \<open>auto simp: publish_enter_def\<close>)
  show "b_offsets b' = b_offsets b" "b_log b' = b_log b" "b_dedupe b' = b_dedupe b" "b_default_profile b' = b_default_profile b"
    "b_dedupe_window b' = b_dedupe_window b" "b_fanout b' = b_fanout b"
    "profiles_default b \<Longrightarrow> profiles_default b'"
    "r = Inr p \<Longrightarrow> \<exists>t m q. p = AtDedupe f t m q \<and> (profiles_default b \<longrightarrow> q = b_default_profile b)"
    using all by auto
qed

section \<open>The invariant\<close>

type_synonym 'w MemoryPool = "(MemoryOffsetStore, MemoryLogStore, MemoryDedupeStore, MemorySnapshotStore, 'w) BrokerPool"

definition pool_ok :: "TopicProfile \<Rightarrow> nat \<Rightarrow> 'w MemoryPool \<Rightarrow> bool" where
  "pool_ok P n c \<longleftrightarrow>
    b_default_profile (bp_broker c) = P \<and> profiles_default (bp_broker c) \<and> mem_offsets_ok (b_offsets (bp_broker c)) \<and>
    (\<forall>p \<in> set (bp_tasks c). pt_profile p = None \<or> pt_profile p = Some P) \<and>
    (\<forall>t. MemoryOffsetStore_head t (b_offsets (bp_broker c)) \<le> int n \<and> distinct (offsets_given t (bp_tasks c)) \<and>
       set (offsets_given t (bp_tasks c)) = {1..MemoryOffsetStore_head t (b_offsets (bp_broker c))}) \<and>
    (\<forall>t. mset (hm_get_or [] (b_log (bp_broker c)) t) = mset (entries_logged t (bp_tasks c)))"

lemma pool_ok_mono: "pool_ok P n c \<Longrightarrow> n \<le> n' \<Longrightarrow> pool_ok P n' c"
  unfolding pool_ok_def by (meson of_nat_mono order_trans)

lemma pool_ok_new: "pool_ok P 0 (pool_new P window max_payload w)"
  by (simp add: pool_ok_def pool_new_def InMemoryBroker_new_def InMemoryBroker_with_stores_def profiles_default_def
      TopicStore_new_def mem_offsets_ok_def MemoryOffsetStore_head_def pool_counts map_filter_simps hm_get_or_def)

text \<open>Only the offsets and the log, with the tasks that hold them, matter.\<close>

lemma pool_ok_same:
  assumes "pool_ok P n c" "b_default_profile b = P" "profiles_default b" "b_offsets b = b_offsets (bp_broker c)"
    "b_log b = b_log (bp_broker c)" "\<And>t. offsets_given t tasks = offsets_given t (bp_tasks c)"
    "\<And>t. entries_logged t tasks = entries_logged t (bp_tasks c)"
    "\<forall>p \<in> set tasks. pt_profile p = None \<or> pt_profile p = Some P"
  shows "pool_ok P n (c\<lparr>bp_broker := b, bp_world := w, bp_tasks := tasks\<rparr>)"
  using assms by (simp add: pool_ok_def)

lemma mset_map_filter_new:
  assumes "k < length xs" "f (xs ! k) = None" "f y = Some z"
  shows "mset (List.map_filter f (xs[k := y])) = add_mset z (mset (List.map_filter f xs))"
  using assms map_filter_split [of k xs f "xs ! k"] by (simp add: map_filter_split)

lemma pool_ok_alloc:
  assumes ok: "pool_ok P n c" and n: "int n < i64_max - 1" and k: "k < length (bp_tasks c)" "bp_tasks c ! k = AtAlloc f t m q dup"
    and a: "MemoryOffsetStore_alloc t (b_offsets (bp_broker c)) = (off, offs)"
  shows "pool_ok P (Suc n) (c\<lparr>bp_broker := (bp_broker c)\<lparr>b_offsets := offs\<rparr>, bp_tasks := (bp_tasks c)[k := AtAppend f t m q dup off]\<rparr>)"
proof -
  let ?h = "\<lambda>t. MemoryOffsetStore_head t (b_offsets (bp_broker c))" and ?ts = "(bp_tasks c)[k := AtAppend f t m q dup off]"
  have inv: "mem_offsets_ok (b_offsets (bp_broker c))" and g: "\<And>t. ?h t \<le> int n \<and> distinct (offsets_given t (bp_tasks c)) \<and>
      set (offsets_given t (bp_tasks c)) = {1..?h t}" using ok by (auto simp: pool_ok_def)
  have h: "?h t < i64_max - 1" "0 \<le> ?h t" using g [of t] n mem_offsets.head_nonneg [OF inv] by auto
  note al = mem_offsets.alloc_next [OF inv _ h(1)] mem_offsets.alloc_inv [OF inv _ h(1)]
  have off: "off = ?h t + 1" "MemoryOffsetStore_head t offs = off" "mem_offsets_ok offs" using al a by auto
  have other: "t' \<noteq> t \<Longrightarrow> MemoryOffsetStore_head t' offs = ?h t'" for t' using mem_offsets.alloc_other [OF inv, of t' t] a by simp
  have "MemoryOffsetStore_head t' offs \<le> int (Suc n) \<and> distinct (offsets_given t' ?ts) \<and>
      set (offsets_given t' ?ts) = {1..MemoryOffsetStore_head t' offs}" for t'
  proof (cases "t' = t")
    case True
    have "insert off {1..?h t} = {1..off}" using off(1) h(2) by auto
    then show ?thesis
      using True g [of t] off k map_filter_new [of k "bp_tasks c" "pt_offset t" "AtAppend f t m q dup off" off] by (simp add: pool_counts)
  next
    case False
    then have "offsets_given t' ?ts = offsets_given t' (bp_tasks c)" using k unfolding pool_counts by (intro map_filter_same) auto
    then show ?thesis using g [of t'] other [OF False] by simp
  qed
  moreover have "entries_logged t' ?ts = entries_logged t' (bp_tasks c)" for t' using k unfolding pool_counts by (intro map_filter_same) auto
  moreover have "pt_profile p = None \<or> pt_profile p = Some P" if "p \<in> set ?ts" for p
  proof -
    have "bp_tasks c ! k \<in> set (bp_tasks c)" using k(1) by (rule nth_mem)
    then show ?thesis using ok that k(2) by (auto simp: pool_ok_def dest!: set_update_subset_insert [THEN subsetD])
  qed
  ultimately show ?thesis using ok off(3) by (simp add: pool_ok_def profiles_default_def)
qed

lemma pool_ok_append:
  assumes ok: "pool_ok P n c" and P: "tp_retention P = Durable"
    and k: "k < length (bp_tasks c)" "bp_tasks c ! k = AtAppend f t m q dup off"
  shows "pool_ok P n (c\<lparr>bp_broker := (bp_broker c)\<lparr>b_log := MemoryLogStore_append now t (publish_entry f m off) (tp_retention q) (b_log (bp_broker c))\<rparr>,
      bp_tasks := (bp_tasks c)[k := AtCapture f t m q dup off]\<rparr>)"
proof -
  let ?ts = "(bp_tasks c)[k := AtCapture f t m q dup off]" and ?l = "b_log (bp_broker c)" and ?e = "publish_entry f m off"
  have tk: "bp_tasks c ! k \<in> set (bp_tasks c)" using k by (intro nth_mem) simp
  then have q: "q = P" using ok k(2) by (auto simp: pool_ok_def)
  have log: "hm_get_or [] (MemoryLogStore_append now t ?e Durable ?l) t' = (if t' = t then hm_get_or [] ?l t @ [?e] else hm_get_or [] ?l t')" for t'
    by (simp add: MemoryLogStore_append_def memory_retain_def hm_get_or_def Let_def)
  have l: "\<And>t. mset (hm_get_or [] ?l t) = mset (entries_logged t (bp_tasks c))" using ok by (auto simp: pool_ok_def)
  have "mset (hm_get_or [] (MemoryLogStore_append now t ?e Durable ?l) t') = mset (entries_logged t' ?ts)" for t'
  proof (cases "t' = t")
    case True
    then show ?thesis using l [of t] log k mset_map_filter_new [of k "bp_tasks c" "pt_entry t" "AtCapture f t m q dup off" ?e]
      by (simp add: pool_counts)
  next
    case False
    then have "entries_logged t' ?ts = entries_logged t' (bp_tasks c)" using k unfolding pool_counts by (intro map_filter_same) auto
    then show ?thesis using l [of t'] log False by simp
  qed
  moreover have "offsets_given t' ?ts = offsets_given t' (bp_tasks c)" for t' using k unfolding pool_counts by (intro map_filter_same) auto
  moreover have "pt_profile p = None \<or> pt_profile p = Some P" if "p \<in> set ?ts" for p
    using ok that q by (auto simp: pool_ok_def dest!: set_update_subset_insert [THEN subsetD])
  ultimately show ?thesis using ok q P by (simp add: pool_ok_def profiles_default_def)
qed

lemma pool_ok_advance:
  assumes ok: "pool_ok P n c" and n: "int n < i64_max - 1" and P: "tp_retention P = Durable" and k: "k < length (bp_tasks c)"
    and s: "publish_advance memory_stores deliver now (bp_tasks c ! k) (bp_broker c) (bp_world c) = (p, b, w)"
  shows "pool_ok P (Suc n) \<lparr> bp_broker = b, bp_world = w, bp_tasks = (bp_tasks c)[k := p] \<rparr>"
proof -
  let ?c = "\<lambda>b p. c\<lparr>bp_broker := b, bp_world := w, bp_tasks := (bp_tasks c)[k := p]\<rparr>"
  have tk: "bp_tasks c ! k \<in> set (bp_tasks c)" using k by (intro nth_mem) simp
  have "pool_ok P (Suc n) (?c b p)"
  proof (cases "(\<exists>f t m q dup. bp_tasks c ! k = AtAlloc f t m q dup) \<or> (\<exists>f t m q dup off. bp_tasks c ! k = AtAppend f t m q dup off)")
    case True
    then show ?thesis
    proof
      assume "\<exists>f t m q dup. bp_tasks c ! k = AtAlloc f t m q dup"
      then obtain f t m q dup where tsk: "bp_tasks c ! k = AtAlloc f t m q dup" by blast
      then show ?thesis
        using s pool_ok_alloc [OF ok n k tsk] pool_ok_same [of P "Suc n" _ b "(bp_tasks c)[k := p]" w]
        by (auto simp: memory_stores_sel pool_ok_def split: prod.splits)
    next
      assume "\<exists>f t m q dup off. bp_tasks c ! k = AtAppend f t m q dup off"
      then obtain f t m q dup off where tsk: "bp_tasks c ! k = AtAppend f t m q dup off" by blast
      then show ?thesis
        using s pool_ok_mono [OF pool_ok_append [OF ok P k tsk, of now], of "Suc n"]
        by (auto simp: memory_stores_sel pool_ok_def)
    qed
  next
    case False
    note ab = advance_broker [OF s]
    have "pool_ok P n (?c b p)"
    proof (rule pool_ok_same [OF ok])
      show "b_default_profile b = P" "profiles_default b" using ok ab(1,2) by (auto simp: pool_ok_def profiles_default_def)
      show "b_offsets b = b_offsets (bp_broker c)" "b_log b = b_log (bp_broker c)" using ab(5,6) False by auto
      show "offsets_given t ((bp_tasks c)[k := p]) = offsets_given t (bp_tasks c)" for t
        using advance_offset(2) [OF s, of t] False k unfolding pool_counts by (intro map_filter_same) auto
      show "entries_logged t ((bp_tasks c)[k := p]) = entries_logged t (bp_tasks c)" for t
        using advance_entry(2) [OF s, of t] False k unfolding pool_counts by (intro map_filter_same) auto
      show "\<forall>p \<in> set ((bp_tasks c)[k := p]). pt_profile p = None \<or> pt_profile p = Some P"
        using ok tk advance_profile [OF s] by (auto simp: pool_ok_def dest!: set_update_subset_insert [THEN subsetD])
    qed
    then show ?thesis by (rule pool_ok_mono) simp
  qed
  then show ?thesis by (simp add: pool_ok_def)
qed

lemma pool_ok_apply:
  assumes ok: "pool_ok P n c" and n: "int n < i64_max - 1" and P: "tp_retention P = Durable"
  shows "pool_ok P (Suc n) (pool_apply memory_stores deliver x c)"
proof -
  have suc: "pool_ok P (Suc n) c" using ok by (rule pool_ok_mono) simp
  show ?thesis
  proof (cases x)
    case (Enter now f)
    obtain r b where e: "publish_enter now f (bp_broker c) = (r, b)" by (rule prod.exhaust)
    note eb = enter_broker [OF e]
    have b: "b_default_profile b = P" "profiles_default b" using suc eb by (auto simp: pool_ok_def)
    show ?thesis
    proof (cases r)
      case (Inl err)
      then show ?thesis using Enter e suc eb b by (simp add: pool_ok_def)
    next
      case (Inr p)
      then obtain t m where "p = AtDedupe f t m P" using eb(8) suc by (auto simp: pool_ok_def)
      then show ?thesis using Inr Enter e suc eb b by (simp add: pool_ok_def pool_counts List.map_filter_def)
    qed
  next
    case (Advance k now)
    then show ?thesis using suc pool_ok_advance [OF ok n P] by (auto split: prod.split)
  next
    case (Call op)
    show ?thesis
    proof (cases "\<exists>now f. op = Publish now f")
      case False
      obtain b w where a: "broker_apply memory_stores deliver op (bp_broker c, bp_world c) = (b, w)" by (rule prod.exhaust)
      have eq: "pool_apply memory_stores deliver (Call op) c = c\<lparr>bp_broker := b, bp_world := w\<rparr>" using False a by (cases op) auto
      have "op \<noteq> Publish now f" for now f using False by blast
      from apply_not_publish [OF this a] show ?thesis using suc Call eq by (simp add: pool_ok_def)
    qed (use Call suc in auto)
  qed
qed

lemma pool_run_snoc: "pool_run ops deliver (xs @ [x]) c = pool_apply ops deliver x (pool_run ops deliver xs c)"
  by (simp add: pool_run_def)

lemma pool_run_append: "pool_run ops deliver (xs @ ys) c = pool_run ops deliver ys (pool_run ops deliver xs c)"
  by (simp add: pool_run_def)

lemma pool_run_ok:
  "pool_ok P n c \<Longrightarrow> int (n + length xs) < i64_max \<Longrightarrow> tp_retention P = Durable
    \<Longrightarrow> pool_ok P (n + length xs) (pool_run memory_stores deliver xs c)"
proof (induction xs rule: rev_induct)
  case (snoc x xs)
  then show ?case using pool_ok_apply [of P "n + length xs" "pool_run memory_stores deliver xs c" deliver x]
    by (simp add: pool_run_snoc)
qed (simp add: pool_run_def)

section \<open>What later steps add\<close>

lemma pool_log_offsets:
  assumes "pool_ok P n c" "e \<in> set (hm_get_or [] (b_log (bp_broker c)) t)"
  shows "1 \<le> le_offset e \<and> le_offset e \<le> MemoryOffsetStore_head t (b_offsets (bp_broker c))"
proof -
  have "mset (hm_get_or [] (b_log (bp_broker c)) t) = mset (entries_logged t (bp_tasks c))" using assms(1) by (simp add: pool_ok_def)
  from arg_cong [OF this, of set_mset] have "e \<in> set (entries_logged t (bp_tasks c))" using assms(2) by simp
  then have "le_offset e \<in> set (offsets_given t (bp_tasks c))"
    by (force simp: pool_counts List.map_filter_def dest: pt_entry_offset)
  then show ?thesis using assms(1) by (auto simp: pool_ok_def)
qed

text \<open>A step only hands out offsets above the head, only adds to the end of the log and only adds publishes.\<close>

definition pool_later :: "string \<Rightarrow> 'w MemoryPool \<Rightarrow> 'w MemoryPool \<Rightarrow> bool" where
  "pool_later t c c' \<longleftrightarrow>
    MemoryOffsetStore_head t (b_offsets (bp_broker c)) \<le> MemoryOffsetStore_head t (b_offsets (bp_broker c')) \<and>
    prefix (hm_get_or [] (b_log (bp_broker c)) t) (hm_get_or [] (b_log (bp_broker c')) t) \<and>
    length (bp_tasks c) \<le> length (bp_tasks c') \<and>
    (\<forall>j off. j < length (bp_tasks c') \<longrightarrow> pt_offset t (bp_tasks c' ! j) = Some off \<longrightarrow>
       j < length (bp_tasks c) \<and> pt_offset t (bp_tasks c ! j) = Some off \<or> MemoryOffsetStore_head t (b_offsets (bp_broker c)) < off)"

lemma pool_later_refl: "pool_later t c c"
  by (simp add: pool_later_def)

lemma pool_later_trans: "pool_later t c c' \<Longrightarrow> pool_later t c' c'' \<Longrightarrow> pool_later t c c''"
proof -
  assume a: "pool_later t c c'" and b: "pool_later t c' c''"
  let ?h = "\<lambda>c. MemoryOffsetStore_head t (b_offsets (bp_broker c))"
  have "j < length (bp_tasks c) \<and> pt_offset t (bp_tasks c ! j) = Some off \<or> ?h c < off"
    if "j < length (bp_tasks c'')" "pt_offset t (bp_tasks c'' ! j) = Some off" for j off
  proof -
    have "j < length (bp_tasks c') \<and> pt_offset t (bp_tasks c' ! j) = Some off \<or> ?h c' < off" using b that by (simp add: pool_later_def)
    then show ?thesis using a by (auto simp: pool_later_def)
  qed
  then show ?thesis using a b by (auto simp: pool_later_def intro: prefix_order.trans)
qed

lemma pool_later_advance:
  assumes ok: "pool_ok P n c" and n: "int n < i64_max - 1" and P: "tp_retention P = Durable" and k: "k < length (bp_tasks c)"
    and s: "publish_advance memory_stores deliver now (bp_tasks c ! k) (bp_broker c) (bp_world c) = (p, b, w)"
  shows "pool_later t c \<lparr> bp_broker = b, bp_world = w, bp_tasks = (bp_tasks c)[k := p] \<rparr>"
proof -
  let ?h = "\<lambda>t. MemoryOffsetStore_head t (b_offsets (bp_broker c))"
  have inv: "mem_offsets_ok (b_offsets (bp_broker c))" and hn: "?h t' \<le> int n" for t' using ok by (auto simp: pool_ok_def)
  have hb: "?h t' < i64_max - 1" for t' using hn [of t'] n by simp
  have heads: "?h t \<le> MemoryOffsetStore_head t (b_offsets b) \<and> (pt_offset t p = Some off \<longrightarrow> pt_offset t (bp_tasks c ! k) = Some off \<or> ?h t < off)" for off
  proof (cases "\<exists>f t' m q dup. bp_tasks c ! k = AtAlloc f t' m q dup")
    case True
    then obtain f t' m q dup where tsk: "bp_tasks c ! k = AtAlloc f t' m q dup" by blast
    obtain o' offs where a: "MemoryOffsetStore_alloc t' (b_offsets (bp_broker c)) = (o', offs)" by (rule prod.exhaust)
    have "o' = ?h t' + 1" "MemoryOffsetStore_head t' offs = ?h t' + 1" "t \<noteq> t' \<Longrightarrow> MemoryOffsetStore_head t offs = ?h t"
      using mem_offsets.alloc_next [OF inv _ hb, of t'] mem_offsets.alloc_other [OF inv, of t' t] mem_offsets.alloc_other [OF inv, of t t'] a by auto
    then show ?thesis using s tsk a by (cases "t = t'") (auto simp: memory_stores_sel)
  qed (use advance_offset(2) [OF s] advance_broker(5) [OF s] in auto)
  have "prefix (hm_get_or [] (b_log (bp_broker c)) t) (hm_get_or [] (b_log b) t)"
  proof (cases "\<exists>f t' m q dup off. bp_tasks c ! k = AtAppend f t' m q dup off")
    case True
    then obtain f t' m q dup off where tsk: "bp_tasks c ! k = AtAppend f t' m q dup off" by blast
    have "AtAppend f t' m q dup off \<in> set (bp_tasks c)" using nth_mem [OF k] tsk by simp
    then have "q = P" using ok by (auto simp: pool_ok_def)
    then show ?thesis using s tsk P by (auto simp: memory_stores_sel MemoryLogStore_append_def memory_retain_def hm_get_or_def Let_def)
  qed (use advance_broker(6) [OF s] in auto)
  then show ?thesis using heads k by (auto simp: pool_later_def nth_list_update)
qed

lemma pool_later_apply:
  assumes ok: "pool_ok P n c" and n: "int n < i64_max - 1" and P: "tp_retention P = Durable"
  shows "pool_later t c (pool_apply memory_stores deliver x c)"
proof (cases x)
  case (Enter now f)
  obtain r b where e: "publish_enter now f (bp_broker c) = (r, b)" by (rule prod.exhaust)
  show ?thesis
  proof (cases r)
    case (Inl err)
    then show ?thesis using Enter e enter_broker(1,2) [OF e] by (simp add: pool_later_def)
  next
    case (Inr p)
    then have "pt_offset t p = None" using enter_broker(8) [OF e] by auto
    then show ?thesis using Inr Enter e enter_broker(1,2) [OF e] by (auto simp: pool_later_def nth_append less_Suc_eq)
  qed
next
  case (Advance k now)
  then show ?thesis using pool_later_refl pool_later_advance [OF ok n P] by (auto split: prod.split)
next
  case (Call op)
  show ?thesis
  proof (cases "\<exists>now f. op = Publish now f")
    case False
    obtain b w where a: "broker_apply memory_stores deliver op (bp_broker c, bp_world c) = (b, w)" by (rule prod.exhaust)
    have eq: "pool_apply memory_stores deliver (Call op) c = c\<lparr>bp_broker := b, bp_world := w\<rparr>" using False a by (cases op) auto
    have "op \<noteq> Publish now f" for now f using False by blast
    from apply_not_publish [OF this a] show ?thesis using Call eq by (simp add: pool_later_def)
  qed (use Call pool_later_refl in auto)
qed

lemma pool_later_run:
  "pool_ok P n c \<Longrightarrow> int (n + length xs) < i64_max \<Longrightarrow> tp_retention P = Durable
    \<Longrightarrow> pool_later t c (pool_run memory_stores deliver xs c)"
proof (induction xs rule: rev_induct)
  case (snoc x xs)
  have "pool_ok P (n + length xs) (pool_run memory_stores deliver xs c)" using snoc.prems by (intro pool_run_ok) auto
  then have "pool_later t (pool_run memory_stores deliver xs c) (pool_run memory_stores deliver (xs @ [x]) c)"
    using snoc.prems by (simp add: pool_run_snoc pool_later_apply [where P = P])
  moreover have "pool_later t c (pool_run memory_stores deliver xs c)" using snoc by simp
  ultimately show ?case by (rule pool_later_trans [rotated])
qed (simp add: pool_run_def pool_later_refl)

section \<open>Duplicates\<close>

text \<open>The clocks of a run lie within one window from \<open>lo\<close>.\<close>

fun pool_within :: "i64 \<Rightarrow> i64 \<Rightarrow> PoolOp \<Rightarrow> bool" where
  "pool_within lo hi (Advance k now) = (lo \<le> now \<and> now < hi)"
| "pool_within lo hi (Call (Maintain now)) = (now < hi)"
| "pool_within lo hi x = True"

definition once_ok :: "i64 \<Rightarrow> nat \<Rightarrow> 'w MemoryPool \<Rightarrow> bool" where
  "once_ok hi window c \<longleftrightarrow> hm_wf (b_dedupe (bp_broker c)) \<and> b_dedupe_window (bp_broker c) = window \<and>
    (\<forall>t m. passed_new t m (bp_tasks c) = 0 \<or>
       passed_new t m (bp_tasks c) = 1 \<and> (\<exists>e. hm_get (b_dedupe (bp_broker c)) (t, m) = Some e \<and> hi \<le> e))"

lemma passed_new_same:
  "k < length tasks \<Longrightarrow> pt_new t m p = pt_new t m (tasks ! k) \<Longrightarrow> passed_new t m (tasks[k := p]) = passed_new t m tasks"
  by (simp add: passed_new_def map_filter_same)

lemma passed_new_add:
  "k < length tasks \<Longrightarrow> pt_new t m (tasks ! k) = None \<Longrightarrow> pt_new t m p = Some () \<Longrightarrow>
    passed_new t m (tasks[k := p]) = Suc (passed_new t m tasks)"
  using map_filter_split [of k tasks "pt_new t m" "tasks ! k"] by (simp add: passed_new_def map_filter_split)

lemma once_ok_same:
  assumes "once_ok hi window c" "hm_wf (b_dedupe b)" "b_dedupe_window b = b_dedupe_window (bp_broker c)"
    "\<And>t m e. hm_get (b_dedupe (bp_broker c)) (t, m) = Some e \<Longrightarrow> hi \<le> e \<Longrightarrow> hm_get (b_dedupe b) (t, m) = Some e"
    "\<And>t m. passed_new t m tasks = passed_new t m (bp_tasks c)"
  shows "once_ok hi window \<lparr> bp_broker = b, bp_world = w, bp_tasks = tasks \<rparr>"
proof -
  have "passed_new t m tasks = 0 \<or> passed_new t m tasks = 1 \<and> (\<exists>e. hm_get (b_dedupe b) (t, m) = Some e \<and> hi \<le> e)" for t m
    using assms(1) assms(4) unfolding once_ok_def assms(5) by blast
  then show ?thesis using assms(1,2,3) by (simp add: once_ok_def del: map_of_eq_Some_iff)
qed

lemma once_okD: "once_ok hi window c \<Longrightarrow> hm_wf (b_dedupe (bp_broker c))"
  by (simp add: once_ok_def del: map_of_eq_Some_iff)

lemma once_ok_check:
  assumes ok: "once_ok hi window c" and k: "k < length (bp_tasks c)" "bp_tasks c ! k = AtDedupe f t m q"
    and now: "now < hi" "hi \<le> dedupe_expiry now window"
    and s: "MemoryDedupeStore_check_and_record now t m window (b_dedupe (bp_broker c)) = (fresh, dd)"
  shows "once_ok hi window \<lparr> bp_broker = (bp_broker c)\<lparr>b_dedupe := dd\<rparr>, bp_world = w, bp_tasks = (bp_tasks c)[k := AtAlloc f t m q (\<not> fresh)] \<rparr>"
proof -
  let ?d = "b_dedupe (bp_broker c)" and ?ts = "(bp_tasks c)[k := AtAlloc f t m q (\<not> fresh)]"
  have wf: "hm_wf ?d" using ok by (simp add: once_ok_def del: map_of_eq_Some_iff)
  have old: "passed_new t m (bp_tasks c) = 0 \<or>
      passed_new t m (bp_tasks c) = 1 \<and> (\<exists>e. hm_get ?d (t, m) = Some e \<and> hi \<le> e)" for t m using ok unfolding once_ok_def by blast
  have fr: "fresh \<longleftrightarrow> (case hm_get ?d (t, m) of None \<Rightarrow> True | Some e \<Rightarrow> e \<le> now)" and wf': "hm_wf dd"
    and dd: "\<And>t' m'. hm_get dd (t', m') = (if t' = t \<and> m' = m \<and> fresh then Some (dedupe_expiry now window) else hm_get ?d (t', m'))"
    using mem_dedupe.check_fresh [OF wf, where now = now and t = t and k = m and w = window]
      mem_dedupe.check_inv [OF wf, where now = now and t = t and k = m and w = window]
      mem_dedupe.check_expiry [OF wf, where now = now and t = t and k = m and w = window] s
    by (simp_all del: map_of_eq_Some_iff)
  have "passed_new t' m' ?ts = 0 \<or> passed_new t' m' ?ts = 1 \<and> (\<exists>e. hm_get dd (t', m') = Some e \<and> hi \<le> e)" for t' m'
  proof (cases "t' = t \<and> m' = m \<and> fresh")
    case True
    then have "passed_new t m (bp_tasks c) = 0" using fr old [of t m] now(1) by (auto simp del: map_of_eq_Some_iff)
    then show ?thesis using True dd now(2) passed_new_add [OF k(1), of t m "AtAlloc f t m q (\<not> fresh)"] k(2) by simp
  next
    case False
    have "passed_new t' m' ?ts = passed_new t' m' (bp_tasks c)" using k False by (intro passed_new_same) auto
    moreover have "hm_get dd (t', m') = hm_get ?d (t', m')" using dd [of t' m'] False by auto
    ultimately show ?thesis using old [of t' m'] by simp
  qed
  then show ?thesis using ok wf' by (simp add: once_ok_def del: map_of_eq_Some_iff)
qed

lemma once_ok_enter:
  assumes ok: "once_ok hi window c"
  shows "once_ok hi window (pool_apply memory_stores deliver (Enter now f) c)"
proof -
  obtain r b where en: "publish_enter now f (bp_broker c) = (r, b)" by (rule prod.exhaust)
  note eb = enter_broker(3,5,8) [OF en]
  show ?thesis
  proof (cases r)
    case (Inl err)
    have "once_ok hi window \<lparr> bp_broker = b, bp_world = bp_world c, bp_tasks = bp_tasks c \<rparr>"
      by (rule once_ok_same [OF ok]) (use eb once_okD [OF ok] in auto)
    then show ?thesis using Inl en by (simp add: once_ok_def del: map_of_eq_Some_iff)
  next
    case (Inr p)
    have "once_ok hi window \<lparr> bp_broker = b, bp_world = bp_world c, bp_tasks = bp_tasks c @ [p] \<rparr>"
      by (rule once_ok_same [OF ok]) (use Inr eb once_okD [OF ok] in \<open>auto simp: passed_new_def List.map_filter_def\<close>)
    then show ?thesis using Inr en by (simp add: once_ok_def del: map_of_eq_Some_iff)
  qed
qed

lemma once_ok_advance:
  assumes ok: "once_ok hi window c" and x: "pool_within lo hi (Advance k now)" and e: "\<And>now. lo \<le> now \<Longrightarrow> now < hi \<Longrightarrow> hi \<le> dedupe_expiry now window"
  shows "once_ok hi window (pool_apply memory_stores deliver (Advance k now) c)"
proof -
  obtain p b w where s: "publish_advance memory_stores deliver now (bp_tasks c ! k) (bp_broker c) (bp_world c) = (p, b, w)" by (rule prod_cases3)
  show ?thesis
  proof (cases "k < length (bp_tasks c) \<and> (\<exists>f t m q. bp_tasks c ! k = AtDedupe f t m q)")
    case True
    then obtain f t m q where k: "k < length (bp_tasks c)" "bp_tasks c ! k = AtDedupe f t m q" by blast
    have w: "b_dedupe_window (bp_broker c) = window" using ok by (simp add: once_ok_def del: map_of_eq_Some_iff)
    have now: "now < hi" "hi \<le> dedupe_expiry now window" using x e by auto
    obtain fresh dd where d: "MemoryDedupeStore_check_and_record now t m window (b_dedupe (bp_broker c)) = (fresh, dd)" by (rule prod.exhaust)
    show ?thesis using k w d once_ok_check [OF ok k now d] by (simp add: memory_stores_sel)
  next
    case False
    have "once_ok hi window \<lparr> bp_broker = b, bp_world = w, bp_tasks = (bp_tasks c)[k := p] \<rparr>" if "k < length (bp_tasks c)"
    proof (rule once_ok_same [OF ok])
      have "b_dedupe b = b_dedupe (bp_broker c)" using advance_broker(7) [OF s] False that by auto
      then show "hm_wf (b_dedupe b)" "\<And>t m e. hm_get (b_dedupe (bp_broker c)) (t, m) = Some e \<Longrightarrow> hm_get (b_dedupe b) (t, m) = Some e"
        using once_okD [OF ok] by auto
      show "b_dedupe_window b = b_dedupe_window (bp_broker c)" by (rule advance_broker(4) [OF s])
      show "passed_new t m ((bp_tasks c)[k := p]) = passed_new t m (bp_tasks c)" for t m
        using advance_new [OF s, of t m] False that by (intro passed_new_same) auto
    qed
    then show ?thesis using s ok by simp
  qed
qed

lemma once_ok_call:
  assumes ok: "once_ok hi window c" and x: "pool_within lo hi (Call op)"
  shows "once_ok hi window (pool_apply memory_stores deliver (Call op) c)"
proof -
  show ?thesis
  proof (cases "\<exists>now f. op = Publish now f")
    case False
    obtain b w where a: "broker_apply memory_stores deliver op (bp_broker c, bp_world c) = (b, w)" by (rule prod.exhaust)
    have eq: "pool_apply memory_stores deliver (Call op) c = c\<lparr>bp_broker := b, bp_world := w\<rparr>" using False a by (cases op) auto
    have win: "b_dedupe_window b = b_dedupe_window (bp_broker c)"
      and ded: "b_dedupe b = b_dedupe (bp_broker c) \<or> (\<exists>now < hi. b_dedupe b = snd (MemoryDedupeStore_sweep now (b_dedupe (bp_broker c))))"
      using a False x
      by (cases op; auto simp: InMemoryBroker_subscribe_def InMemoryBroker_unsubscribe_def InMemoryBroker_drop_sink_def memory_stores_sel
          InMemoryBroker_dec_publisher_def InMemoryBroker_maintain_def split: sum.splits option.splits prod.splits bool.splits)+
    have "once_ok hi window \<lparr> bp_broker = b, bp_world = w, bp_tasks = bp_tasks c \<rparr>"
    proof (rule once_ok_same [OF ok _ win])
      show "hm_wf (b_dedupe b)" using ded once_okD [OF ok] mem_dedupe.sweep_inv by auto
      show "hm_get (b_dedupe b) (t, m) = Some e" if "hm_get (b_dedupe (bp_broker c)) (t, m) = Some e" "hi \<le> e" for t m e
        using ded that mem_dedupe.sweep_expiry [OF once_okD [OF ok], where t = t and k = m] by (auto simp del: map_of_eq_Some_iff)
    qed simp
    then show ?thesis using eq by (simp add: once_ok_def del: map_of_eq_Some_iff)
  qed (use ok in auto)
qed

lemma once_ok_apply:
  assumes "once_ok hi window c" "pool_within lo hi x" "\<And>now. lo \<le> now \<Longrightarrow> now < hi \<Longrightarrow> hi \<le> dedupe_expiry now window"
  shows "once_ok hi window (pool_apply memory_stores deliver x c)"
  using assms once_ok_enter [OF assms(1)] once_ok_advance [OF assms(1) _ assms(3)] once_ok_call [OF assms(1)] by (cases x) blast+

lemma once_ok_run:
  "once_ok hi window c \<Longrightarrow> \<forall>x \<in> set xs. pool_within lo hi x
    \<Longrightarrow> (\<And>now. lo \<le> now \<Longrightarrow> now < hi \<Longrightarrow> hi \<le> dedupe_expiry now window)
    \<Longrightarrow> once_ok hi window (pool_run memory_stores deliver xs c)"
proof (induction xs rule: rev_induct)
  case (snoc x xs)
  then show ?case using once_ok_apply [of hi window "pool_run memory_stores deliver xs c" lo x deliver] by (simp add: pool_run_snoc)
qed (simp add: pool_run_def)

text \<open>Two publishes, the one with the later offset reaching log and subscribers first.\<close>

definition overtaking :: "nat \<Rightarrow> nat \<Rightarrow> i64 \<Rightarrow> PoolOp list" where
  "overtaking i j now = [Advance i now, Advance j now, Advance j now, Advance j now, Advance j now,
     Advance i now, Advance i now, Advance i now]"

lemma overtaking_run:
  assumes i: "i < length (bp_tasks c)" "bp_tasks c ! i = AtAlloc f t m p False"
    and j: "j < length (bp_tasks c)" "bp_tasks c ! j = AtAlloc f' t m' p' False" "i \<noteq> j"
    and a: "MemoryOffsetStore_alloc t (b_offsets (bp_broker c)) = (o1, offs1)" "MemoryOffsetStore_alloc t offs1 = (o2, offs2)"
    and c': "c' = pool_run memory_stores deliver (overtaking i j now) c"
  shows "bp_tasks c' ! i = Published f t m False o1" "bp_tasks c' ! j = Published f' t m' False o2"
    "bp_world c' = snd (FanoutEngine_deliver deliver t (serialize_frame_for_fanout f o1) (b_fanout (bp_broker c))
       (snd (FanoutEngine_deliver deliver t (serialize_frame_for_fanout f' o2) (b_fanout (bp_broker c)) (bp_world c))))"
    "b_log (bp_broker c') = MemoryLogStore_append now t (publish_entry f m o1) (tp_retention p)
       (MemoryLogStore_append now t (publish_entry f' m' o2) (tp_retention p') (b_log (bp_broker c)))"
  using i j a by (simp_all add: c' pool_run_def overtaking_def memory_stores_sel nth_list_update)

section \<open>A concrete run\<close>

definition race_frame :: "bytes \<Rightarrow> Frame" where
  "race_frame x = demo_frame ''t'' (if x = [1] then ''a'' else ''b'') x"

definition race_start :: "PoolOp list" where
  "race_start = [Call (Subscribe ''t'' SubscribeIntent.Live 5), Enter 0 (race_frame [1]), Enter 0 (race_frame [2]), Advance 0 0, Advance 1 0]"

definition to_the_end :: "nat \<Rightarrow> i64 \<Rightarrow> PoolOp list" where
  "to_the_end k now = [Advance k now, Advance k now, Advance k now, Advance k now, Advance k now]"

definition race_first :: "PoolOp list" where "race_first = Enter 0 (race_frame [1]) # to_the_end 0 0"

definition race_second :: "PoolOp list" where "race_second = Enter 1 (race_frame [2]) # to_the_end 1 1"

definition race_full :: "PoolOp list" where
  "race_full = race_start @ overtaking 0 1 0"

definition race_pool :: "(sink_id \<Rightarrow> CountingSink) MemoryPool" where
  "race_pool = pool_new demo_profile 60000 100 (\<lambda>_. CountingSink_new)"

abbreviation race_run :: "PoolOp list \<Rightarrow> (sink_id \<Rightarrow> CountingSink) MemoryPool" where
  "race_run xs \<equiv> pool_run memory_stores counting_deliver xs race_pool"

lemma race_started:
  "bp_tasks (race_run race_start) = [AtAlloc (race_frame [1]) ''t'' ''a'' demo_profile False, AtAlloc (race_frame [2]) ''t'' ''b'' demo_profile False]"
  "b_offsets (bp_broker (race_run race_start)) = []" "b_log (bp_broker (race_run race_start)) = []"
  "bp_world (race_run race_start) = (\<lambda>_. CountingSink_new)"
  "hm_get (fe_by_topic (b_fanout (bp_broker (race_run race_start)))) ''t'' = Some [(1, 5)]"
  by (simp_all add: pool_run_def race_start_def race_pool_def pool_new_def race_frame_def publish_enter_def memory_stores_sel
      InMemoryBroker_subscribe_def FanoutEngine_subscribe_def FanoutEngine_new_def try_inc_subscriber_eq
      MemoryDedupeStore_check_and_record_def dedupe_expiry_def demo_eval)

lemma race_finished:
  "bp_tasks (race_run race_full) =
    [Published (race_frame [1]) ''t'' ''a'' False 1, Published (race_frame [2]) ''t'' ''b'' False 2]"
  "MemoryOffsetStore_head ''t'' (b_offsets (bp_broker (race_run race_full))) = 2"
proof -
  have w: "wrap_i64 1 = 1" "wrap_i64 2 = 2" "wrap_i64 3 = 3" by (simp_all add: wrap_i64_def)
  have "bp_tasks (pool_run memory_stores deliver (overtaking 0 1 0) c) =
        [Published (race_frame [1]) ''t'' ''a'' False 1, Published (race_frame [2]) ''t'' ''b'' False 2] \<and>
      MemoryOffsetStore_head ''t'' (b_offsets (bp_broker (pool_run memory_stores deliver (overtaking 0 1 0) c))) = 2"
    if "bp_tasks c = [AtAlloc (race_frame [1]) ''t'' ''a'' demo_profile False, AtAlloc (race_frame [2]) ''t'' ''b'' demo_profile False]"
      "b_offsets (bp_broker c) = []" for c :: "'w MemoryPool" and deliver
    using that w by (simp add: pool_run_def overtaking_def memory_stores_sel MemoryOffsetStore_alloc_def MemoryOffsetStore_head_def
        hm_or_insert_def hm_get_or_def Let_def)
  from this [OF race_started(1,2)]
  show "bp_tasks (race_run race_full) =
      [Published (race_frame [1]) ''t'' ''a'' False 1, Published (race_frame [2]) ''t'' ''b'' False 2]"
    "MemoryOffsetStore_head ''t'' (b_offsets (bp_broker (race_run race_full))) = 2"
    by (simp_all add: race_full_def pool_run_append)
qed

section \<open>Properties\<close>

text \<open>C5. Concurrent publishes keep the log exact on durable topics: whatever publishes and other calls are
  interleaved on a new broker, the offsets handed out on a topic are distinct and are exactly 1 to the head,
  and a replay up to the head returns, in the order they were logged, exactly the payloads of the publishes
  that have reached the log, none lost and none twice.\<close>

theorem concurrent_replay_exact:
  assumes "tp_retention P = Durable" "int (length xs) < i64_max"
    and c: "c = pool_run memory_stores deliver xs (pool_new P window max_payload w)"
  shows "distinct (offsets_given t (bp_tasks c)) \<and>
    set (offsets_given t (bp_tasks c)) = {1..InMemoryBroker_head_offset memory_stores t (bp_broker c)} \<and>
    (\<exists>es. mset es = mset (entries_logged t (bp_tasks c)) \<and>
       InMemoryBroker_replay memory_stores t 1 (InMemoryBroker_head_offset memory_stores t (bp_broker c)) (bp_broker c)
         = Inr (map le_payload es))"
proof -
  let ?es = "hm_get_or [] (b_log (bp_broker c)) t"
  have ok: "pool_ok P (length xs) c" unfolding c using pool_run_ok [OF pool_ok_new, of xs P] assms(1,2) by simp
  have "MemoryLogStore_range t 1 (MemoryOffsetStore_head t (b_offsets (bp_broker c))) (b_log (bp_broker c)) = ?es"
    using pool_log_offsets [OF ok, of _ t] by (auto simp: MemoryLogStore_range_def hm_get_or_def split: option.splits)
  moreover have "mset ?es = mset (entries_logged t (bp_tasks c))" using ok by (simp add: pool_ok_def)
  ultimately have "mset ?es = mset (entries_logged t (bp_tasks c)) \<and>
      InMemoryBroker_replay memory_stores t 1 (InMemoryBroker_head_offset memory_stores t (bp_broker c)) (bp_broker c) = Inr (map le_payload ?es)"
    by (simp add: InMemoryBroker_replay_def InMemoryBroker_head_offset_def memory_stores_sel)
  moreover have "distinct (offsets_given t (bp_tasks c)) \<and>
      set (offsets_given t (bp_tasks c)) = {1..InMemoryBroker_head_offset memory_stores t (bp_broker c)}"
    using ok by (simp add: pool_ok_def InMemoryBroker_head_offset_def memory_stores_sel)
  ultimately show ?thesis by blast
qed

theorem concurrent_replay_exact_witness:
  "set (offsets_given ''t'' (bp_tasks (race_run race_full))) = {1..2} \<and>
   (\<exists>es. mset es = {#publish_entry (race_frame [1]) ''a'' 1, publish_entry (race_frame [2]) ''b'' 2#} \<and>
      InMemoryBroker_replay memory_stores ''t'' 1 2 (bp_broker (race_run race_full)) = Inr (map le_payload es))"
proof -
  have n: "int (length race_full) < i64_max" by (simp add: race_full_def race_start_def overtaking_def i64_max_def)
  have c: "race_run race_full = pool_run memory_stores counting_deliver race_full (pool_new demo_profile 60000 100 (\<lambda>_. CountingSink_new))"
    by (simp only: race_pool_def)
  show ?thesis using concurrent_replay_exact [OF demo_durable n c, of "''t''"]
    by (simp add: race_finished entries_logged_def map_filter_simps InMemoryBroker_head_offset_def memory_stores_sel)
qed



text \<open>C8. A message is delivered once however its publishes interleave: of all publishes with one topic and message
  id whose steps fall within one window of a new broker, at most one passes the duplicate check and goes on to
  its subscribers.\<close>

theorem concurrent_delivered_once:
  assumes "\<forall>x \<in> set xs. pool_within lo (lo + int window) x" "i64_min \<le> lo" "lo + 2 * int window \<le> i64_max"
    and "c = pool_run memory_stores deliver xs (pool_new P window max_payload w)"
  shows "passed_new t m (bp_tasks c) \<le> 1"
proof -
  have "lo + int window \<le> dedupe_expiry now window" if "lo \<le> now" "now < lo + int window" for now
  proof -
    have "i64_ok (int window)" "i64_ok (now + int window)" using assms(2,3) that by (auto simp: i64_ok_def i64_min_def i64_max_def)
    then show ?thesis using that by (simp add: dedupe_expiry_def)
  qed
  moreover have "once_ok (lo + int window) window (pool_new P window max_payload w)"
    by (simp add: once_ok_def pool_new_def InMemoryBroker_new_def InMemoryBroker_with_stores_def passed_new_def map_filter_simps)
  ultimately have "once_ok (lo + int window) window c" unfolding assms(4) using assms(1) once_ok_run by blast
  then show ?thesis unfolding once_ok_def by (metis le_numeral_extra(4) zero_le)
qed

theorem concurrent_delivered_once_witness:
  "passed_new ''t'' ''a'' (bp_tasks (race_run [Enter 0 (race_frame [1]), Enter 0 (race_frame [1]), Advance 1 0, Advance 0 7])) \<le> 1"
  using concurrent_delivered_once [of "[Enter 0 (race_frame [1]), Enter 0 (race_frame [1]), Advance 1 0, Advance 0 7]" 0 60000 _ counting_deliver
      demo_profile 100 "\<lambda>_. CountingSink_new" "''t''" "''a''"]
  by (simp add: race_pool_def i64_min_def i64_max_def)

text \<open>C31. Publishes on different connections overtake each other: of any two that are about to take their offsets
  on a topic, the one that takes the later offset can reach the log and the subscribers first.  Every
  subscriber then gets the two against their offsets, a durable log replays them in that order, and a log that
  retains the latest message keeps the older one, although the topic promises a single order.\<close>

theorem publishes_overtake:
  assumes i: "i < length (bp_tasks c)" "bp_tasks c ! i = AtAlloc f t m p False"
    and j: "j < length (bp_tasks c)" "bp_tasks c ! j = AtAlloc f' t m' p' False" "i \<noteq> j"
    and h: "h = InMemoryBroker_head_offset memory_stores t (bp_broker c)" "h < i64_max - 2" "mem_offsets_ok (b_offsets (bp_broker c))"
    and log: "\<forall>e \<in> set (hm_get_or [] (b_log (bp_broker c)) t). le_offset e \<le> h"
    and ret: "tp_retention p = r" "tp_retention p' = r" "r = Durable \<or> r = RetentionPolicy.Latest"
    and c': "c' = pool_run memory_stores deliver (overtaking i j now) c"
  shows "bp_tasks c' ! i = Published f t m False (h + 1) \<and> bp_tasks c' ! j = Published f' t m' False (h + 2) \<and>
    bp_world c' = snd (FanoutEngine_deliver deliver t (serialize_frame_for_fanout f (h + 1)) (b_fanout (bp_broker c))
      (snd (FanoutEngine_deliver deliver t (serialize_frame_for_fanout f' (h + 2)) (b_fanout (bp_broker c)) (bp_world c)))) \<and>
    InMemoryBroker_replay memory_stores t (h + 1) (h + 2) (bp_broker c') =
      Inr (if r = Durable then [frame_payload f', frame_payload f] else [frame_payload f])"
proof -
  let ?o = "b_offsets (bp_broker c)" and ?e = "publish_entry f m (h + 1)" and ?e' = "publish_entry f' m' (h + 2)"
  have hd: "MemoryOffsetStore_head t ?o = h" using h(1) by (simp add: InMemoryBroker_head_offset_def memory_stores_sel)
  obtain o1 offs1 where a1: "MemoryOffsetStore_alloc t ?o = (o1, offs1)" by (rule prod.exhaust)
  obtain o2 offs2 where a2: "MemoryOffsetStore_alloc t offs1 = (o2, offs2)" by (rule prod.exhaust)
  have o1: "o1 = h + 1" "MemoryOffsetStore_head t offs1 = h + 1" "mem_offsets_ok offs1"
    using mem_offsets.alloc_next [OF h(3), of t] mem_offsets.alloc_inv [OF h(3), of t] hd h(2) a1 by auto
  have o2: "o2 = h + 2" using mem_offsets.alloc_next [OF o1(3), of t] o1(2) h(2) a2 by simp
  note run = overtaking_run [OF i j a1 a2 c', unfolded o1(1) o2]
  have old: "filter (\<lambda>e. h + 1 \<le> le_offset e \<and> le_offset e \<le> h + 2) (hm_get_or [] (b_log (bp_broker c)) t) = []"
    "filter (\<lambda>e. le_offset e = h + 2) (hm_get_or [] (b_log (bp_broker c)) t) = []" using log by (auto simp: filter_empty_conv)
  have "MemoryLogStore_range t (h + 1) (h + 2) (b_log (bp_broker c')) = (if r = Durable then [?e', ?e] else [?e])"
    unfolding run(4) using ret(3) old
    by (auto simp: ret(1,2) MemoryLogStore_range_def MemoryLogStore_append_def memory_retain_def publish_entry_def hm_get_or_def Let_def)
  then show ?thesis using run(1,2,3)
    by (simp add: InMemoryBroker_replay_def memory_stores_sel publish_entry_def frame_payload_def)
qed

theorem publishes_overtake_witness:
  "ct_log (bp_world (race_run race_full) 5) =
      [serialize_frame_for_fanout (race_frame [2]) 2, serialize_frame_for_fanout (race_frame [1]) 1] \<and>
   InMemoryBroker_replay memory_stores ''t'' 1 2 (bp_broker (race_run race_full)) = Inr [[2], [1]] \<and>
   tp_ordering demo_profile = TopicOrder"
proof -
  let ?c = "race_run race_start"
  have h: "0 = InMemoryBroker_head_offset memory_stores ''t'' (bp_broker ?c)" "mem_offsets_ok (b_offsets (bp_broker ?c))"
    by (simp_all add: race_started InMemoryBroker_head_offset_def memory_stores_sel MemoryOffsetStore_head_def mem_offsets_ok_def)
  have "bp_world (race_run race_full) = snd (FanoutEngine_deliver counting_deliver ''t''
        (serialize_frame_for_fanout (race_frame [1]) 1) (b_fanout (bp_broker ?c)) (snd (FanoutEngine_deliver counting_deliver ''t''
        (serialize_frame_for_fanout (race_frame [2]) 2) (b_fanout (bp_broker ?c)) (bp_world ?c)))) \<and>
      InMemoryBroker_replay memory_stores ''t'' 1 2 (bp_broker (race_run race_full)) = Inr [[2], [1]]"
    using publishes_overtake [of 0 ?c "race_frame [1]" "''t''" "''a''" demo_profile 1 "race_frame [2]" "''b''" demo_profile 0 Durable _ counting_deliver 0] h
    by (simp add: race_started demo_durable i64_max_def hm_get_or_def race_full_def pool_run_append race_frame_def frame_payload_def demo_frame_def)
  then show ?thesis
    by (simp add: FanoutEngine_deliver_def race_started counting_deliver_def CountingSink_deliver_def CountingSink_new_def
        demo_profile_def TopicProfile_default_def)
qed

end
