(* ===== verification/Connection_Properties.thy ===== *)
theory Connection_Properties
  imports Connection Broker_Properties
begin

text \<open>
  The outbound byte counter of a connection, the publisher slots it takes and gives back,
  and the order in which its two tasks get at the transport.
\<close>

lemma unat_neg_of_nat:
  assumes "0 < d" "d < 2 ^ 64"
  shows "unat (- word_of_nat d :: usize) = 2 ^ 64 - d"
proof -
  have "word_of_nat (2 ^ 64 - d) = (word_of_nat (2 ^ 64) - word_of_nat d :: usize)"
    using assms(2) by (intro of_nat_diff) simp
  also have "(word_of_nat (2 ^ 64) :: usize) = 0" by simp
  finally have "- word_of_nat d = (word_of_nat (2 ^ 64 - d) :: usize)" by simp
  moreover have "unat (word_of_nat (2 ^ 64 - d) :: usize) = 2 ^ 64 - d"
    unfolding unat_of_nat take_bit_eq_mod by (rule mod_less) (use assms in simp)
  ultimately show ?thesis by (simp only:)
qed

section \<open>The byte counter\<close>

text \<open>What happens to a channel: a delivery by a sink, a reply of the control handler or
  reader, a frame written.\<close>

datatype channel_op = Deliver bytes MpscSink | Reply Frame | WriteNext

definition channel_apply :: "channel_op \<Rightarrow> Channel \<Rightarrow> Channel" where
  "channel_apply op ch =
    (case op of
       Deliver b s \<Rightarrow> snd (MpscSink_deliver b s ch)
     | Reply f \<Rightarrow> snd (try_send f ch)
     | WriteNext \<Rightarrow> snd (writer_step WriteOk True ch))"

definition queued_len :: "Frame \<Rightarrow> nat" where
  "queued_len f = length (frame_payload f)"

text \<open>Bytes reserved for queued data frames, and bytes of replies an operation writes.\<close>

definition reserved :: "Channel \<Rightarrow> nat" where
  "reserved ch = sum_list (map queued_len (filter (\<lambda>f. fr_frame_type f = FrameType.Data) (ch_queue ch)))"

definition reply_bytes :: "channel_op \<Rightarrow> Channel \<Rightarrow> nat" where
  "reply_bytes op ch =
    (case (op, ch_queue ch) of
       (WriteNext, f # _) \<Rightarrow> if fr_frame_type f = FrameType.Data then 0 else queued_len f
     | _ \<Rightarrow> 0)"

fun channel_run :: "channel_op list \<Rightarrow> Channel \<Rightarrow> nat \<times> Channel" where
  "channel_run [] ch = (0, ch)"
| "channel_run (op # ops) ch =
    (case channel_run ops (channel_apply op ch) of (n, ch') \<Rightarrow> (reply_bytes op ch + n, ch'))"

definition is_reply :: "channel_op \<Rightarrow> bool" where
  "is_reply op = (case op of Reply f \<Rightarrow> fr_frame_type f \<noteq> FrameType.Data | _ \<Rightarrow> True)"

lemma fanout_frame_len [simp]:
  "queued_len (fanout_frame codec b) = length b" "fr_frame_type (fanout_frame codec b) = FrameType.Data"
  by (simp_all add: queued_len_def fanout_frame_def frame_payload_def)

lemma deliver_cases:
  assumes "MpscSink_deliver b s ch = (r, ch')"
  shows "ch' = ch \<and> (\<exists>e. r = Inl e)
    \<or> r = Inr () \<and> ch' = ch\<lparr>ch_in_flight_bytes := ch_in_flight_bytes ch + word_of_nat (length b),
        ch_queue := ch_queue ch @ [fanout_frame (ms_codec s) b]\<rparr>"
proof -
  have upd: "ch\<lparr>ch_in_flight_bytes := ch_in_flight_bytes ch\<rparr> = ch" by simp
  show ?thesis
    using assms upd
    by (auto simp: MpscSink_deliver_def sink_next_def try_send_def Let_def split: if_splits)
qed

text \<open>The counter is the reservation less the replies written so far.\<close>

lemma apply_accounting:
  assumes "is_reply op" "ch_in_flight_bytes ch + word_of_nat w = (word_of_nat (reserved ch) :: usize)"
  shows "ch_in_flight_bytes (channel_apply op ch) + word_of_nat (w + reply_bytes op ch)
    = (word_of_nat (reserved (channel_apply op ch)) :: usize)"
proof (cases op)
  case (Deliver b s)
  obtain r ch' where d: "MpscSink_deliver b s ch = (r, ch')" by (rule prod.exhaust)
  from deliver_cases [OF d] assms(2) Deliver d show ?thesis
    by (auto simp: channel_apply_def reply_bytes_def reserved_def algebra_simps)
next
  case (Reply f)
  then show ?thesis
    using assms by (auto simp: channel_apply_def reply_bytes_def reserved_def try_send_def is_reply_def)
next
  case WriteNext
  show ?thesis
  proof (cases "ch_queue ch")
    case Nil
    then show ?thesis using assms WriteNext by (simp add: channel_apply_def reply_bytes_def writer_step_def)
  next
    case (Cons f rest)
    have len: "length (frame_payload f) = queued_len f" by (simp add: queued_len_def)
    have c: "channel_apply op ch = ch\<lparr>ch_queue := rest, ch_in_flight_bytes := ch_in_flight_bytes ch - word_of_nat (queued_len f)\<rparr>"
      using WriteNext Cons by (simp add: channel_apply_def writer_step_def Let_def len)
    have r: "reserved ch = (if fr_frame_type f = FrameType.Data then queued_len f else 0) + reserved (channel_apply op ch)"
      unfolding c by (simp add: reserved_def Cons)
    have rb: "reply_bytes op ch = (if fr_frame_type f = FrameType.Data then 0 else queued_len f)"
      using WriteNext Cons by (simp add: reply_bytes_def)
    show ?thesis
    proof (cases "fr_frame_type f = FrameType.Data")
      case True
      then have "word_of_nat (reserved ch) = (word_of_nat (queued_len f) + word_of_nat (reserved (channel_apply op ch)) :: usize)"
        using r by simp
      then show ?thesis using assms(2) True unfolding rb by (simp add: c algebra_simps)
    next
      case False
      then have "reserved ch = reserved (channel_apply op ch)" using r by simp
      then show ?thesis using assms(2) False unfolding rb by (simp add: c algebra_simps)
    qed
  qed
qed

lemma run_accounting:
  "\<forall>op \<in> set ops. is_reply op
   \<Longrightarrow> ch_in_flight_bytes ch + word_of_nat w = (word_of_nat (reserved ch) :: usize)
   \<Longrightarrow> channel_run ops ch = (n, ch')
   \<Longrightarrow> ch_in_flight_bytes ch' + word_of_nat (w + n) = (word_of_nat (reserved ch') :: usize)"
proof (induction ops arbitrary: ch w n)
  case (Cons op ops)
  obtain m ch1 where r: "channel_run ops (channel_apply op ch) = (m, ch1)" by (rule prod.exhaust)
  then have n: "n = reply_bytes op ch + m" "ch' = ch1" using Cons.prems(3) by auto
  have "is_reply op" "\<forall>op \<in> set ops. is_reply op" using Cons.prems(1) by simp_all
  from Cons.IH [OF this(2) apply_accounting [OF this(1) Cons.prems(2)] r [folded n(2)]] show ?case
    by (simp add: n algebra_simps)
qed simp

section \<open>Publisher slots of a connection\<close>

text \<open>A sequence of data frames of one connection, each with its clock and ack id, and the
  number accepted on a topic.\<close>

fun publish_all ::
  "Libs \<Rightarrow> ('o, 'l, 'd, 's) BrokerStores \<Rightarrow> (i64 \<times> string \<times> Frame) list \<Rightarrow> ConnLocal \<Rightarrow> ('o, 'l, 'd, 's) Node
    \<Rightarrow> ConnLocal \<times> ('o, 'l, 'd, 's) Node" where
  "publish_all libs ops [] cl nd = (cl, nd)"
| "publish_all libs ops ((now, uuid, frame) # fs) cl nd =
    (case reader_data libs ops now uuid frame cl nd of (cl', nd') \<Rightarrow> publish_all libs ops fs cl' nd')"

definition data_accepted ::
  "('o, 'l, 'd, 's) BrokerStores \<Rightarrow> string \<Rightarrow> i64 \<Rightarrow> Frame \<Rightarrow> ('o, 'l, 'd, 's) Node \<Rightarrow> bool" where
  "data_accepted ops t now frame nd \<longleftrightarrow> \<not> frame_expired now frame \<and> fr_topic frame = Some t
    \<and> (\<exists>out. fst (InMemoryBroker_publish ops net_deliver now frame (nd_broker nd) (nd_net nd)) = Inr out)"

fun accepted_on ::
  "Libs \<Rightarrow> ('o, 'l, 'd, 's) BrokerStores \<Rightarrow> string \<Rightarrow> (i64 \<times> string \<times> Frame) list \<Rightarrow> ConnLocal
    \<Rightarrow> ('o, 'l, 'd, 's) Node \<Rightarrow> nat" where
  "accepted_on libs ops t [] cl nd = 0"
| "accepted_on libs ops t ((now, uuid, frame) # fs) cl nd =
    (if data_accepted ops t now frame nd then 1 else 0)
    + (case reader_data libs ops now uuid frame cl nd of (cl', nd') \<Rightarrow> accepted_on libs ops t fs cl' nd')"

lemma data_publishers:
  assumes "profiles_default (nd_broker nd)" "distinct (cn_published_topics cl)"
    and "reader_data libs ops now uuid frame cl nd = (cl', nd')"
  shows "profiles_default (nd_broker nd') \<and> distinct (cn_published_topics cl')
    \<and> unat (publishers (nd_broker nd') t) = unat (publishers (nd_broker nd) t) + (if data_accepted ops t now frame nd then 1 else 0)
    \<and> (t \<in> set (cn_published_topics cl') \<longleftrightarrow> t \<in> set (cn_published_topics cl) \<or> data_accepted ops t now frame nd)"
proof (cases "frame_expired now frame")
  case True
  then show ?thesis using assms by (auto simp: reader_data_def data_accepted_def)
next
  case False
  obtain r b net where p: "InMemoryBroker_publish ops net_deliver now frame (nd_broker nd) (nd_net nd) = (r, b, net)"
    by (rule prod_cases3)
  note pub = publish_publishers [OF assms(1) p]
  show ?thesis
  proof (cases r)
    case (Inl e)
    then show ?thesis
      using assms False p pub by (auto simp: reader_data_def data_accepted_def Let_def)
  next
    case (Inr out)
    then obtain topic where topic: "fr_topic frame = Some topic"
      "publishers (nd_broker nd) topic < tp_max_publishers (b_default_profile (nd_broker nd))"
      "publishers b = (publishers (nd_broker nd))(topic := publishers (nd_broker nd) topic + 1)"
      using pub by auto
    have "cl' = cl\<lparr>cn_published_topics := List.insert topic (cn_published_topics cl)\<rparr>" "nd_broker nd' = b"
      using assms(3) False p Inr topic(1) by (auto simp: reader_data_def Let_def)
    then show ?thesis
      using assms(2) False p Inr topic pub by (auto simp: data_accepted_def unat_inc_less)
  qed
qed

lemma publish_all_publishers:
  "\<lbrakk>profiles_default (nd_broker nd); distinct (cn_published_topics cl); publish_all libs ops fs cl nd = (cl', nd')\<rbrakk>
   \<Longrightarrow> distinct (cn_published_topics cl')
     \<and> unat (publishers (nd_broker nd') t) = unat (publishers (nd_broker nd) t) + accepted_on libs ops t fs cl nd
     \<and> (t \<in> set (cn_published_topics cl') \<longleftrightarrow> t \<in> set (cn_published_topics cl) \<or> 0 < accepted_on libs ops t fs cl nd)"
proof (induction fs arbitrary: cl nd)
  case (Cons p fs)
  obtain now uuid frame where p: "p = (now, uuid, frame)" by (rule prod_cases3)
  obtain cl1 nd1 where d: "reader_data libs ops now uuid frame cl nd = (cl1, nd1)" by (rule prod.exhaust)
  note step = data_publishers [OF Cons.prems(1,2) d, of t]
  have "publish_all libs ops fs cl1 nd1 = (cl', nd')" using Cons.prems(3) p d by simp
  from Cons.IH [OF _ _ this] step d show ?case by (auto simp: p)
qed simp

lemma drop_sinks_publishers [simp]: "publishers (drop_sinks ks b) t = publishers b t"
proof (induction ks arbitrary: b)
  case (Cons k ks)
  have "publishers (snd (InMemoryBroker_drop_sink k b)) t = publishers b t"
    by (auto simp: InMemoryBroker_drop_sink_def publishers_def release_all_get split: prod.splits option.splits)
  then show ?case using Cons.IH by (simp add: drop_sinks_def)
qed (simp add: drop_sinks_def)

lemma dec_publishers_publishers:
  "\<lbrakk>distinct ts; \<And>x. x \<in> set ts \<Longrightarrow> hm_get (b_store b) x \<noteq> None\<rbrakk>
   \<Longrightarrow> publishers (dec_publishers ts b) t = publishers b t - (if t \<in> set ts then 1 else 0)"
proof (induction ts arbitrary: b)
  case (Cons x ts)
  let ?b = "InMemoryBroker_dec_publisher x b"
  have "publishers ?b t = publishers b t - (if t = x then 1 else 0)"
    using Cons.prems(2) [of x] by (auto simp: publishers_def InMemoryBroker_dec_publisher_def update_get
        TopicEntry_dec_publisher_def split: option.splits)
  moreover have "hm_get (b_store ?b) y \<noteq> None" if "y \<in> set ts" for y
    using Cons.prems(2) [of y] that by (auto simp: InMemoryBroker_dec_publisher_def update_get split: if_splits)
  ultimately show ?case using Cons.IH [of ?b] Cons.prems(1) by (auto simp: dec_publishers_def)
qed (simp add: dec_publishers_def)

lemma teardown_publishers:
  assumes "distinct (cn_published_topics cl)"
    and "\<And>x. x \<in> set (cn_published_topics cl) \<Longrightarrow> publishers (nd_broker nd) x \<noteq> 0"
  shows "publishers (nd_broker (snd (teardown cl nd))) t
    = publishers (nd_broker nd) t - (if t \<in> set (cn_published_topics cl) then 1 else 0)"
proof -
  let ?b = "drop_sinks (cn_sink_id cl # cn_subscription_sinks cl) (nd_broker nd)"
  have "hm_get (b_store ?b) x \<noteq> None" if "x \<in> set (cn_published_topics cl)" for x
  proof -
    have "publishers ?b x \<noteq> 0" using assms(2) [OF that] by simp
    then show ?thesis by (auto simp: publishers_def split: option.splits)
  qed
  moreover have "nd_broker (snd (teardown cl nd)) = dec_publishers (cn_published_topics cl) ?b"
    by (simp add: teardown_def drop_sinks_def)
  ultimately show ?thesis using dec_publishers_publishers [OF assms(1), of ?b t] by simp
qed

section \<open>Who holds the transport\<close>

text \<open>The reader locks the transport slot and keeps the lock while it waits for a frame, under the
  idle timeout (\<open>reader.rs\<close>); the writer needs the same lock to write a frame it has taken, under
  the write timeout, and again to clear the slot when it gives up (\<open>writer.rs\<close>).\<close>

datatype Holder = Nobody | ReaderHolds | WriterHolds

datatype WriterPhase = W_idle | W_writing | W_releasing | W_stopped

record Io =
  io_holder :: Holder
  io_slot :: bool
  io_reading :: bool
  io_queued :: nat
  io_writer :: WriterPhase
  io_written :: nat

datatype io_label =
    ReaderLocks | FrameArrives | IdleTimeout | ReaderStops
  | Enqueue | WriterTakes | WriterLocks | WriteDone | WriteFails | SlotCleared

inductive io_step :: "Io \<Rightarrow> io_label \<Rightarrow> Io \<Rightarrow> bool" where
  reader_locks: "io_holder s = Nobody \<Longrightarrow> io_reading s \<Longrightarrow> io_slot s
    \<Longrightarrow> io_step s ReaderLocks (s\<lparr>io_holder := ReaderHolds\<rparr>)"
| frame_arrives: "io_holder s = ReaderHolds \<Longrightarrow> io_step s FrameArrives (s\<lparr>io_holder := Nobody\<rparr>)"
| idle_timeout: "io_reading s \<Longrightarrow> io_step s IdleTimeout
    (s\<lparr>io_reading := False, io_holder := (if io_holder s = ReaderHolds then Nobody else io_holder s)\<rparr>)"
| reader_stops: "io_holder s = Nobody \<Longrightarrow> io_reading s \<Longrightarrow> \<not> io_slot s
    \<Longrightarrow> io_step s ReaderStops (s\<lparr>io_reading := False\<rparr>)"
| enqueue: "io_step s Enqueue (s\<lparr>io_queued := io_queued s + 1\<rparr>)"
| writer_takes: "0 < io_queued s \<Longrightarrow> io_writer s = W_idle
    \<Longrightarrow> io_step s WriterTakes (s\<lparr>io_queued := io_queued s - 1, io_writer := W_writing\<rparr>)"
| writer_locks: "io_holder s = Nobody \<Longrightarrow> io_writer s = W_writing \<Longrightarrow> io_slot s
    \<Longrightarrow> io_step s WriterLocks (s\<lparr>io_holder := WriterHolds\<rparr>)"
| write_done: "io_holder s = WriterHolds
    \<Longrightarrow> io_step s WriteDone (s\<lparr>io_holder := Nobody, io_writer := W_idle, io_written := io_written s + 1\<rparr>)"
| write_fails: "io_writer s = W_writing \<Longrightarrow> io_step s WriteFails
    (s\<lparr>io_writer := W_releasing, io_holder := (if io_holder s = WriterHolds then Nobody else io_holder s)\<rparr>)"
| slot_cleared: "io_holder s = Nobody \<Longrightarrow> io_writer s = W_releasing
    \<Longrightarrow> io_step s SlotCleared (s\<lparr>io_slot := False, io_writer := W_stopped\<rparr>)"

inductive_cases io_stepE: "io_step s l s'"

inductive io_run :: "Io \<Rightarrow> io_label list \<Rightarrow> Io \<Rightarrow> bool" where
  nil: "io_run s [] s"
| cons: "io_step s l s1 \<Longrightarrow> io_run s1 ls s' \<Longrightarrow> io_run s (l # ls) s'"

section \<open>Properties\<close>

text \<open>C17. The outbound byte counter is exact up to replies: after any sequence of deliveries, replies
  and writes on a new channel the counter is the number of payload bytes of the queued
  data frames less the payload bytes of all replies written, modulo its width.\<close>

theorem in_flight_accounting:
  assumes "\<forall>op \<in> set ops. is_reply op" "ch_queue ch = []" "ch_in_flight_bytes ch = 0"
    and "channel_run ops ch = (n, ch')"
  shows "ch_in_flight_bytes ch' = word_of_nat (reserved ch') - (word_of_nat n :: usize)"
proof -
  have "ch_in_flight_bytes ch + word_of_nat 0 = (word_of_nat (reserved ch) :: usize)"
    by (simp add: assms(2,3) reserved_def)
  from run_accounting [OF assms(1) this assms(4)] show ?thesis by (simp add: eq_diff_eq)
qed

theorem in_flight_accounting_witness:
  "\<exists>n ch'. channel_run [Reply (control_frame EncodingFormat.Json None (Some [1, 2, 3])), WriteNext]
      \<lparr> ch_queue = [], ch_capacity = 4, ch_open = True, ch_in_flight_bytes = 0 \<rparr> = (n, ch')
    \<and> ch_in_flight_bytes ch' = - 3"
proof -
  let ?ops = "[Reply (control_frame EncodingFormat.Json None (Some [1, 2, 3])), WriteNext]"
  let ?ch = "\<lparr> ch_queue = [], ch_capacity = 4, ch_open = True, ch_in_flight_bytes = 0 \<rparr>"
  obtain n ch' where r: "channel_run ?ops ?ch = (n, ch')" by (rule prod.exhaust)
  have "n = 3" "reserved ch' = 0"
    using r by (auto simp: channel_apply_def reply_bytes_def try_send_def writer_step_def control_frame_def
        frame_defs queued_len_def frame_payload_def reserved_def Let_def)
  moreover have "\<forall>op \<in> set ?ops. is_reply op" by (simp add: is_reply_def control_frame_def)
  ultimately show ?thesis using in_flight_accounting [OF _ _ _ r] r by auto
qed

text \<open>A written reply blocks later deliveries: once a reply of more bytes than a message has been
  written on an idle channel, the sinks of the connection refuse the message as
  backpressured, although nothing is queued, and stay in that state.\<close>

theorem reply_blocks_delivery:
  assumes "ch_open ch" "ch_queue ch = []" "0 < ch_capacity ch" "ch_in_flight_bytes ch = 0"
    and "writer_step WriteOk True (snd (try_send reply ch)) = (slot, ch')"
    and "length b < length (frame_payload reply)"
    and "unat (ms_max_bytes s) + length (frame_payload reply) < 2 ^ 64"
  shows "ch_queue ch' = [] \<and> (\<exists>c. MpscSink_deliver b s ch' = (Inl (FanoutError.Backpressured c (ms_max_bytes s)), ch'))"
proof -
  let ?n = "length (frame_payload reply)" and ?l = "length b"
  have ch': "ch' = ch\<lparr>ch_queue := [], ch_in_flight_bytes := 0 - word_of_nat ?n\<rparr>"
    using assms(1-5) by (auto simp: try_send_def writer_step_def Let_def)
  have lt: "?l \<le> ?n" "?n < 2 ^ 64" using assms(6,7) by auto
  have "(0 - word_of_nat ?n) + word_of_nat ?l = (- word_of_nat (?n - ?l) :: usize)"
    using lt(1) by (simp add: of_nat_diff)
  also have "unat (- word_of_nat (?n - ?l) :: usize) = 2 ^ 64 - (?n - ?l)"
    by (rule unat_neg_of_nat) (use assms(6) lt in auto)
  finally have "unat ((0 - word_of_nat ?n) + word_of_nat ?l :: usize) = 2 ^ 64 - (?n - ?l)" .
  then have "ms_max_bytes s < (0 - word_of_nat ?n) + word_of_nat ?l"
    using assms(7) lt by (simp add: word_less_nat_alt)
  then show ?thesis
    unfolding ch' by (simp add: MpscSink_deliver_def sink_next_def)
qed

theorem reply_blocks_delivery_witness:
  "\<exists>c. MpscSink_deliver [1, 2] \<lparr> ms_conn = 1, ms_max_bytes = 100, ms_codec = EncodingFormat.Json \<rparr>
      (snd (writer_step WriteOk True (snd (try_send (control_frame EncodingFormat.Json None (Some [1, 2, 3]))
        \<lparr> ch_queue = [], ch_capacity = 4, ch_open = True, ch_in_flight_bytes = 0 \<rparr>))))
    = (Inl (FanoutError.Backpressured c 100), snd (writer_step WriteOk True (snd (try_send (control_frame EncodingFormat.Json None (Some [1, 2, 3]))
        \<lparr> ch_queue = [], ch_capacity = 4, ch_open = True, ch_in_flight_bytes = 0 \<rparr>))))"
proof -
  let ?ch = "\<lparr> ch_queue = [], ch_capacity = 4, ch_open = True, ch_in_flight_bytes = 0 \<rparr>"
  let ?f = "control_frame EncodingFormat.Json None (Some [1, 2, 3])"
  let ?s = "\<lparr> ms_conn = 1, ms_max_bytes = 100, ms_codec = EncodingFormat.Json \<rparr>"
  obtain slot ch' where w: "writer_step WriteOk True (snd (try_send ?f ?ch)) = (slot, ch')" by (rule prod.exhaust)
  from reply_blocks_delivery [OF _ _ _ _ w, of "[1, 2]" ?s] w show ?thesis
    by (simp add: control_frame_def frame_payload_def)
qed

text \<open>C34. A connection gives back one publisher slot per topic: of \<open>n\<close> messages a connection published on a
  topic, teardown releases the slot of one, so \<open>n - 1\<close> slots stay taken after it is gone.\<close>

theorem publisher_slots_leak:
  assumes "profiles_default (nd_broker nd)" "cn_published_topics cl = []"
    and "publish_all libs ops fs cl nd = (cl1, nd1)" "teardown cl1 nd1 = (cl2, nd2)"
  shows "unat (publishers (nd_broker nd2) t) = unat (publishers (nd_broker nd) t) + (accepted_on libs ops t fs cl nd - 1)"
proof -
  have d: "distinct (cn_published_topics cl)" by (simp add: assms(2))
  note run = publish_all_publishers [OF assms(1) d assms(3)]
  have nz: "publishers (nd_broker nd1) x \<noteq> 0" if "x \<in> set (cn_published_topics cl1)" for x
  proof -
    have "0 < unat (publishers (nd_broker nd1) x)" using run [of x] that assms(2) by simp
    then show ?thesis by (metis less_irrefl unat_0)
  qed
  have td: "publishers (nd_broker nd2) t = publishers (nd_broker nd1) t - (if t \<in> set (cn_published_topics cl1) then 1 else 0)"
    using teardown_publishers [OF _ nz, of cl1 t] run [of t] assms(4) by simp
  show ?thesis
  proof (cases "t \<in> set (cn_published_topics cl1)")
    case True
    then have "unat (publishers (nd_broker nd2) t) = unat (publishers (nd_broker nd1) t) - 1"
      using td nz [OF True] unat_minus_one [of "publishers (nd_broker nd1) t"] by simp
    then show ?thesis using run [of t] True assms(2) by simp
  next
    case False
    then show ?thesis using run [of t] td assms(2) by simp
  qed
qed

theorem publisher_slots_leak_witness:
  "\<exists>cl1 nd1 cl2 nd2. publish_all \<lparr> lb_to_string = (\<lambda>_. []), lb_to_vec = (\<lambda>_. Inr []), lb_from_slice = (\<lambda>_. Inl []),
        lb_cbor_to = (\<lambda>_. Inr []), lb_cbor_from = (\<lambda>_. Inl []) \<rparr> memory_stores
      [(5, ''u'', demo_frame ''t'' ''a'' [1]), (6, ''v'', demo_frame ''t'' ''b'' [2])]
      \<lparr> cn_id = 1, cn_sink_id = 9, cn_session_id = ''s'', cn_codec = EncodingFormat.Json, cn_max_bytes = 100,
        cn_published_topics = [], cn_subscription_sinks = [], cn_slot = True \<rparr>
      \<lparr> nd_broker = InMemoryBroker_new demo_profile 60 100, nd_net = \<lparr> nt_channels = [], nt_sinks = [] \<rparr>,
        nd_acks = AckManager_new, nd_sessions = SessionStore_new, nd_metrics = Metrics_new \<rparr> = (cl1, nd1)
    \<and> teardown cl1 nd1 = (cl2, nd2) \<and> unat (publishers (nd_broker nd2) ''t'') = 1"
proof -
  let ?libs = "\<lparr> lb_to_string = (\<lambda>_. []), lb_to_vec = (\<lambda>_. Inr []), lb_from_slice = (\<lambda>_. Inl []),
        lb_cbor_to = (\<lambda>_. Inr []), lb_cbor_from = (\<lambda>_. Inl []) \<rparr>"
  let ?fs = "[(5, ''u'', demo_frame ''t'' ''a'' [1]), (6, ''v'', demo_frame ''t'' ''b'' [2])]"
  let ?cl = "\<lparr> cn_id = 1, cn_sink_id = 9, cn_session_id = ''s'', cn_codec = EncodingFormat.Json, cn_max_bytes = 100,
        cn_published_topics = [], cn_subscription_sinks = [], cn_slot = True \<rparr>"
  let ?nd = "\<lparr> nd_broker = InMemoryBroker_new demo_profile 60 100, nd_net = \<lparr> nt_channels = [], nt_sinks = [] \<rparr>,
        nd_acks = AckManager_new, nd_sessions = SessionStore_new, nd_metrics = Metrics_new \<rparr>"
  obtain cl1 nd1 where p: "publish_all ?libs memory_stores ?fs ?cl ?nd = (cl1, nd1)" by (rule prod.exhaust)
  obtain cl2 nd2 where t: "teardown cl1 nd1 = (cl2, nd2)" by (rule prod.exhaust)
  have n: "accepted_on ?libs memory_stores ''t'' ?fs ?cl ?nd = 2"
    by (simp add: data_accepted_def reader_data_def frame_expired_def demo_eval Frame_requires_ack_def
        FrameFlags_contains_def REQUIRES_ACK_def hm_or_insert_def MemoryDedupeStore_check_and_record_def
        MemoryOffsetStore_alloc_def split: prod.split)
  have "profiles_default (nd_broker ?nd)" "publishers (nd_broker ?nd) ''t'' = 0"
    by (simp_all add: profiles_default_def publishers_def InMemoryBroker_new_def InMemoryBroker_with_stores_def TopicStore_new_def)
  with publisher_slots_leak [OF _ _ p t, of "''t''"] n p t show ?thesis by auto
qed

text \<open>A subscription of any intent puts its acknowledgement into the channel and nothing else: no history, no
  snapshot; and the broker it leaves is the one a live subscription leaves.\<close>

lemma subscribe_no_history:
  assumes "InMemoryBroker_subscribe topic intent sink b = (r, b')"
  shows "InMemoryBroker_subscribe topic intent' sink b = (r, b')"
proof -
  have eq: "FanoutEngine_subscribe topic intent' sink = FanoutEngine_subscribe topic intent sink"
    by (simp add: fun_eq_iff FanoutEngine_subscribe_def)
  show ?thesis using assms unfolding InMemoryBroker_subscribe_def eq .
qed

lemma control_subscribe_channels:
  assumes "control_subscribe libs uuid frame v cl nd = (r, cl', nd')" "c \<noteq> cn_id cl"
  shows "hm_get (nt_channels (nd_net nd')) c = hm_get (nt_channels (nd_net nd)) c"
  using assms by (auto simp: control_subscribe_def out_send_def Let_def split: option.splits sum.splits prod.splits try_send_result.splits)

text \<open>C32. Any connection can end the subscription of another: an unsubscribe request is honoured for whatever
  subscription id it names, without regard to the connection that made the subscription, so the sink
  of that subscription is no longer among those a publish on its topic is delivered to.\<close>

theorem foreign_unsubscribe:
  assumes "lb_from_slice libs (control_body frame) = Inr v"
    "Option.bind (json_get ''type'' v) json_as_str = Some ''unsubscribe''"
    "Option.bind (json_get ''subscription_id'' v) json_as_u64 = Some sid"
    and ok: "fanout_ok (b_fanout (nd_broker nd))" and sub: "subs (b_fanout (nd_broker nd)) sid = Some (t, k)"
    and h: "handle_control libs uuid frame cl nd = (r, cl', nd')"
  shows "subs (b_fanout (nd_broker nd')) = (subs (b_fanout (nd_broker nd)))(sid := None) \<and>
    topic_subs (b_fanout (nd_broker nd')) t = filter (\<lambda>s. fst s \<noteq> sid) (topic_subs (b_fanout (nd_broker nd)) t) \<and>
    (sid, k) \<in> set (topic_subs (b_fanout (nd_broker nd)) t) \<and> cl' = cl"
proof -
  obtain r' f where u: "FanoutEngine_unsubscribe sid (b_fanout (nd_broker nd)) = (r', f)" by (rule prod.exhaust)
  note us = unsubscribe_subs [OF ok u]
  have r': "r' = Some t" using us(1) sub by simp
  then have "b_fanout (nd_broker nd') = f \<and> cl' = cl"
    using h assms(1-3) u
    by (auto simp: handle_control_def control_unsubscribe_def InMemoryBroker_unsubscribe_def Let_def split: prod.splits)
  moreover have "(sid, k) \<in> set (topic_subs (b_fanout (nd_broker nd)) t)" using fanout_okD(4) [OF ok] sub by auto
  ultimately show ?thesis using us(2,4) by simp
qed

definition other_libs :: Libs where
  "other_libs =
    \<lparr> lb_to_string = (\<lambda>_. []), lb_to_vec = (\<lambda>_. Inr []),
      lb_from_slice = (\<lambda>_. Inr (JObject [(''type'', JString ''unsubscribe''), (''subscription_id'', JNumber (PosInt 1))])),
      lb_cbor_to = (\<lambda>_. Inr []), lb_cbor_from = (\<lambda>_. Inl []) \<rparr>"

definition other_connection :: ConnLocal where
  "other_connection =
    \<lparr> cn_id = 2, cn_sink_id = 9, cn_session_id = ''s'', cn_codec = EncodingFormat.Json, cn_max_bytes = 100,
      cn_published_topics = [], cn_subscription_sinks = [], cn_slot = True \<rparr>"

definition subscribed_node :: "(MemoryOffsetStore, MemoryLogStore, MemoryDedupeStore, MemorySnapshotStore) Node" where
  "subscribed_node =
    \<lparr> nd_broker = snd (InMemoryBroker_subscribe ''t'' SubscribeIntent.Live 5 (InMemoryBroker_new demo_profile 60 100)),
      nd_net = \<lparr> nt_channels = [], nt_sinks = [] \<rparr>, nd_acks = AckManager_new, nd_sessions = SessionStore_new,
      nd_metrics = Metrics_new \<rparr>"

theorem foreign_unsubscribe_witness:
  "\<exists>r cl' nd'. handle_control other_libs [] Frame_control other_connection subscribed_node = (r, cl', nd') \<and>
    topic_subs (b_fanout (nd_broker subscribed_node)) ''t'' = [(1, 5)] \<and> cn_subscription_sinks other_connection = [] \<and>
    topic_subs (b_fanout (nd_broker nd')) ''t'' = []"
proof -
  obtain r cl' nd' where h: "handle_control other_libs [] Frame_control other_connection subscribed_node = (r, cl', nd')"
    by (rule prod_cases3)
  have f: "b_fanout (nd_broker subscribed_node) = snd (FanoutEngine_subscribe ''t'' SubscribeIntent.Live 5 FanoutEngine_new)"
    by (simp add: subscribed_node_def InMemoryBroker_subscribe_def try_inc_subscriber_eq demo_eval split: prod.split)
  obtain i fe where sub: "FanoutEngine_subscribe ''t'' SubscribeIntent.Live 5 FanoutEngine_new = (i, fe)" by (rule prod.exhaust)
  have ok: "fanout_ok (b_fanout (nd_broker subscribed_node))"
    using subscribe_ok [OF fanout_ok_new _ sub] unfolding f sub by (simp add: FanoutEngine_new_def)
  have s: "subs (b_fanout (nd_broker subscribed_node)) 1 = Some (''t'', 5)" "topic_subs (b_fanout (nd_broker subscribed_node)) ''t'' = [(1, 5)]"
    unfolding f by (simp_all add: FanoutEngine_subscribe_def FanoutEngine_new_def topic_subs_def hm_get_or_def Let_def)
  show ?thesis
    using h s foreign_unsubscribe [OF _ _ _ ok s(1) h]
    by (simp add: other_libs_def other_connection_def json_get_def json_as_u64_def)
qed



end
