(* ===== verification/Delivery_Order.thy ===== *)
theory Delivery_Order
  imports Connection_Properties Transports
begin

text \<open>
  From the outbound channel to the peer (\<open>rifts-broker/src/connection/writer.rs\<close> over
  \<open>rifts-transport/src/transport/websocket.rs\<close>): sinks and replies fill the channel, the writer sends its
  frames over the transport, and the peer reads them.
\<close>

section \<open>The writer on a transport\<close>

text \<open>How the write of a frame ends: without a timeout as the transport says, and with one whether or not the
  frame still went out.\<close>

datatype WriteClock = InTime | TimedOut bool

definition write_frame_outcome :: "'t Transport \<Rightarrow> WriteClock \<Rightarrow> bool \<Rightarrow> Frame \<Rightarrow> 't \<Rightarrow> WriteEvent \<times> 't" where
  "write_frame_outcome T clock slot frame t =
    (case clock of
       TimedOut sent \<Rightarrow> (WriteTimeout, if slot \<and> sent then snd (tr_write_frame T frame t) else t)
     | InTime \<Rightarrow>
         if \<not> slot then (WriteFailed transport_released, t)
         else (case tr_write_frame T frame t of
                 (Inr _, t') \<Rightarrow> (WriteOk, t')
               | (Inl e, t') \<Rightarrow> (WriteFailed e, t')))"

record 't Line =
  ln_slot :: bool
  ln_channel :: Channel
  ln_transport :: 't

datatype LineOp = LineDeliver bytes MpscSink | LineReply Frame | LineWrite WriteClock

definition line_write :: "'t Transport \<Rightarrow> WriteClock \<Rightarrow> 't Line \<Rightarrow> 't Line" where
  "line_write T clock ln =
    (case ch_queue (ln_channel ln) of
       [] \<Rightarrow> ln
     | frame # _ \<Rightarrow>
         (case write_frame_outcome T clock (ln_slot ln) frame (ln_transport ln) of
            (ev, t) \<Rightarrow>
              (case writer_step ev (ln_slot ln) (ln_channel ln) of
                 (slot, ch) \<Rightarrow> \<lparr> ln_slot = slot, ln_channel = ch, ln_transport = t \<rparr>)))"

text \<open>A step, with the frame it put into the channel.\<close>

fun line_apply :: "'t Transport \<Rightarrow> LineOp \<Rightarrow> 't Line \<Rightarrow> Frame list \<times> 't Line" where
  "line_apply T (LineDeliver b s) ln =
    (case MpscSink_deliver b s (ln_channel ln) of
       (r, ch) \<Rightarrow> (case r of Inr _ \<Rightarrow> [fanout_frame (ms_codec s) b] | Inl _ \<Rightarrow> [], ln\<lparr>ln_channel := ch\<rparr>))"
| "line_apply T (LineReply f) ln =
    (case try_send f (ln_channel ln) of
       (r, ch) \<Rightarrow> (if r = Sent then [f] else [], ln\<lparr>ln_channel := ch\<rparr>))"
| "line_apply T (LineWrite clock) ln = ([], line_write T clock ln)"

fun line_run :: "'t Transport \<Rightarrow> LineOp list \<Rightarrow> 't Line \<Rightarrow> Frame list \<times> 't Line" where
  "line_run T [] ln = ([], ln)"
| "line_run T (x # xs) ln =
    (case line_apply T x ln of
       (fs, ln') \<Rightarrow> (case line_run T xs ln' of (fs', ln'') \<Rightarrow> (fs @ fs', ln'')))"

section \<open>First in, first out\<close>

text \<open>\<open>acc\<close> was queued so far: a prefix of it is on the socket, and while the channel is open the rest is queued.\<close>

definition fifo_ok :: "Frame list \<Rightarrow> Ws Line \<Rightarrow> bool" where
  "fifo_ok acc ln \<longleftrightarrow> ws_open (ln_transport ln) \<and>
    (\<exists>sent. ws_out (ln_transport ln) = map (\<lambda>f. Binary (wire f)) sent \<and>
       (if ch_open (ln_channel ln) then ln_slot ln \<and> acc = sent @ ch_queue (ln_channel ln)
        else prefix sent acc \<and> ch_queue (ln_channel ln) = []))"

lemma deliver_open: "MpscSink_deliver b s ch = (Inr u, ch') \<Longrightarrow>
    ch_open ch \<and> ch_open ch' \<and> ch_queue ch' = ch_queue ch @ [fanout_frame (ms_codec s) b]"
  by (auto simp: MpscSink_deliver_def sink_next_def try_send_def Let_def split: if_splits)

lemma deliver_refused: "MpscSink_deliver b s ch = (Inl e, ch') \<Longrightarrow> ch' = ch"
  using deliver_cases [of b s ch "Inl e" ch'] by simp

lemma websocket_writes:
  "ws_open ws \<Longrightarrow> tr_write_frame (websocket_transport jf jt) f ws = (Inr (), ws\<lparr>ws_out := ws_out ws @ [Binary (wire f)]\<rparr>)"
  by (simp add: websocket_transport_def WebSocketConnection_write_frame_def ws_send_def encode_wire)

lemma fifo_ok_write:
  assumes ok: "fifo_ok acc ln"
  shows "fifo_ok acc (line_write (websocket_transport jf jt) clock ln)"
proof (cases "ch_queue (ln_channel ln)")
  case Nil
  then show ?thesis using ok by (simp add: line_write_def)
next
  case (Cons f rest)
  then have st: "ch_open (ln_channel ln)" "ln_slot ln" "ws_open (ln_transport ln)"
    using ok by (auto simp: fifo_ok_def split: if_splits)
  obtain sent where sent: "ws_out (ln_transport ln) = map (\<lambda>f. Binary (wire f)) sent" "acc = sent @ f # rest"
    using ok st(1) Cons by (auto simp: fifo_ok_def)
  have "ws_out ws = map (\<lambda>f. Binary (wire f)) (sent @ [f])" if "ws_out ws = ws_out (ln_transport ln) @ [Binary (wire f)]" for ws
    using that sent(1) by simp
  moreover have "prefix sent acc" "prefix (sent @ [f]) acc" using sent(2) by simp_all
  ultimately show ?thesis
    using sent st Cons
    by (cases clock) (auto simp: fifo_ok_def line_write_def write_frame_outcome_def websocket_writes writer_step_def writer_exit_def Let_def
        intro: exI [of _ sent] exI [of _ "sent @ [f]"])
qed

lemma fifo_ok_apply:
  assumes ok: "fifo_ok acc ln" and a: "line_apply (websocket_transport jf jt) x ln = (fs, ln')"
  shows "fifo_ok (acc @ fs) ln'"
proof (cases x)
  case (LineDeliver b s)
  obtain r ch where d: "MpscSink_deliver b s (ln_channel ln) = (r, ch)" by (rule prod.exhaust)
  show ?thesis
  proof (cases r)
    case (Inl e)
    then have "ch = ln_channel ln" using d deliver_refused [of b s "ln_channel ln" e ch] by simp
    then show ?thesis using ok a LineDeliver d Inl by auto
  next
    case (Inr u)
    then show ?thesis using ok a LineDeliver d deliver_open [of b s "ln_channel ln" u ch] by (auto simp: fifo_ok_def)
  qed
next
  case (LineReply f)
  then show ?thesis using ok a by (auto simp: fifo_ok_def try_send_def split: if_splits)
next
  case (LineWrite clock)
  then show ?thesis using a fifo_ok_write [OF ok] by auto
qed

lemma fifo_ok_run: "fifo_ok acc ln \<Longrightarrow> line_run (websocket_transport jf jt) xs ln = (fs, ln') \<Longrightarrow> fifo_ok (acc @ fs) ln'"
proof (induction xs arbitrary: acc ln fs ln')
  case (Cons x xs)
  obtain fs1 ln1 where a: "line_apply (websocket_transport jf jt) x ln = (fs1, ln1)" by (rule prod.exhaust)
  obtain fs2 ln2 where r: "line_run (websocket_transport jf jt) xs ln1 = (fs2, ln2)" by (rule prod.exhaust)
  have "fifo_ok ((acc @ fs1) @ fs2) ln2" using Cons.IH [OF fifo_ok_apply [OF Cons.prems(1) a] r] .
  then show ?case using Cons.prems(2) a r by simp
qed simp

section \<open>The peer\<close>

text \<open>The results of the peer's first \<open>n\<close> reads.\<close>

primrec ws_reads :: "json_from_slice \<Rightarrow> json_to_vec \<Rightarrow> nat \<Rightarrow> (string + WsMessage) list \<Rightarrow> Frame rift_result list" where
  "ws_reads jf jt 0 items = []"
| "ws_reads jf jt (Suc n) items = (case ws_next_frame jf jt items of (r, items') \<Rightarrow> r # ws_reads jf jt n items')"

definition sendable :: "Frame \<Rightarrow> bool" where
  "sendable f \<longleftrightarrow> i64_ok (fr_timestamp f) \<and> payload_len f < 2 ^ 32 \<and> payload_len f \<le> DEFAULT_MAX_BINARY_PAYLOAD"

lemma peer_reads: "\<forall>f \<in> set fs. sendable f \<Longrightarrow>
    ws_reads jf jt (length fs) (map (\<lambda>f. Inr (Binary (wire f))) fs) = map (\<lambda>f. Inr (wire_image f)) fs"
  by (induction fs) (simp_all add: sendable_def decode_wire)

section \<open>Properties\<close>

text \<open>C6. A connection is first in, first out: whatever deliveries, replies and writes happen on its channel, timeouts
  included, what the peer reads is what was put into the channel, in that order and from the first frame on;
  while the channel is open the frames not yet read are exactly those still queued.\<close>

theorem peer_reads_in_order:
  assumes fresh: "ch_queue ch = []" "ch_open ch" "ws_out ws = []" "ws_open ws"
    and run: "line_run (websocket_transport jf jt) xs \<lparr> ln_slot = True, ln_channel = ch, ln_transport = ws \<rparr> = (accepted, ln)"
    and ok: "\<forall>f \<in> set accepted. sendable f"
  shows "\<exists>n. n \<le> length accepted \<and>
    ws_reads jf' jt' n (map Inr (ws_out (ln_transport ln))) = map (\<lambda>f. Inr (wire_image f)) (take n accepted) \<and>
    length (ws_out (ln_transport ln)) = n \<and>
    (ch_open (ln_channel ln) \<longrightarrow> ch_queue (ln_channel ln) = drop n accepted)"
proof -
  have "fifo_ok [] \<lparr> ln_slot = True, ln_channel = ch, ln_transport = ws \<rparr>" using fresh by (simp add: fifo_ok_def)
  from fifo_ok_run [OF this run] obtain sent where out: "ws_out (ln_transport ln) = map (\<lambda>f. Binary (wire f)) sent"
    and sent: "prefix sent accepted" "ch_open (ln_channel ln) \<Longrightarrow> accepted = sent @ ch_queue (ln_channel ln)"
    by (auto simp: fifo_ok_def split: if_splits)
  then have t: "take (length sent) accepted = sent" "length sent \<le> length accepted" by (auto simp: prefix_def)
  then have "\<forall>f \<in> set sent. sendable f" using ok in_set_takeD by metis
  then have "ws_reads jf' jt' (length sent) (map Inr (ws_out (ln_transport ln))) = map (\<lambda>f. Inr (wire_image f)) sent"
    using peer_reads [of sent jf' jt'] by (simp add: out comp_def)
  moreover have "ch_open (ln_channel ln) \<longrightarrow> ch_queue (ln_channel ln) = drop (length sent) accepted" using sent(2) by force
  ultimately show ?thesis using t out by (intro exI [of _ "length sent"]) simp
qed

definition order_sink :: MpscSink where
  "order_sink = \<lparr> ms_conn = 1, ms_max_bytes = 100, ms_codec = EncodingFormat.Json \<rparr>"

definition order_run :: "LineOp list" where
  "order_run = [LineDeliver [1] order_sink, LineDeliver [2] order_sink, LineWrite InTime, LineDeliver [3] order_sink,
     LineWrite InTime, LineWrite (TimedOut True), LineDeliver [4] order_sink]"

theorem peer_reads_in_order_witness:
  "\<exists>n ln. n \<le> 3 \<and> snd (line_run (websocket_transport (\<lambda>_. Inl []) (\<lambda>_. Inl [])) order_run
      \<lparr> ln_slot = True, ln_channel = \<lparr> ch_queue = [], ch_capacity = 4, ch_open = True, ch_in_flight_bytes = 0 \<rparr>,
        ln_transport = \<lparr> ws_in = [], ws_out = [], ws_open = True \<rparr> \<rparr>) = ln \<and>
    ws_reads (\<lambda>_. Inl []) (\<lambda>_. Inl []) n (map Inr (ws_out (ln_transport ln))) =
      map (\<lambda>b. Inr (wire_image (fanout_frame EncodingFormat.Json b))) (take n [[1], [2], [3]])"
proof -
  let ?ch = "\<lparr> ch_queue = [], ch_capacity = 4, ch_open = True, ch_in_flight_bytes = 0 \<rparr>"
  let ?ws = "\<lparr> ws_in = [], ws_out = [], ws_open = True \<rparr>" and ?T = "websocket_transport (\<lambda>_. Inl []) (\<lambda>_. Inl [])"
  let ?ln = "\<lparr> ln_slot = True, ln_channel = ?ch, ln_transport = ?ws \<rparr>"
  obtain acc ln where run: "line_run ?T order_run ?ln = (acc, ln)" by (rule prod.exhaust)
  have acc: "acc = map (fanout_frame EncodingFormat.Json) [[1], [2], [3]]"
    using run by (simp add: order_run_def order_sink_def MpscSink_deliver_def sink_next_def try_send_def line_write_def
        write_frame_outcome_def websocket_writes writer_step_def writer_exit_def fanout_frame_def frame_payload_def Let_def)
  have "\<forall>f \<in> set acc. sendable f"
    by (simp add: acc sendable_def fanout_frame_def frame_defs payload_len_def i64_ok_def i64_min_def i64_max_def DEFAULT_MAX_BINARY_PAYLOAD_def)
  from peer_reads_in_order [OF _ _ _ _ run this, of "\<lambda>_. Inl []" "\<lambda>_. Inl []"] show ?thesis
    using run acc by (auto simp: take_map)
qed

end
