(* ===== verification/Client.thy ===== *)
theory Client
  imports Messages Ack_Manager Transports Json_Lib
begin

text \<open>
  The client (\<open>rifts-client/src\<close>): frame builders, heartbeat, subscription tracker, the
  handshake as the client sees it, dispatch of incoming frames to events, the public
  operations, and reconnection.  The connection's socket is a \<open>Ws\<close>; random ids, the clock and
  the results of \<open>connect_async\<close> are arguments, as are the derived deserialisers.
\<close>

section \<open>Frame builders\<close>

text \<open>\<open>FrameIdCounter::next\<close>.\<close>

definition FrameIdCounter_next :: "u64 \<Rightarrow> u64 \<times> u64" where
  "FrameIdCounter_next c = (c + 1, c + 1)"

definition json_frame :: "Libs \<Rightarrow> i64 \<Rightarrow> u64 \<Rightarrow> FrameType \<Rightarrow> json \<Rightarrow> Frame" where
  "json_frame libs now fid ft body =
    Frame_default\<lparr>fr_version := 0x0100, fr_frame_id := fid, fr_frame_type := ft, fr_flags := 0,
      fr_codec := EncodingFormat.Json, fr_timestamp := now, fr_payload := Some (to_vec_or_default libs body)\<rparr>"

definition client_control_frame :: "Libs \<Rightarrow> i64 \<Rightarrow> u64 \<Rightarrow> json \<Rightarrow> Frame" where
  "client_control_frame libs now fid payload = json_frame libs now fid FrameType.Control payload"

definition json_str_opt :: "string option \<Rightarrow> json" where
  "json_str_opt x = json_opt JString x"

definition json_u32_of :: "u32 \<Rightarrow> json" where
  "json_u32_of n = json_u64 (ucast n)"

definition hello_body ::
  "string \<Rightarrow> string \<Rightarrow> string option \<Rightarrow> u32 \<Rightarrow> EncodingFormat list \<Rightarrow> string \<Rightarrow> (string, i64) hmap \<Rightarrow> string list \<Rightarrow> json" where
  "hello_body pkg client_id session_id epoch codecs token last_offsets features =
    JObject
      [(''auth_modes'', JArray [JString ''bearer'']), (''client_id'', JString client_id),
       (''codecs'', JArray (map (\<lambda>c. JString (EncodingFormat_name c)) codecs)),
       (''epoch'', json_u32_of epoch), (''features'', JArray (map JString features)),
       (''last_offsets'', JObject (map (\<lambda>(t, n). (t, json_i64 n)) last_offsets)),
       (''protocol'', JString ''rift''),
       (''sdk'', JObject [(''name'', JString ''rifts-client''), (''version'', JString pkg)]),
       (''session_id'', json_str_opt session_id), (''token'', JString token),
       (''version'', json_u64 0x0100)]"

definition hello_frame ::
  "Libs \<Rightarrow> i64 \<Rightarrow> string \<Rightarrow> u64 \<Rightarrow> string \<Rightarrow> string option \<Rightarrow> u32 \<Rightarrow> EncodingFormat list \<Rightarrow> string
    \<Rightarrow> (string, i64) hmap \<Rightarrow> string list \<Rightarrow> Frame" where
  "hello_frame libs now pkg fid client_id session_id epoch codecs token last_offsets features =
    client_control_frame libs now fid (hello_body pkg client_id session_id epoch codecs token last_offsets features)"

definition data_frame ::
  "Libs \<Rightarrow> i64 \<Rightarrow> u64 \<Rightarrow> string \<Rightarrow> string option \<Rightarrow> string option \<Rightarrow> string option \<Rightarrow> json \<Rightarrow> Frame" where
  "data_frame libs now fid topic event message_id correlation_id body =
    (json_frame libs now fid FrameType.Data body)\<lparr>fr_topic := Some topic, fr_event := event,
      fr_message_id := message_id, fr_correlation_id := correlation_id\<rparr>"

definition event_frame ::
  "Libs \<Rightarrow> i64 \<Rightarrow> u64 \<Rightarrow> string \<Rightarrow> string \<Rightarrow> string \<Rightarrow> string \<Rightarrow> json \<Rightarrow> string option \<Rightarrow> string option
    \<Rightarrow> u32 option \<Rightarrow> Priority option \<Rightarrow> Frame" where
  "event_frame libs now fid topic event message_id schema payload dedupe_key ordering_key ttl_ms priority =
    (data_frame libs now fid topic (Some event) (Some message_id) None (JObject
      [(''class'', JString ''event''), (''dedupe_key'', json_str_opt dedupe_key), (''event'', JString event),
       (''message_id'', JString message_id), (''ordering_key'', json_str_opt ordering_key), (''payload'', payload),
       (''schema'', JString schema), (''ttl_ms'', json_opt json_u32_of ttl_ms)]))
    \<lparr>fr_priority := priority, fr_ttl_ms := ttl_ms\<rparr>"

definition command_frame ::
  "Libs \<Rightarrow> i64 \<Rightarrow> u64 \<Rightarrow> string \<Rightarrow> string \<Rightarrow> string \<Rightarrow> u64 \<Rightarrow> string \<Rightarrow> json \<Rightarrow> string option
    \<Rightarrow> Priority option \<Rightarrow> Frame" where
  "command_frame libs now fid topic command correlation_id timeout_ms schema payload idempotency_key priority =
    (data_frame libs now fid topic None None (Some correlation_id) (JObject
      [(''class'', JString ''command''), (''command'', JString command), (''correlation_id'', JString correlation_id),
       (''idempotency_key'', json_str_opt idempotency_key), (''payload'', payload), (''schema'', JString schema),
       (''timeout_ms'', json_u64 timeout_ms)]))\<lparr>fr_priority := priority\<rparr>"

text \<open>\<open>state_frame\<close> and \<open>ping_frame\<close> read the clock twice, first for the body.\<close>

definition state_frame ::
  "Libs \<Rightarrow> i64 \<Rightarrow> i64 \<Rightarrow> u64 \<Rightarrow> string \<Rightarrow> string \<Rightarrow> json \<Rightarrow> string option \<Rightarrow> u32 option \<Rightarrow> string option \<Rightarrow> Frame" where
  "state_frame libs body_now now fid topic state_key value name ttl_ms subject =
    data_frame libs now fid topic None None None (JObject
      [(''class'', JString ''state''), (''name'', json_str_opt name), (''state_key'', JString state_key),
       (''subject'', json_str_opt subject), (''ttl_ms'', json_opt json_u32_of ttl_ms),
       (''updated_at'', json_i64 body_now), (''value'', value)])"

definition datagram_frame :: "Libs \<Rightarrow> i64 \<Rightarrow> u64 \<Rightarrow> string \<Rightarrow> string \<Rightarrow> string option \<Rightarrow> json \<Rightarrow> Frame" where
  "datagram_frame libs now fid topic schema event payload =
    data_frame libs now fid topic None None None (JObject
      [(''class'', JString ''datagram''), (''event'', json_str_opt event), (''payload'', payload),
       (''schema'', JString schema)])"

definition stream_frame ::
  "Libs \<Rightarrow> i64 \<Rightarrow> u64 \<Rightarrow> string \<Rightarrow> string \<Rightarrow> u64 \<Rightarrow> string \<Rightarrow> json \<Rightarrow> bool \<Rightarrow> Frame" where
  "stream_frame libs now fid topic stream_id seq schema payload final_segment =
    data_frame libs now fid topic None None None (JObject
      [(''class'', JString ''stream''), (''final_segment'', JBool final_segment), (''payload'', payload),
       (''schema'', JString schema), (''seq'', json_u64 seq), (''stream_id'', JString stream_id)])"

definition subscribe_body :: "string \<Rightarrow> string \<Rightarrow> i64 option \<Rightarrow> json" where
  "subscribe_body topic mode from_offset = JObject
    [(''filter'', JNull), (''from_offset'', json_opt json_i64 from_offset), (''mode'', JString mode),
     (''topic'', JString topic), (''type'', JString ''subscribe'')]"

definition subscribe_frame :: "Libs \<Rightarrow> i64 \<Rightarrow> u64 \<Rightarrow> string \<Rightarrow> string \<Rightarrow> i64 option \<Rightarrow> Frame" where
  "subscribe_frame libs now fid topic mode from_offset =
    client_control_frame libs now fid (subscribe_body topic mode from_offset)"

definition unsubscribe_body :: "string \<Rightarrow> json" where
  "unsubscribe_body topic = JObject [(''topic'', JString topic), (''type'', JString ''unsubscribe'')]"

definition unsubscribe_frame :: "Libs \<Rightarrow> i64 \<Rightarrow> u64 \<Rightarrow> string \<Rightarrow> Frame" where
  "unsubscribe_frame libs now fid topic = client_control_frame libs now fid (unsubscribe_body topic)"

definition ack_frame :: "Libs \<Rightarrow> i64 \<Rightarrow> u64 \<Rightarrow> string \<Rightarrow> string \<Rightarrow> Frame" where
  "ack_frame libs now fid message_id status =
    json_frame libs now fid FrameType.Ack (JObject [(''message_id'', JString message_id), (''status'', JString status)])"

definition ping_frame :: "Libs \<Rightarrow> i64 \<Rightarrow> i64 \<Rightarrow> u64 \<Rightarrow> Frame" where
  "ping_frame libs body_now now fid =
    json_frame libs now fid FrameType.Flow (JObject [(''timestamp'', json_i64 body_now), (''type'', JString ''ping'')])"

primrec mode_str :: "SubscribeIntent \<Rightarrow> string" where
  "mode_str SubscribeIntent.Live = ''live''"
| "mode_str (SubscribeIntent.Replay n) = ''replay''"
| "mode_str SubscribeIntent.SnapshotThenLive = ''snapshot_then_live''"
| "mode_str SubscribeIntent.Latest = ''latest''"
| "mode_str SubscribeIntent.Passive = ''passive''"
| "mode_str SubscribeIntent.Ephemeral = ''ephemeral''"

section \<open>Heartbeat\<close>

type_synonym HeartbeatState = u32

definition HeartbeatState_new :: HeartbeatState where "HeartbeatState_new = 0"

definition HeartbeatState_reset_missed :: "HeartbeatState \<Rightarrow> HeartbeatState" where
  "HeartbeatState_reset_missed s = 0"

text \<open>\<open>heartbeat_loop\<close> between its awaits and its accesses to the shared counter, so that the
  reader's \<open>reset_missed\<close> can come in between: before the ping, waiting for the pong, having
  seen a non-zero counter, having incremented it; and the two ways it ends.\<close>

datatype HbPhase = Pinging u32 | Awaiting_pong | Missed | Counted | Stopped | Timed_out

record Heartbeat =
  hb_phase :: HbPhase
  hb_missed :: HeartbeatState
  hb_ws :: Ws
  hb_frame_ids :: u64

definition heartbeat_wait :: "nat \<Rightarrow> u32 \<Rightarrow> nat \<Rightarrow> nat" where
  "heartbeat_wait ping_interval jitter_ms rnd =
    ping_interval + (if 0 < jitter_ms then rnd mod (unat jitter_ms + 1) else 0)"

definition heartbeat_ping :: "Libs \<Rightarrow> i64 \<Rightarrow> i64 \<Rightarrow> u32 \<Rightarrow> Heartbeat \<Rightarrow> Heartbeat" where
  "heartbeat_ping libs body_now now failures h =
    (let (fid, ids) = FrameIdCounter_next (hb_frame_ids h); h = h\<lparr>hb_frame_ids := ids\<rparr>
     in case encode_frame (ping_frame libs body_now now fid) of
          Inl e \<Rightarrow> h\<lparr>hb_phase := (if 3 \<le> failures + 1 then Stopped else Pinging (failures + 1))\<rparr>
        | Inr encoded \<Rightarrow>
            (case ws_send (Binary encoded) (hb_ws h) of
               (Inl e, ws) \<Rightarrow> h\<lparr>hb_ws := ws, hb_phase := Stopped\<rparr>
             | (Inr _, ws) \<Rightarrow> h\<lparr>hb_ws := ws, hb_phase := Awaiting_pong\<rparr>))"

text \<open>\<open>1011\<close> is the code of tungstenite's \<open>CloseCode::Error\<close>.\<close>

definition heartbeat_step :: "Libs \<Rightarrow> u32 \<Rightarrow> i64 \<Rightarrow> i64 \<Rightarrow> Heartbeat \<Rightarrow> Heartbeat" where
  "heartbeat_step libs max_missed body_now now h =
    (case hb_phase h of
       Pinging failures \<Rightarrow> heartbeat_ping libs body_now now failures h
     | Awaiting_pong \<Rightarrow> h\<lparr>hb_phase := (if hb_missed h = 0 then Pinging 0 else Missed)\<rparr>
     | Missed \<Rightarrow> h\<lparr>hb_missed := hb_missed h + 1, hb_phase := Counted\<rparr>
     | Counted \<Rightarrow>
         if max_missed \<le> hb_missed h
         then h\<lparr>hb_ws := snd (ws_send (Close (Some (1011, ''heartbeat timeout''))) (hb_ws h)), hb_phase := Timed_out\<rparr>
         else h\<lparr>hb_phase := Pinging 0\<rparr>
     | Stopped \<Rightarrow> h
     | Timed_out \<Rightarrow> h)"

section \<open>The subscription tracker\<close>

type_synonym SubscriptionTracker = "(string, SubscribeIntent) hmap"

definition SubscriptionTracker_add :: "string \<Rightarrow> SubscribeIntent \<Rightarrow> SubscriptionTracker \<Rightarrow> SubscriptionTracker" where
  "SubscriptionTracker_add topic mode t = hm_put topic mode t"

definition SubscriptionTracker_remove :: "string \<Rightarrow> SubscriptionTracker \<Rightarrow> bool \<times> SubscriptionTracker" where
  "SubscriptionTracker_remove topic t = (hm_get t topic \<noteq> None, hm_del topic t)"

definition SubscriptionTracker_get :: "string \<Rightarrow> SubscriptionTracker \<Rightarrow> SubscribeIntent option" where
  "SubscriptionTracker_get topic t = hm_get t topic"

definition SubscriptionTracker_len :: "SubscriptionTracker \<Rightarrow> nat" where
  "SubscriptionTracker_len t = length t"

definition SubscriptionTracker_new :: SubscriptionTracker where "SubscriptionTracker_new = []"

section \<open>Configuration, errors, events\<close>

record RiftClientConfig =
  cc_client_id :: string
  cc_token :: string
  cc_session_id :: "string option"
  cc_epoch :: u32
  cc_codecs :: "EncodingFormat list"
  cc_features :: "string list"
  cc_last_offsets :: "(string, i64) hmap"
  cc_auto_reconnect :: bool
  cc_reconnect_delay :: nat
  cc_max_reconnect_attempts :: u32

definition RiftClientConfig_default :: RiftClientConfig where
  "RiftClientConfig_default =
    \<lparr> cc_client_id = '''', cc_token = '''', cc_session_id = None, cc_epoch = 1,
      cc_codecs = [EncodingFormat.Cbor, EncodingFormat.Json], cc_features = [''resume''], cc_last_offsets = [],
      cc_auto_reconnect = True, cc_reconnect_delay = 1000, cc_max_reconnect_attempts = 10 \<rparr>"

datatype ClientError =
    NotConnected
  | AlreadyConnected
  | WebSocket string
  | Protocol RiftError
  | Handshake string
  | HeartbeatTimeout u32
  | MaxReconnect u32
  | CommandTimeout u64
  | Serialization string
  | Other string

type_synonym 'a client_result = "ClientError + 'a"

datatype ClientEvent =
    Connected string u32
  | Disconnected u16 string
  | EventReceived string Event
  | ReplyReceived Reply
  | StateReceived string State
  | DatagramReceived string Datagram
  | StreamReceived string StreamSegment
  | SnapshotReceived string Snapshot
  | System string json
  | AckReceived string AckStatus
  | Pong i64
  | Error string
  | Reconnecting u32

text \<open>The derived deserialisers the dispatcher calls (\<open>serde_json::from_value\<close>).\<close>

record ClientSerde =
  cs_event :: "json \<Rightarrow> string + Event"
  cs_reply :: "json \<Rightarrow> string + Reply"
  cs_state :: "json \<Rightarrow> string + State"
  cs_datagram :: "json \<Rightarrow> string + Datagram"
  cs_stream :: "json \<Rightarrow> string + StreamSegment"
  cs_snapshot :: "json \<Rightarrow> string + Snapshot"

section \<open>The connection\<close>

text \<open>\<open>ci_replies\<close>: what was sent through the one-shot channels of \<open>pending_replies\<close>;
  \<open>ci_disconnected\<close>: the reader has notified.\<close>

record ConnectionInner =
  ci_ws :: Ws
  ci_session_id :: string
  ci_epoch :: u32
  ci_ready :: Ready
  ci_pending_replies :: "string list"
  ci_replies :: "(string \<times> Reply) list"
  ci_disconnected :: bool
  ci_missed :: HeartbeatState

definition get_str :: "json \<Rightarrow> string \<Rightarrow> string option" where
  "get_str obj k = Option.bind (json_get k obj) json_as_str"

definition get_u32 :: "json \<Rightarrow> string \<Rightarrow> u64 \<Rightarrow> u32" where
  "get_u32 obj k d = ucast (unwrap_or d (Option.bind (json_get k obj) json_as_u64))"

definition get_i64 :: "json \<Rightarrow> string \<Rightarrow> i64" where
  "get_i64 obj k = unwrap_or 0 (Option.bind (json_get k obj) json_as_i64)"

definition parse_welcome :: "json \<Rightarrow> Welcome" where
  "parse_welcome obj =
    \<lparr> w_session_id = unwrap_or '''' (get_str obj ''session_id''), w_epoch = get_u32 obj ''epoch'' 0,
      w_negotiated_codec =
        (if get_str obj ''negotiated_codec'' \<in> {Some ''cbor'', Some ''Cbor''} then EncodingFormat.Cbor
         else EncodingFormat.Json),
      w_negotiated_compression = get_str obj ''negotiated_compression'',
      w_server_time = get_i64 obj ''server_time'', w_resume_window_ms = get_u32 obj ''resume_window_ms'' 0,
      w_features = (case json_get ''features'' obj of
          Some (JArray arr) \<Rightarrow> List.map_filter json_as_str arr | _ \<Rightarrow> []) \<rparr>"

definition parse_ready :: "json \<Rightarrow> Ready" where
  "parse_ready obj =
    \<lparr> r_session_id = unwrap_or '''' (get_str obj ''session_id''), r_epoch = get_u32 obj ''epoch'' 0,
      r_ping_interval_ms = get_u32 obj ''ping_interval_ms'' 25000,
      r_pong_timeout_ms = get_u32 obj ''pong_timeout_ms'' 10000,
      r_max_missed_pongs = get_u32 obj ''max_missed_pongs'' 2,
      r_idle_timeout_ms = get_u32 obj ''idle_timeout_ms'' 300000,
      r_jitter_ms = get_u32 obj ''jitter_ms'' 2500,
      r_max_payload_bytes = get_u32 obj ''max_payload_bytes'' 65536,
      r_max_topics_per_connection = get_u32 obj ''max_topics_per_connection'' 128,
      r_max_send_queue_bytes = get_u32 obj ''max_send_queue_bytes'' 1048576,
      r_server_time = get_i64 obj ''server_time'' \<rparr>"

definition parse_handshake ::
  "json \<Rightarrow> Welcome option \<times> Ready option \<Rightarrow> Welcome option \<times> Ready option" where
  "parse_handshake obj wr =
    (if get_str obj ''type'' = Some ''welcome'' then (Some (parse_welcome obj), snd wr)
     else if get_str obj ''type'' = Some ''ready'' then (fst wr, Some (parse_ready obj))
     else wr)"

text \<open>One message of \<open>await_handshake\<close>.\<close>

definition handshake_message ::
  "Libs \<Rightarrow> WsMessage \<Rightarrow> Welcome option \<times> Ready option \<Rightarrow> (Welcome option \<times> Ready option) client_result" where
  "handshake_message libs m wr =
    (let parse = (\<lambda>bs. case lb_from_slice libs bs of
           Inl e \<Rightarrow> Inl (ClientError.Serialization e) | Inr obj \<Rightarrow> Inr (parse_handshake obj wr))
     in case m of
          Binary bin \<Rightarrow>
            (case decode_binary_frame bin DEFAULT_MAX_BINARY_PAYLOAD of
               Inl e \<Rightarrow> Inl (ClientError.Protocol e)
             | Inr frame \<Rightarrow>
                 if fr_frame_type frame \<noteq> FrameType.Control then Inr wr
                 else case fr_payload frame of Some payload \<Rightarrow> parse payload | None \<Rightarrow> Inr wr)
        | Text text \<Rightarrow> parse (as_bytes text)
        | _ \<Rightarrow> Inr wr)"

fun await_handshake ::
  "Libs \<Rightarrow> (string + WsMessage) list \<Rightarrow> Welcome option \<times> Ready option
    \<Rightarrow> (Welcome \<times> Ready) client_result \<times> (string + WsMessage) list" where
  "await_handshake libs [] wr = (Inl (ClientError.Handshake ''connection closed before Ready''), [])"
| "await_handshake libs (Inl e # items) wr = (Inl (ClientError.Other (''read error: '' @ e)), items)"
| "await_handshake libs (Inr m # items) wr =
    (case handshake_message libs m wr of
       Inl e \<Rightarrow> (Inl e, items)
     | Inr (Some w, Some r) \<Rightarrow> (Inr (w, r), items)
     | Inr wr' \<Rightarrow> await_handshake libs items wr')"

section \<open>Dispatch\<close>

definition ack_status_of :: "string \<Rightarrow> AckStatus" where
  "ack_status_of s =
    (if s = ''received'' then AckStatus.Received else if s = ''accepted'' then AckStatus.Accepted
     else if s = ''persisted'' then AckStatus.Persisted else if s = ''delivered'' then AckStatus.Delivered
     else if s = ''processed'' then AckStatus.Processed else if s = ''rejected'' then AckStatus.Rejected
     else if s = ''expired'' then AckStatus.Expired else if s = ''duplicate'' then AckStatus.Duplicate
     else if s = ''failed'' then AckStatus.Failed else AckStatus.Received)"

text \<open>\<open>reset_missed\<close> and the pong event.\<close>

definition on_pong :: "json \<Rightarrow> ConnectionInner \<Rightarrow> ClientEvent list \<times> ConnectionInner" where
  "on_pong obj ci =
    ([ClientEvent.Pong (get_i64 obj ''timestamp'')], ci\<lparr>ci_missed := HeartbeatState_reset_missed (ci_missed ci)\<rparr>)"

definition dispatch_reply :: "Reply \<Rightarrow> ConnectionInner \<Rightarrow> ClientEvent list \<times> ConnectionInner" where
  "dispatch_reply reply ci =
    ([ClientEvent.ReplyReceived reply],
     if rp_correlation_id reply \<in> set (ci_pending_replies ci)
     then ci\<lparr>ci_pending_replies := removeAll (rp_correlation_id reply) (ci_pending_replies ci),
             ci_replies := ci_replies ci @ [(rp_correlation_id reply, reply)]\<rparr>
     else ci)"

definition emit_ok :: "('a \<Rightarrow> ClientEvent) \<Rightarrow> string + 'a \<Rightarrow> ClientEvent list" where
  "emit_ok f r = (case r of Inr x \<Rightarrow> [f x] | Inl _ \<Rightarrow> [])"

definition dispatch_body ::
  "ClientSerde \<Rightarrow> string option \<Rightarrow> json \<Rightarrow> ConnectionInner \<Rightarrow> ClientEvent list \<times> ConnectionInner" where
  "dispatch_body sd frame_topic obj ci =
    (let topic = unwrap_or '''' (case frame_topic of Some t \<Rightarrow> Some t | None \<Rightarrow> get_str obj ''topic'');
         cls = get_str obj ''class''
     in if cls = Some ''event'' then (emit_ok (ClientEvent.EventReceived topic) (cs_event sd obj), ci)
        else if cls = Some ''reply''
        then (case cs_reply sd obj of Inr reply \<Rightarrow> dispatch_reply reply ci | Inl _ \<Rightarrow> ([], ci))
        else if cls = Some ''state'' then (emit_ok (ClientEvent.StateReceived topic) (cs_state sd obj), ci)
        else if cls = Some ''datagram'' then (emit_ok (ClientEvent.DatagramReceived topic) (cs_datagram sd obj), ci)
        else if cls = Some ''stream'' then (emit_ok (ClientEvent.StreamReceived topic) (cs_stream sd obj), ci)
        else if cls = Some ''snapshot'' then (emit_ok (ClientEvent.SnapshotReceived topic) (cs_snapshot sd obj), ci)
        else if cls = Some ''system''
        then ([ClientEvent.System (unwrap_or '''' (get_str obj ''event'')) (unwrap_or JNull (json_get ''payload'' obj))], ci)
        else ([], ci))"

definition dispatch_frame ::
  "Libs \<Rightarrow> ClientSerde \<Rightarrow> Frame \<Rightarrow> ConnectionInner \<Rightarrow> ClientEvent list \<times> ConnectionInner" where
  "dispatch_frame libs sd frame ci =
    (let body = Option.bind (fr_payload frame)
           (\<lambda>p. case lb_from_slice libs p of Inr obj \<Rightarrow> Some obj | Inl _ \<Rightarrow> None)
     in case fr_frame_type frame of
          FrameType.Flow \<Rightarrow>
            (case body of
               Some obj \<Rightarrow> if get_str obj ''type'' = Some ''pong'' then on_pong obj ci else ([], ci)
             | None \<Rightarrow> ([], ci))
        | FrameType.Ack \<Rightarrow>
            (case body of
               Some obj \<Rightarrow> ([ClientEvent.AckReceived (unwrap_or '''' (get_str obj ''message_id''))
                              (ack_status_of (unwrap_or ''received'' (get_str obj ''status'')))], ci)
             | None \<Rightarrow> ([], ci))
        | FrameType.Data \<Rightarrow>
            (case body of Some obj \<Rightarrow> dispatch_body sd (fr_topic frame) obj ci | None \<Rightarrow> ([], ci))
        | FrameType.Control \<Rightarrow>
            (case body of Some obj \<Rightarrow> dispatch_body sd (fr_topic frame) obj ci | None \<Rightarrow> ([], ci))
        | FrameType.Error \<Rightarrow> ([ClientEvent.Error (Frame_to_string frame)], ci))"

definition dispatch_text_envelope ::
  "Libs \<Rightarrow> ClientSerde \<Rightarrow> json \<Rightarrow> ConnectionInner \<Rightarrow> ClientEvent list \<times> ConnectionInner" where
  "dispatch_text_envelope libs sd obj ci =
    (let msg_type = get_str obj ''type''
     in if msg_type = Some ''pong'' then on_pong obj ci
        else if msg_type \<in> {Some ''welcome'', Some ''ready'', Some ''subscribe_ack'', Some ''unsubscribe_ack''}
        then ([], ci)
        else case decode_text_frame (lb_from_slice libs) (lb_to_vec libs) (to_vec_or_default libs obj) of
               Inr frame \<Rightarrow> dispatch_frame libs sd frame ci
             | Inl _ \<Rightarrow> ([], ci))"

text \<open>One item of the reader task: whether the loop goes on, the events, the connection.\<close>

definition client_reader_step ::
  "Libs \<Rightarrow> ClientSerde \<Rightarrow> string + WsMessage \<Rightarrow> ConnectionInner \<Rightarrow> bool \<times> ClientEvent list \<times> ConnectionInner" where
  "client_reader_step libs sd item ci =
    (case item of
       Inl e \<Rightarrow> (False, [ClientEvent.Error (''ws read: '' @ e)], ci)
     | Inr m \<Rightarrow>
         (case m of
            Binary bin \<Rightarrow>
              (case decode_binary_frame bin DEFAULT_MAX_BINARY_PAYLOAD of
                 Inr frame \<Rightarrow> (True, dispatch_frame libs sd frame ci)
               | Inl _ \<Rightarrow> (True, [], ci))
          | Text text \<Rightarrow>
              (case lb_from_slice libs (as_bytes text) of
                 Inr obj \<Rightarrow> (True, dispatch_text_envelope libs sd obj ci)
               | Inl _ \<Rightarrow>
                   (case decode_text_frame (lb_from_slice libs) (lb_to_vec libs) (as_bytes text) of
                      Inr frame \<Rightarrow> (True, dispatch_frame libs sd frame ci)
                    | Inl e \<Rightarrow> (True, [ClientEvent.Error (''text decode: '' @ RiftError_to_string e)], ci)))
          | Close _ \<Rightarrow> (False, [], ci)
          | _ \<Rightarrow> (True, [], ci)))"

fun client_reader_task ::
  "Libs \<Rightarrow> ClientSerde \<Rightarrow> (string + WsMessage) list \<Rightarrow> ConnectionInner \<Rightarrow> ClientEvent list \<times> ConnectionInner" where
  "client_reader_task libs sd [] ci = ([], ci\<lparr>ci_disconnected := True\<rparr>)"
| "client_reader_task libs sd (item # items) ci =
    (case client_reader_step libs sd item ci of
       (False, evs, ci') \<Rightarrow> (evs, ci'\<lparr>ci_disconnected := True\<rparr>)
     | (True, evs, ci') \<Rightarrow>
         (case client_reader_task libs sd items ci' of (evs', ci'') \<Rightarrow> (evs @ evs', ci'')))"

section \<open>The client\<close>

record RiftClient =
  rc_config :: RiftClientConfig
  rc_inner :: "ConnectionInner option"
  rc_events :: "ClientEvent list"
  rc_subscriptions :: SubscriptionTracker
  rc_closed :: bool
  rc_frame_ids :: u64

definition RiftClient_new :: "RiftClientConfig \<Rightarrow> RiftClient" where
  "RiftClient_new config =
    \<lparr> rc_config = config, rc_inner = None, rc_events = [], rc_subscriptions = SubscriptionTracker_new,
      rc_closed = False, rc_frame_ids = 0 \<rparr>"

definition emit :: "ClientEvent list \<Rightarrow> RiftClient \<Rightarrow> RiftClient" where
  "emit evs c = c\<lparr>rc_events := rc_events c @ evs\<rparr>"

definition next_id :: "RiftClient \<Rightarrow> u64 \<times> RiftClient" where
  "next_id c = (case FrameIdCounter_next (rc_frame_ids c) of (n, ids) \<Rightarrow> (n, c\<lparr>rc_frame_ids := ids\<rparr>))"

text \<open>A binary message through a socket; tungstenite's error is kept as text.\<close>

definition send_binary :: "Frame \<Rightarrow> Ws \<Rightarrow> unit client_result \<times> Ws" where
  "send_binary frame ws =
    (case encode_frame frame of
       Inl e \<Rightarrow> (Inl (ClientError.Protocol e), ws)
     | Inr bs \<Rightarrow>
         (case ws_send (Binary bs) ws of
            (Inl e, ws') \<Rightarrow> (Inl (ClientError.WebSocket (RiftError_to_string e)), ws')
          | (Inr _, ws') \<Rightarrow> (Inr (), ws')))"

text \<open>The subscribe frames sent again for the tracked topics.\<close>

definition resubscribe :: "Libs \<Rightarrow> i64 \<Rightarrow> RiftClient \<Rightarrow> Frame list \<times> RiftClient" where
  "resubscribe libs now c =
    foldl (\<lambda>(frames, c) (topic, mode).
        case next_id c of (n, c') \<Rightarrow> (frames @ [subscribe_frame libs now n topic (mode_str mode) None], c'))
      ([], c) (rc_subscriptions c)"

definition client_hello :: "Libs \<Rightarrow> i64 \<Rightarrow> string \<Rightarrow> u64 \<Rightarrow> RiftClientConfig \<Rightarrow> Frame" where
  "client_hello libs now pkg n cfg =
    hello_frame libs now pkg n (cc_client_id cfg) (cc_session_id cfg) (cc_epoch cfg) (cc_codecs cfg) (cc_token cfg)
      (cc_last_offsets cfg) (cc_features cfg)"

text \<open>\<open>connect\<close>; \<open>dial\<close> is the outcome of \<open>connect_async\<close>, a socket with what the peer will send.\<close>

definition connect ::
  "Libs \<Rightarrow> i64 \<Rightarrow> string \<Rightarrow> string + Ws \<Rightarrow> RiftClient \<Rightarrow> ConnectionInner client_result \<times> RiftClient" where
  "connect libs now pkg dial c =
    (case dial of
       Inl e \<Rightarrow> (Inl (ClientError.Other (''WebSocket connect failed: '' @ e)), c)
     | Inr ws \<Rightarrow>
    (case next_id c of (n, c) \<Rightarrow>
    (case send_binary (client_hello libs now pkg n (rc_config c)) ws of
       (Inl e, _) \<Rightarrow> (Inl e, c)
     | (Inr _, ws) \<Rightarrow>
    (case await_handshake libs (ws_in ws) (None, None) of
       (Inl e, _) \<Rightarrow> (Inl e, c)
     | (Inr (welcome, ready), items) \<Rightarrow>
         let c = c\<lparr>rc_config := (rc_config c)\<lparr>cc_session_id := Some (w_session_id welcome), cc_epoch := r_epoch ready\<rparr>\<rparr>
         in case resubscribe libs now c of (frames, c) \<Rightarrow>
              let ws = foldl (\<lambda>ws f. snd (send_binary f ws)) (ws\<lparr>ws_in := items\<rparr>) frames;
                  inner = \<lparr> ci_ws = ws, ci_session_id = w_session_id welcome, ci_epoch = r_epoch ready, ci_ready = ready,
                            ci_pending_replies = [], ci_replies = [], ci_disconnected = False,
                            ci_missed = HeartbeatState_new \<rparr>
              in (Inr inner, emit [ClientEvent.Connected (ci_session_id inner) (ci_epoch inner)] c)))))"

definition RiftClient_connect ::
  "Libs \<Rightarrow> i64 \<Rightarrow> string \<Rightarrow> string + Ws \<Rightarrow> RiftClient \<Rightarrow> unit client_result \<times> RiftClient" where
  "RiftClient_connect libs now pkg dial c =
    (case rc_inner c of
       Some _ \<Rightarrow> (Inl ClientError.AlreadyConnected, c)
     | None \<Rightarrow>
         (case connect libs now pkg dial (c\<lparr>rc_closed := False\<rparr>) of
            (Inl e, c') \<Rightarrow> (Inl e, c')
          | (Inr inner, c') \<Rightarrow> (Inr (), c'\<lparr>rc_inner := Some inner\<rparr>)))"

text \<open>\<open>close\<close>: the socket, with the close message, of the connection given up.\<close>

definition RiftClient_close :: "RiftClient \<Rightarrow> Ws option \<times> RiftClient" where
  "RiftClient_close c =
    (map_option (\<lambda>ci. snd (ws_send (Close None) (ci_ws ci))) (rc_inner c), c\<lparr>rc_closed := True, rc_inner := None\<rparr>)"

definition RiftClient_is_connected :: "RiftClient \<Rightarrow> bool" where
  "RiftClient_is_connected c \<longleftrightarrow> rc_inner c \<noteq> None"

definition RiftClient_session_id :: "RiftClient \<Rightarrow> string option" where
  "RiftClient_session_id c = map_option ci_session_id (rc_inner c)"

definition RiftClient_epoch :: "RiftClient \<Rightarrow> u32" where
  "RiftClient_epoch c = unwrap_or 1 (map_option ci_epoch (rc_inner c))"

definition require_connected :: "RiftClient \<Rightarrow> unit client_result" where
  "require_connected c = (if rc_inner c = None then Inl ClientError.NotConnected else Inr ())"

definition send_frame :: "Frame \<Rightarrow> RiftClient \<Rightarrow> unit client_result \<times> RiftClient" where
  "send_frame frame c =
    (case rc_inner c of
       None \<Rightarrow> (Inl ClientError.NotConnected, c)
     | Some ci \<Rightarrow>
         (case send_binary frame (ci_ws ci) of
            (r, ws) \<Rightarrow> (r, c\<lparr>rc_inner := Some (ci\<lparr>ci_ws := ws\<rparr>)\<rparr>)))"

text \<open>The operations with a frame to send: the connection is required, the frame takes the next id.\<close>

definition send_built :: "(u64 \<Rightarrow> Frame) \<Rightarrow> (RiftClient \<Rightarrow> RiftClient) \<Rightarrow> RiftClient \<Rightarrow> unit client_result \<times> RiftClient" where
  "send_built build prepare c =
    (case require_connected c of
       Inl e \<Rightarrow> (Inl e, c)
     | Inr _ \<Rightarrow> (case next_id (prepare c) of (n, c') \<Rightarrow> send_frame (build n) c'))"

definition RiftClient_subscribe ::
  "Libs \<Rightarrow> i64 \<Rightarrow> string \<Rightarrow> SubscribeIntent \<Rightarrow> i64 option \<Rightarrow> RiftClient \<Rightarrow> unit client_result \<times> RiftClient" where
  "RiftClient_subscribe libs now topic mode from_offset =
    send_built (\<lambda>n. subscribe_frame libs now n topic (mode_str mode) from_offset)
      (rc_subscriptions_update (SubscriptionTracker_add topic mode))"

definition RiftClient_unsubscribe :: "Libs \<Rightarrow> i64 \<Rightarrow> string \<Rightarrow> RiftClient \<Rightarrow> unit client_result \<times> RiftClient" where
  "RiftClient_unsubscribe libs now topic =
    send_built (\<lambda>n. unsubscribe_frame libs now n topic)
      (rc_subscriptions_update (\<lambda>t. snd (SubscriptionTracker_remove topic t)))"

record PublishOpts =
  pb_dedupe_key :: "string option"
  pb_ordering_key :: "string option"
  pb_ttl_ms :: "u32 option"
  pb_priority :: "Priority option"

definition PublishOpts_default :: PublishOpts where
  "PublishOpts_default = \<lparr> pb_dedupe_key = None, pb_ordering_key = None, pb_ttl_ms = None, pb_priority = None \<rparr>"

definition RiftClient_publish ::
  "Libs \<Rightarrow> i64 \<Rightarrow> string \<Rightarrow> string \<Rightarrow> string \<Rightarrow> string \<Rightarrow> json \<Rightarrow> PublishOpts option \<Rightarrow> RiftClient
    \<Rightarrow> unit client_result \<times> RiftClient" where
  "RiftClient_publish libs now ulid topic event schema payload opts =
    (let o' = unwrap_or PublishOpts_default opts
     in send_built (\<lambda>n. event_frame libs now n topic event ulid schema payload (pb_dedupe_key o') (pb_ordering_key o')
          (pb_ttl_ms o') (pb_priority o')) (\<lambda>c. c))"

record StateOpts =
  so_name :: "string option"
  so_ttl_ms :: "u32 option"
  so_subject :: "string option"

definition RiftClient_publish_state ::
  "Libs \<Rightarrow> i64 \<Rightarrow> i64 \<Rightarrow> string \<Rightarrow> string \<Rightarrow> json \<Rightarrow> StateOpts option \<Rightarrow> RiftClient \<Rightarrow> unit client_result \<times> RiftClient" where
  "RiftClient_publish_state libs body_now now topic state_key value opts =
    (let o' = unwrap_or \<lparr> so_name = None, so_ttl_ms = None, so_subject = None \<rparr> opts
     in send_built (\<lambda>n. state_frame libs body_now now n topic state_key value (so_name o') (so_ttl_ms o') (so_subject o'))
          (\<lambda>c. c))"

definition RiftClient_send_datagram ::
  "Libs \<Rightarrow> i64 \<Rightarrow> string \<Rightarrow> string \<Rightarrow> json \<Rightarrow> string option \<Rightarrow> RiftClient \<Rightarrow> unit client_result \<times> RiftClient" where
  "RiftClient_send_datagram libs now topic schema payload event =
    send_built (\<lambda>n. datagram_frame libs now n topic schema event payload) (\<lambda>c. c)"

definition RiftClient_send_stream_segment ::
  "Libs \<Rightarrow> i64 \<Rightarrow> string \<Rightarrow> string \<Rightarrow> u64 \<Rightarrow> string \<Rightarrow> json \<Rightarrow> bool \<Rightarrow> RiftClient \<Rightarrow> unit client_result \<times> RiftClient" where
  "RiftClient_send_stream_segment libs now topic stream_id seq schema payload final_segment =
    send_built (\<lambda>n. stream_frame libs now n topic stream_id seq schema payload final_segment) (\<lambda>c. c)"

definition RiftClient_ack :: "Libs \<Rightarrow> i64 \<Rightarrow> string \<Rightarrow> AckStatus \<Rightarrow> RiftClient \<Rightarrow> unit client_result \<times> RiftClient" where
  "RiftClient_ack libs now message_id status =
    send_built (\<lambda>n. ack_frame libs now n message_id (AckStatus_as_str status)) (\<lambda>c. c)"

text \<open>\<open>command\<close> up to the wait for its reply: the correlation id waited for.\<close>

record CommandOpts =
  co_timeout_ms :: "u64 option"
  co_idempotency_key :: "string option"
  co_priority :: "Priority option"

definition forget_pending :: "string \<Rightarrow> RiftClient \<Rightarrow> RiftClient" where
  "forget_pending cid c =
    c\<lparr>rc_inner := map_option (\<lambda>ci. ci\<lparr>ci_pending_replies := removeAll cid (ci_pending_replies ci)\<rparr>) (rc_inner c)\<rparr>"

definition command_timeout :: "CommandOpts option \<Rightarrow> u64" where
  "command_timeout opts = unwrap_or 5000 (Option.bind opts co_timeout_ms)"

definition command_start ::
  "Libs \<Rightarrow> i64 \<Rightarrow> string \<Rightarrow> string \<Rightarrow> string \<Rightarrow> string \<Rightarrow> json \<Rightarrow> CommandOpts option \<Rightarrow> RiftClient
    \<Rightarrow> string client_result \<times> RiftClient" where
  "command_start libs now uuid topic cmd schema payload opts c =
    (case require_connected c of
       Inl e \<Rightarrow> (Inl e, c)
     | Inr _ \<Rightarrow>
    (case next_id c of (n, c) \<Rightarrow>
       let frame = command_frame libs now n topic cmd uuid (command_timeout opts) schema payload
             (Option.bind opts co_idempotency_key) (Option.bind opts co_priority)
       in case rc_inner c of
            None \<Rightarrow> (Inl ClientError.NotConnected, c)
          | Some ci \<Rightarrow>
              (case send_frame frame (c\<lparr>rc_inner := Some (ci\<lparr>ci_pending_replies := List.insert uuid (ci_pending_replies ci)\<rparr>)\<rparr>) of
                 (Inl e, c) \<Rightarrow> (Inl e, forget_pending uuid c)
               | (Inr _, c) \<Rightarrow> (Inr uuid, c))))"

text \<open>How the wait ends: a reply, the sender dropped, or the timeout.\<close>

datatype CommandWait = Replied Reply | Sender_dropped | Wait_timeout

definition command_finish :: "string \<Rightarrow> u64 \<Rightarrow> CommandWait \<Rightarrow> RiftClient \<Rightarrow> Reply client_result \<times> RiftClient" where
  "command_finish cid timeout_ms w c =
    (case w of
       Replied reply \<Rightarrow> (Inr reply, c)
     | Sender_dropped \<Rightarrow> (Inl ClientError.NotConnected, forget_pending cid c)
     | Wait_timeout \<Rightarrow> (Inl (ClientError.CommandTimeout timeout_ms), forget_pending cid c))"

section \<open>Reconnection\<close>

text \<open>Milliseconds before an attempt; the product is taken below the range of \<open>Duration\<close>.\<close>

definition reconnect_delay :: "nat \<Rightarrow> u32 \<Rightarrow> u64 \<Rightarrow> nat" where
  "reconnect_delay base attempt rnd = base * 2 ^ min (unat (attempt - 1)) 5 + unat rnd mod max base 1"

text \<open>What an attempt meets: whether the application closes the client before it or while it
  sleeps, the random number, the clock, and the outcome of the dial.\<close>

record Attempt =
  at_closed_before :: bool
  at_closed_asleep :: bool
  at_random :: u64
  at_now :: i64
  at_dial :: "string + Ws"

definition close_if :: "bool \<Rightarrow> RiftClient \<Rightarrow> RiftClient" where
  "close_if b c = (if b then snd (RiftClient_close c) else c)"

text \<open>\<open>left\<close> attempts remain, \<open>attempt\<close> is the number of the next.\<close>

primrec reconnect_loop :: "Libs \<Rightarrow> string \<Rightarrow> u32 \<Rightarrow> (u32 \<Rightarrow> Attempt) \<Rightarrow> nat \<Rightarrow> u32 \<Rightarrow> RiftClient \<Rightarrow> RiftClient" where
  "reconnect_loop libs pkg max_attempts env 0 attempt c =
    emit [ClientEvent.Error (''max reconnect attempts ('' @ dec (unat max_attempts) @ '') exceeded'')] c"
| "reconnect_loop libs pkg max_attempts env (Suc left) attempt c =
    (let a = env attempt; c = close_if (at_closed_before a) c
     in if rc_closed c then c
        else let c = close_if (at_closed_asleep a) (emit [ClientEvent.Reconnecting attempt] c)
             in if rc_closed c then c
                else let c = c\<lparr>rc_config := (rc_config c)\<lparr>cc_epoch := cc_epoch (rc_config c) + 1\<rparr>\<rparr>
                     in case connect libs (at_now a) pkg (at_dial a) c of
                          (Inr inner, c) \<Rightarrow>
                            emit [ClientEvent.Connected (ci_session_id inner) (ci_epoch inner)] (c\<lparr>rc_inner := Some inner\<rparr>)
                        | (Inl e, c) \<Rightarrow> reconnect_loop libs pkg max_attempts env left (attempt + 1) c)"

definition try_reconnect :: "Libs \<Rightarrow> string \<Rightarrow> (u32 \<Rightarrow> Attempt) \<Rightarrow> u32 \<Rightarrow> RiftClient \<Rightarrow> RiftClient" where
  "try_reconnect libs pkg env max_attempts c = reconnect_loop libs pkg max_attempts env (unat max_attempts) 1 c"

text \<open>The task \<open>connect\<close> spawns, once the reader has notified.\<close>

definition on_disconnect :: "Libs \<Rightarrow> string \<Rightarrow> (u32 \<Rightarrow> Attempt) \<Rightarrow> RiftClient \<Rightarrow> RiftClient" where
  "on_disconnect libs pkg env c =
    (let c = emit [ClientEvent.Disconnected 1006 ''connection lost''] c
     in if \<not> rc_closed c \<and> cc_auto_reconnect (rc_config c)
        then try_reconnect libs pkg env (cc_max_reconnect_attempts (rc_config c)) c else c)"

end
