(* ===== verification/Client_Server.thy ===== *)
theory Client_Server
  imports Server Client
begin

text \<open>
  The client and the server together: what the server reads in the client's frames and the
  client in the server's, after the binary encoding and the JSON library.
\<close>

section \<open>The hello, as the server reads it\<close>

lemma ucast_u32 [simp]: "(ucast (ucast (n :: u32) :: u64) :: u32) = n"
  by (simp add: ucast_down_ucast_id is_down)

lemma get_put_distinct:
  "distinct (map fst (m @ kvs)) \<Longrightarrow> foldl (\<lambda>m (k, v). hm_put k v m) m kvs = m @ kvs"
proof (induction kvs arbitrary: m)
  case (Cons kv kvs)
  obtain k v where kv: "kv = (k, v)" by (rule prod.exhaust)
  have "hm_put k v m = m @ [(k, v)]" using Cons.prems kv by (induction m) auto
  then show ?case using Cons.IH [of "m @ [(k, v)]"] Cons.prems kv by simp
qed simp

lemma read_offsets:
  assumes "\<forall>n \<in> snd ` set offs. i64_ok n"
  shows "foldl (\<lambda>m (k, v). case json_as_i64 v of Some n \<Rightarrow> hm_put k n m | None \<Rightarrow> m) m
      (map (\<lambda>(t, n). (t, json_i64 n)) offs) = foldl (\<lambda>m (k, v). hm_put k v m) m offs"
  using assms by (induction offs arbitrary: m) (auto split: prod.splits)

lemma hello_codecs_read: "List.map_filter hello_codec (map (\<lambda>c. JString (EncodingFormat_name c)) cs) = cs"
proof (induction cs)
  case (Cons c cs)
  then show ?case by (cases c) (simp_all add: List.map_filter_simps hello_codec_def)
qed (simp add: List.map_filter_simps)

definition client_hello_read :: "RiftClientConfig \<Rightarrow> Hello" where
  "client_hello_read cfg =
    \<lparr> h_protocol = ''rift'', h_version = 0x0100, h_client_id = Some (cc_client_id cfg),
      h_session_id = cc_session_id cfg, h_epoch = Some (cc_epoch cfg), h_codecs = cc_codecs cfg, h_compression = [],
      h_auth_modes = [AuthMode.Bearer], h_last_offsets = cc_last_offsets cfg, h_client_clock = None, h_sdk = None,
      h_features = [] \<rparr>"

definition client_hello_body :: "string \<Rightarrow> RiftClientConfig \<Rightarrow> json" where
  "client_hello_body pkg cfg = hello_body pkg (cc_client_id cfg) (cc_session_id cfg) (cc_epoch cfg) (cc_codecs cfg)
    (cc_token cfg) (cc_last_offsets cfg) (cc_features cfg)"

text \<open>The offsets of a configuration: a map of 64-bit integers.\<close>

definition offsets_ok :: "(string, i64) hmap \<Rightarrow> bool" where
  "offsets_ok offs \<longleftrightarrow> distinct (map fst offs) \<and> (\<forall>n \<in> snd ` set offs. i64_ok n)"

lemma decode_client_hello:
  assumes "reads_back libs (client_hello_body pkg cfg)" "offsets_ok (cc_last_offsets cfg)"
  shows "decode_hello_payload libs (Some (to_vec_or_default libs (client_hello_body pkg cfg)))
    = Inr (client_hello_read cfg, Some (cc_token cfg))"
proof -
  have offs: "foldl (\<lambda>m (k, v). case json_as_i64 v of Some n \<Rightarrow> hm_put k n m | None \<Rightarrow> m) []
      (map (\<lambda>(t, n). (t, json_i64 n)) (cc_last_offsets cfg)) = cc_last_offsets cfg"
    using assms(2) get_put_distinct [of "[]" "cc_last_offsets cfg"] by (simp add: offsets_ok_def read_offsets)
  have "obj_str [(''session_id'', json_str_opt (cc_session_id cfg))] ''session_id'' = cc_session_id cfg"
    by (cases "cc_session_id cfg") (simp_all add: obj_str_def json_str_opt_def json_opt_def json_as_str_def)
  then show ?thesis
    using offs reads_back_vec [OF assms(1)]
    by (simp add: decode_hello_payload_def client_hello_body_def hello_body_def hello_version_def obj_u64_def obj_str_def
        obj_array_def hello_offsets_def client_hello_read_def hello_codecs_read List.map_filter_simps hello_auth_mode_def
        json_u32_of_def)
qed

section \<open>Welcome and ready, as the client reads them\<close>

lemma json_get_u32 [simp]:
  "json_as_u64 (json_u32 n) = Some (ucast (word_of_nat n :: u32))"
  by (simp add: json_u32_def)

lemma features_read: "List.map_filter json_as_str (map JString xs) = xs"
  by (induction xs) (simp_all add: List.map_filter_simps)

lemma parse_welcome_body:
  assumes "i64_ok now"
  shows "parse_handshake (welcome_body now s fc None config) wr =
    (Some \<lparr> w_session_id = s_id s, w_epoch = s_epoch s, w_negotiated_codec = fc, w_negotiated_compression = None,
        w_server_time = now, w_resume_window_ms = word_of_nat (sc_replay_window config),
        w_features = ServerConfig_supported_features config \<rparr>, snd wr)"
  using assms
  by (cases fc)
     (simp_all add: parse_handshake_def welcome_body_def get_str_def get_u32_def get_i64_def json_get_def parse_welcome_def
       features_read)

definition ready_of :: "i64 \<Rightarrow> Session \<Rightarrow> ServerConfig \<Rightarrow> Ready" where
  "ready_of now s config =
    \<lparr> r_session_id = s_id s, r_epoch = s_epoch s,
      r_ping_interval_ms = word_of_nat (hp_ping_interval (sc_heartbeat config)),
      r_pong_timeout_ms = word_of_nat (hp_pong_timeout (sc_heartbeat config)),
      r_max_missed_pongs = hp_max_missed_pongs (sc_heartbeat config),
      r_idle_timeout_ms = word_of_nat (hp_idle_timeout (sc_heartbeat config)),
      r_jitter_ms = word_of_nat (hp_jitter (sc_heartbeat config)),
      r_max_payload_bytes = word_of_nat (unat (sc_max_payload_bytes config)),
      r_max_topics_per_connection = word_of_nat (unat (sc_max_topics_per_connection config)),
      r_max_send_queue_bytes = word_of_nat (unat (sc_max_send_queue_bytes config)), r_server_time = now \<rparr>"

lemma parse_ready_body:
  assumes "i64_ok now"
  shows "parse_handshake (ready_body now s config) wr = (fst wr, Some (ready_of now s config))"
  using assms
  by (simp add: parse_handshake_def ready_body_def get_str_def get_u32_def get_i64_def json_get_def parse_ready_def
      ready_of_def)

section \<open>The handshake\<close>

text \<open>The session a cold start opens, and its state at the end of the handshake.\<close>

definition cold_session :: "i64 \<Rightarrow> string \<Rightarrow> string \<Rightarrow> Session" where
  "cold_session now sid client_id = Session_set_state now SessionState.Ready (Session_new now sid client_id)"

lemma open_session_cold:
  assumes "h_session_id hello = None"
  shows "open_session ops now sid hello ctx nd
    = (Inr (sid, None), nd\<lparr>nd_sessions := snd (SessionStore_insert (Session_new now sid (ac_client_id ctx)) (nd_sessions nd))\<rparr>)"
  using assms by (simp add: open_session_def)

lemma SessionStore_get_put [simp]:
  "SessionStore_get (s_id s) (snd (SessionStore_insert s st)) = Some s"
  "SessionStore_get sid (SessionStore_update sid f st) = map_option f (SessionStore_get sid st)"
  by (simp_all add: SessionStore_get_def SessionStore_insert_def SessionStore_update_def Let_def update_conv'
      split: option.splits)

text \<open>On an open socket that yields the hello, the server writes the welcome and the ready frame.\<close>

lemma handshake_cold:
  assumes rd: "WebSocketConnection_read_frame (lb_from_slice libs) (lb_to_vec libs) ws = (Inr frame, ws')"
    and ok: "check_hello libs auth config a frame = Inr (hello, codec, ctx)"
    and cold: "h_session_id hello = None" and opn: "ws_open ws'"
    and hs: "handshake libs ops auth (websocket_transport (lb_from_slice libs) (lb_to_vec libs)) config now sid a ws nd
      = (r, ws'', nd')"
  shows "r = Inr (sid, pc_frame_codec codec)
    \<and> ws_out ws'' = ws_out ws' @ map (\<lambda>f. Binary (wire f))
      [build_welcome_frame libs now (cold_session now sid (ac_client_id ctx)) (pc_frame_codec codec) None config,
       build_ready_frame libs now (cold_session now sid (ac_client_id ctx)) config (pc_frame_codec codec)]
    \<and> SessionStore_get sid (nd_sessions nd')
      = Some (Session_set_state now SessionState.Active (cold_session now sid (ac_client_id ctx)))"
proof -
  let ?s = "Session_new now sid (ac_client_id ctx)"
  have get: "SessionStore_get sid (snd (SessionStore_insert ?s st)) = Some ?s" for st
    using SessionStore_get_put(1) [of ?s st] by (simp add: Session_new_def)
  show ?thesis
    using hs opn
    by (auto simp: handshake_def websocket_transport_def rd ok open_session_cold [OF cold] get cold_session_def
        WebSocketConnection_write_frame_def encode_wire ws_send_def count_resume_def Let_def)
qed

text \<open>The checks the client's hello passes.\<close>

lemma check_client_hello:
  assumes ty: "fr_frame_type frame = FrameType.Control"
    and pl: "fr_payload frame = Some (to_vec_or_default libs (client_hello_body pkg cfg))"
    and rb: "reads_back libs (client_hello_body pkg cfg)" and offs: "offsets_ok (cc_last_offsets cfg)"
    and neg: "negotiate (server_codecs libs config) (cc_codecs cfg) = Inr codec"
    and auth: "ap_authenticate auth (select_auth_mode (ap_supported_modes auth) [AuthMode.Bearer]) (Some (cc_token cfg)) a
      = Inr ctx"
    and tok: "length (cc_token cfg) \<le> 8192" and few: "length (cc_last_offsets cfg) \<le> 1024"
  shows "check_hello libs auth config a frame = Inr (client_hello_read cfg, codec, ctx)"
proof -
  have "cc_codecs cfg \<noteq> []" using neg by (auto simp: negotiate_def)
  then show ?thesis
    using neg auth tok few
    by (simp add: check_hello_def ty pl decode_client_hello [OF rb offs] client_hello_read_def PROTOCOL_NAME_def
        negotiate_major_def SUPPORTED_MAJOR_def)
qed

text \<open>The client's part: it reads the two frames and returns the connection.\<close>

lemma session_frame_sel [simp]:
  "fr_frame_type (session_frame libs now s fc body) = FrameType.Control"
  "fr_timestamp (session_frame libs now s fc body) = now"
  "fr_payload (session_frame libs now s fc body) = Some (lb_to_string libs body)"
  by (simp_all add: session_frame_def)

lemma handshake_message_frame:
  assumes "fr_frame_type f = FrameType.Control" "fr_payload f = Some p" "lb_from_slice libs p = Inr obj"
    "i64_ok (fr_timestamp f)" "length p \<le> DEFAULT_MAX_BINARY_PAYLOAD"
  shows "handshake_message libs (Binary (wire f)) wr = Inr (parse_handshake obj wr)"
proof -
  have "payload_len f = length p" by (simp add: payload_len_def assms(2))
  then have "decode_binary_frame (wire f) DEFAULT_MAX_BINARY_PAYLOAD = Inr (wire_image f)"
    using assms(4,5) by (intro decode_wire) (simp_all add: DEFAULT_MAX_BINARY_PAYLOAD_def)
  then show ?thesis using assms(1,2,3) by (simp add: handshake_message_def wire_image_def Frame_default_def)
qed

lemma resubscribe_keeps:
  assumes "resubscribe libs now c = (fs, c')"
  shows "\<exists>ids. c' = c\<lparr>rc_frame_ids := ids\<rparr>"
proof -
  have "\<exists>ids. snd (foldl (\<lambda>(frames, c) (topic, mode).
        case next_id c of (n, c') \<Rightarrow> (frames @ [subscribe_frame libs now n topic (mode_str mode) None], c'))
      (fs, c) subs) = c\<lparr>rc_frame_ids := ids\<rparr>" for fs c and subs :: SubscriptionTracker
  proof (induction subs arbitrary: fs c)
    case Nil
    show ?case by (rule exI [of _ "rc_frame_ids c"]) simp
  next
    case (Cons sub subs)
    obtain topic mode where sub: "sub = (topic, mode)" by (rule prod.exhaust)
    from Cons.IH [of "fs @ [subscribe_frame libs now (rc_frame_ids c + 1) topic (mode_str mode) None]"
        "c\<lparr>rc_frame_ids := rc_frame_ids c + 1\<rparr>"]
    show ?case by (simp add: sub next_id_def FrameIdCounter_next_def)
  qed
  from this [of "[]" c "rc_subscriptions c"] assms show ?thesis by (simp add: resubscribe_def)
qed

lemma sends_append: "\<exists>ms. ws_out (foldl (\<lambda>ws f. snd (send_binary f ws)) ws fs) = ws_out ws @ ms"
proof (induction fs arbitrary: ws)
  case (Cons f fs)
  have "\<exists>ms. ws_out (snd (send_binary f ws)) = ws_out ws @ ms"
    by (auto simp: send_binary_def encode_wire ws_send_def)
  then show ?case using Cons.IH [of "snd (send_binary f ws)"] by auto
qed simp

text \<open>A client on a socket that yields the two frames.\<close>

lemma connect_reads:
  assumes js: "\<forall>v \<in> {welcome_body snow s fc None config, ready_body snow s config}.
      reads_back libs v \<and> length (lb_to_string libs v) \<le> DEFAULT_MAX_BINARY_PAYLOAD"
    and now: "i64_ok snow"
    and c: "connect libs now pkg (Inr \<lparr> ws_in = map Inr (map (\<lambda>f. Binary (wire f))
        [build_welcome_frame libs snow s fc None config, build_ready_frame libs snow s config fc]),
        ws_out = [], ws_open = True \<rparr>) c = (r, c')"
  shows "\<exists>inner. r = Inr inner \<and> ci_session_id inner = s_id s \<and> ci_epoch inner = s_epoch s
    \<and> ci_ready inner = ready_of snow s config
    \<and> hd (ws_out (ci_ws inner)) = Binary (wire (client_hello libs now pkg (rc_frame_ids c + 1) (rc_config c)))
    \<and> rc_config c' = (rc_config c)\<lparr>cc_session_id := Some (s_id s), cc_epoch := s_epoch s\<rparr>
    \<and> rc_events c' = rc_events c @ [ClientEvent.Connected (s_id s) (s_epoch s)]"
proof -
  let ?w = "build_welcome_frame libs snow s fc None config" and ?r = "build_ready_frame libs snow s config fc"
  let ?hello = "client_hello libs now pkg (rc_frame_ids c + 1) (rc_config c)"
  have w: "handshake_message libs (Binary (wire ?w)) wr = Inr (parse_handshake (welcome_body snow s fc None config) wr)" for wr
    using js now by (intro handshake_message_frame) (auto simp: build_welcome_frame_def reads_back_def)
  have r: "handshake_message libs (Binary (wire ?r)) wr = Inr (parse_handshake (ready_body snow s config) wr)" for wr
    using js now by (intro handshake_message_frame) (auto simp: build_ready_frame_def reads_back_def)
  obtain W where aw: "await_handshake libs (map Inr (map (\<lambda>f. Binary (wire f)) [?w, ?r])) (None, None)
      = (Inr (W, ready_of snow s config), [])" and W: "w_session_id W = s_id s"
    using w r parse_welcome_body [OF now] parse_ready_body [OF now] by simp
  let ?c = "c\<lparr>rc_frame_ids := rc_frame_ids c + 1,
    rc_config := (rc_config c)\<lparr>cc_session_id := Some (s_id s), cc_epoch := s_epoch s\<rparr>\<rparr>"
  obtain fs c2 where rs: "resubscribe libs now ?c = (fs, c2)" by (rule prod.exhaust)
  obtain ids where c2: "c2 = ?c\<lparr>rc_frame_ids := ids\<rparr>" using resubscribe_keeps [OF rs] by blast
  obtain ms where ms: "ws_out (foldl (\<lambda>ws f. snd (send_binary f ws))
      \<lparr> ws_in = [], ws_out = [Binary (wire ?hello)], ws_open = True \<rparr> fs) = Binary (wire ?hello) # ms"
    using sends_append [of "\<lparr> ws_in = [], ws_out = [Binary (wire ?hello)], ws_open = True \<rparr>" fs] by auto
  have ep: "r_epoch (ready_of snow s config) = s_epoch s" by (simp add: ready_of_def)
  show ?thesis
    using c aw
    by (auto simp: connect_def next_id_def FrameIdCounter_next_def send_binary_def [of ?hello] encode_wire ws_send_def
        W ep rs c2 ms emit_def Let_def)
qed

end
