(* ===== verification/Client_Properties.thy ===== *)
theory Client_Properties
  imports Client_Server
begin

text \<open>
  Properties of the client, alone and against the server: the handshake, publishing,
  subscribing, receiving, the heartbeat and reconnection.
\<close>

section \<open>Frames through the socket\<close>

lemma next_frame_wire:
  assumes "i64_ok (fr_timestamp f)" "payload_len f \<le> DEFAULT_MAX_BINARY_PAYLOAD"
  shows "ws_next_frame jf jt (Inr (Binary (wire f)) # items) = (Inr (wire_image f), items)"
proof -
  have "payload_len f < 2 ^ 32" using assms(2) by (simp add: DEFAULT_MAX_BINARY_PAYLOAD_def)
  from decode_wire [OF assms(1) this assms(2)] show ?thesis by simp
qed

lemma wire_image_sel [simp]:
  "fr_frame_type (wire_image f) = fr_frame_type f" "fr_topic (wire_image f) = None" "fr_ttl_ms (wire_image f) = None"
  "fr_message_id (wire_image f) = None" "fr_flags (wire_image f) = fr_flags f"
  "fr_payload (wire_image f) = Some (unwrap_or [] (fr_payload f))" "fr_correlation_id (wire_image f) = None"
  by (simp_all add: wire_image_def Frame_default_def)

text \<open>A data frame without topic changes nothing at the broker.\<close>

lemma data_without_topic:
  assumes "fr_frame_type f = FrameType.Data" "fr_topic f = None" "fr_ttl_ms f = None" "fr_flags f = 0"
  shows "reader_dispatch libs ops i f cl nd = (cl, nd)"
  using assms
  by (simp add: reader_dispatch_def reader_data_def frame_expired_def InMemoryBroker_publish_def validate_publish_def
      Frame_requires_ack_def FrameFlags_contains_def REQUIRES_ACK_def)

lemma send_built_sent:
  assumes "rc_inner c = Some ci" "send_built build (\<lambda>c. c) c = (Inr (), c')"
  shows "\<exists>ci'. rc_inner c' = Some ci' \<and> ws_out (ci_ws ci') = ws_out (ci_ws ci) @ [Binary (wire (build (rc_frame_ids c + 1)))]"
  using assms
  by (auto simp: send_built_def require_connected_def next_id_def FrameIdCounter_next_def send_frame_def send_binary_def
      encode_wire ws_send_def split: if_splits)

lemma event_frame_sel [simp]:
  "fr_frame_type (event_frame libs now n t e m s p d k ttl pr) = FrameType.Data"
  "fr_flags (event_frame libs now n t e m s p d k ttl pr) = 0"
  "fr_timestamp (event_frame libs now n t e m s p d k ttl pr) = now"
  by (simp_all add: event_frame_def data_frame_def json_frame_def)

section \<open>The heartbeat\<close>

text \<open>The loop's steps interleaved with the pongs the reader sees.\<close>

inductive heartbeat_reach :: "Libs \<Rightarrow> u32 \<Rightarrow> Ws \<Rightarrow> u64 \<Rightarrow> Heartbeat \<Rightarrow> bool" for libs max_missed ws ids where
  start: "heartbeat_reach libs max_missed ws ids
    \<lparr> hb_phase = Pinging 0, hb_missed = HeartbeatState_new, hb_ws = ws, hb_frame_ids = ids \<rparr>"
| step: "heartbeat_reach libs max_missed ws ids h
    \<Longrightarrow> heartbeat_reach libs max_missed ws ids (heartbeat_step libs max_missed body_now now h)"
| pong: "heartbeat_reach libs max_missed ws ids h
    \<Longrightarrow> heartbeat_reach libs max_missed ws ids (h\<lparr>hb_missed := HeartbeatState_reset_missed (hb_missed h)\<rparr>)"

definition heartbeat_ok :: "Ws \<Rightarrow> Heartbeat \<Rightarrow> bool" where
  "heartbeat_ok ws h \<longleftrightarrow> hb_missed h = 0 \<and> hb_phase h \<notin> {Missed, Counted, Timed_out}
    \<and> (\<exists>ms. ws_out (hb_ws h) = ws_out ws @ map Binary ms)"

lemma heartbeat_step_ok: "heartbeat_ok ws h \<Longrightarrow> heartbeat_ok ws (heartbeat_step libs max_missed body_now now h)"
proof -
  assume ok: "heartbeat_ok ws h"
  then obtain ms where ms: "ws_out (hb_ws h) = ws_out ws @ map Binary ms" by (auto simp: heartbeat_ok_def)
  then have "\<exists>ms'. ws_out (hb_ws h) @ [Binary b] = ws_out ws @ map Binary ms'" for b
    by (intro exI [of _ "ms @ [b]"]) simp
  with ok show ?thesis
    by (cases "hb_phase h")
       (auto simp: heartbeat_ok_def heartbeat_step_def heartbeat_ping_def FrameIdCounter_next_def Let_def encode_wire ws_send_def)
qed

lemma heartbeat_reach_ok: "heartbeat_reach libs max_missed ws ids h \<Longrightarrow> heartbeat_ok ws h"
proof (induction rule: heartbeat_reach.induct)
  case start
  show ?case by (simp add: heartbeat_ok_def HeartbeatState_new_def)
next
  case (step h body_now now)
  then show ?case by (intro heartbeat_step_ok)
next
  case (pong h)
  then show ?case by (simp add: heartbeat_ok_def HeartbeatState_reset_missed_def)
qed

section \<open>Reconnection\<close>

lemma connect_failed_keeps:
  assumes "connect libs now pkg dial c = (Inl e, c')"
  shows "\<exists>ids. c' = c\<lparr>rc_frame_ids := ids\<rparr>"
proof -
  have same: "\<exists>ids. c = c\<lparr>rc_frame_ids := ids\<rparr>" for c :: RiftClient
    by (rule exI [of _ "rc_frame_ids c"]) simp
  show ?thesis
    using assms by (auto simp: connect_def next_id_def Let_def same split: sum.splits prod.splits)
qed

text \<open>The backoff doubles up to 32 times the base, with less than one base of jitter.\<close>

lemma reconnect_delay_bounds:
  "base * 2 ^ min (unat (attempt - 1)) 5 \<le> reconnect_delay base attempt rnd"
  "reconnect_delay base attempt rnd < base * 2 ^ min (unat (attempt - 1)) 5 + max base 1"
  "0 < base \<Longrightarrow> reconnect_delay base attempt rnd < 33 * base"
proof -
  have j: "unat rnd mod max base 1 < max base 1" by (intro mod_less_divisor) simp
  show "base * 2 ^ min (unat (attempt - 1)) 5 \<le> reconnect_delay base attempt rnd"
    "reconnect_delay base attempt rnd < base * 2 ^ min (unat (attempt - 1)) 5 + max base 1"
    using j by (simp_all add: reconnect_delay_def)
  have "(2::nat) ^ min (unat (attempt - 1)) 5 \<le> 2 ^ 5" by (intro power_increasing) simp_all
  then have "base * 2 ^ min (unat (attempt - 1)) 5 \<le> base * 32" by (intro mult_left_mono) simp_all
  moreover have "unat rnd mod max base 1 < base" if "0 < base" using j that by (simp add: max_def split: if_splits)
  ultimately show "reconnect_delay base attempt rnd < 33 * base" if "0 < base"
    using that unfolding reconnect_delay_def by linarith
qed

text \<open>Attempts that are not closed and fail.\<close>

definition attempts_fail :: "Libs \<Rightarrow> string \<Rightarrow> (u32 \<Rightarrow> Attempt) \<Rightarrow> bool" where
  "attempts_fail libs pkg env \<longleftrightarrow>
    (\<forall>k. \<not> at_closed_before (env k) \<and> \<not> at_closed_asleep (env k)
      \<and> (\<forall>c. \<exists>e c'. connect libs (at_now (env k)) pkg (at_dial (env k)) c = (Inl e, c')))"

lemma reconnect_loop_fails:
  assumes "attempts_fail libs pkg env"
  shows "\<not> rc_closed c \<Longrightarrow> \<exists>ids. reconnect_loop libs pkg m env left (word_of_nat k) c =
    c\<lparr>rc_frame_ids := ids, rc_config := (rc_config c)\<lparr>cc_epoch := cc_epoch (rc_config c) + word_of_nat left\<rparr>,
      rc_events := rc_events c @ map (\<lambda>k. ClientEvent.Reconnecting (word_of_nat k)) [k ..< k + left]
        @ [ClientEvent.Error (''max reconnect attempts ('' @ dec (unat m) @ '') exceeded'')]\<rparr>"
proof (induction left arbitrary: k c)
  case 0
  show ?case by (rule exI [of _ "rc_frame_ids c"]) (simp add: emit_def)
next
  case (Suc left)
  let ?a = "env (word_of_nat k)"
  let ?c = "(emit [ClientEvent.Reconnecting (word_of_nat k)] c)
    \<lparr>rc_config := (rc_config c)\<lparr>cc_epoch := cc_epoch (rc_config c) + 1\<rparr>\<rparr>"
  obtain e c' where co: "connect libs (at_now ?a) pkg (at_dial ?a) ?c = (Inl e, c')"
    using assms unfolding attempts_fail_def by meson
  obtain ids where c': "c' = ?c\<lparr>rc_frame_ids := ids\<rparr>" using connect_failed_keeps [OF co] by blast
  have step: "reconnect_loop libs pkg m env (Suc left) (word_of_nat k) c
      = reconnect_loop libs pkg m env left (word_of_nat (Suc k)) c'"
    using assms Suc.prems co
    by (simp add: attempts_fail_def close_if_def emit_def Let_def add.commute [of "word_of_nat k"])
  have "\<not> rc_closed c'" using Suc.prems by (simp add: c' emit_def)
  note IH = Suc.IH [OF this, of "Suc k"]
  have "[k ..< k + Suc left] = k # [Suc k ..< Suc k + left]" by (simp add: upt_rec)
  with IH show ?case unfolding step c' by (simp add: emit_def add.assoc del: upt_Suc)
qed

section \<open>Properties\<close>

text \<open>C11. The handshake agrees: a client without a session that dials a server which accepts its
  token and shares a codec gets a connection for the session the server has just opened;
  the server read the hello the client sent, both sides end with the same session id and
  epoch, the server's session is active, and the client holds the server's limits and
  heartbeat settings (durations and limits modulo 2^32).\<close>

theorem handshake_agrees:
  assumes cold: "cc_session_id (rc_config c) = None"
    and cfg: "offsets_ok (cc_last_offsets (rc_config c))" "length (cc_last_offsets (rc_config c)) \<le> 1024"
      "length (cc_token (rc_config c)) \<le> 8192"
    and neg: "negotiate (server_codecs libs config) (cc_codecs (rc_config c)) = Inr codec"
    and auth: "ap_authenticate auth (select_auth_mode (ap_supported_modes auth) [AuthMode.Bearer])
      (Some (cc_token (rc_config c))) a = Inr ctx"
    and clock: "i64_ok cnow" "i64_ok snow"
    and json: "\<forall>v \<in> {client_hello_body pkg (rc_config c),
        welcome_body snow (cold_session snow sid (ac_client_id ctx)) (pc_frame_codec codec) None config,
        ready_body snow (cold_session snow sid (ac_client_id ctx)) config}.
      reads_back libs v \<and> length (to_vec_or_default libs v) \<le> DEFAULT_MAX_BINARY_PAYLOAD
      \<and> length (lb_to_string libs v) \<le> DEFAULT_MAX_BINARY_PAYLOAD"
    and hello: "hello = Binary (wire (client_hello libs cnow pkg (rc_frame_ids c + 1) (rc_config c)))"
    and server: "handshake libs ops auth (websocket_transport (lb_from_slice libs) (lb_to_vec libs)) config snow sid a
      \<lparr> ws_in = [Inr hello], ws_out = [], ws_open = True \<rparr> nd = (sr, sws, nd')"
    and client: "connect libs cnow pkg (Inr \<lparr> ws_in = map Inr (ws_out sws), ws_out = [], ws_open = True \<rparr>) c = (cr, c')"
  shows "\<exists>inner s. sr = Inr (sid, pc_frame_codec codec) \<and> cr = Inr inner \<and> hd (ws_out (ci_ws inner)) = hello
    \<and> SessionStore_get sid (nd_sessions nd') = Some s \<and> s_state s = SessionState.Active \<and> s_id s = sid
    \<and> ci_session_id inner = sid \<and> ci_epoch inner = s_epoch s \<and> ci_ready inner = ready_of snow s config
    \<and> rc_config c' = (rc_config c)\<lparr>cc_session_id := Some sid, cc_epoch := s_epoch s\<rparr>
    \<and> rc_events c' = rc_events c @ [ClientEvent.Connected sid (s_epoch s)]"
proof -
  let ?f = "client_hello libs cnow pkg (rc_frame_ids c + 1) (rc_config c)"
  let ?s = "cold_session snow sid (ac_client_id ctx)" and ?T = "websocket_transport (lb_from_slice libs) (lb_to_vec libs)"
  let ?ws = "\<lparr> ws_in = [Inr (Binary (wire ?f))], ws_out = [], ws_open = True \<rparr>"
  have f: "fr_frame_type ?f = FrameType.Control" "fr_timestamp ?f = cnow"
    "fr_payload ?f = Some (to_vec_or_default libs (client_hello_body pkg (rc_config c)))"
    by (simp_all add: client_hello_def hello_frame_def client_control_frame_def json_frame_def client_hello_body_def)
  have rd: "WebSocketConnection_read_frame (lb_from_slice libs) (lb_to_vec libs) ?ws = (Inr (wire_image ?f), ?ws\<lparr>ws_in := []\<rparr>)"
    using next_frame_wire [of ?f "lb_from_slice libs" "lb_to_vec libs" "[]"] clock json
    by (simp add: WebSocketConnection_read_frame_def f payload_len_def)
  have chk: "check_hello libs auth config a (wire_image ?f) = Inr (client_hello_read (rc_config c), codec, ctx)"
    using json cfg neg auth by (intro check_client_hello [of _ libs pkg]) (simp_all add: f)
  have "h_session_id (client_hello_read (rc_config c)) = None" by (simp add: client_hello_read_def cold)
  note sv = handshake_cold [OF rd chk this _ server [unfolded hello]]
  have out: "ws_out sws = map (\<lambda>f. Binary (wire f)) [build_welcome_frame libs snow ?s (pc_frame_codec codec) None config,
      build_ready_frame libs snow ?s config (pc_frame_codec codec)]" using sv by simp
  have "\<exists>inner. cr = Inr inner \<and> ci_session_id inner = s_id ?s \<and> ci_epoch inner = s_epoch ?s
    \<and> ci_ready inner = ready_of snow ?s config \<and> hd (ws_out (ci_ws inner)) = Binary (wire ?f)
    \<and> rc_config c' = (rc_config c)\<lparr>cc_session_id := Some (s_id ?s), cc_epoch := s_epoch ?s\<rparr>
    \<and> rc_events c' = rc_events c @ [ClientEvent.Connected (s_id ?s) (s_epoch ?s)]"
    using json clock client [unfolded out] by (intro connect_reads [where fc = "pc_frame_codec codec"]) auto
  then show ?thesis
    using sv
    by (auto simp: hello cold_session_def Session_set_state_def Session_touch_def Session_new_def ready_of_def)
qed

definition agree_client :: RiftClient where
  "agree_client = RiftClient_new (RiftClientConfig_default\<lparr>cc_client_id := ''c'', cc_token := ''t''\<rparr>)"

abbreviation agree_session :: Session where "agree_session \<equiv> cold_session 10 ''s1'' ''anonymous''"

definition agree_welcome :: json where
  "agree_welcome = welcome_body 10 agree_session EncodingFormat.Cbor None ServerConfig_default"

definition agree_ready :: json where "agree_ready = ready_body 10 agree_session ServerConfig_default"

definition agree_hello :: json where "agree_hello = client_hello_body ''0.1'' (rc_config agree_client)"

definition agree_libs :: Libs where
  "agree_libs =
    (let enc = (\<lambda>v. if v = agree_welcome then [1] else if v = agree_ready then [2] else [3]);
         decode = (\<lambda>b. if b = [1] then Inr agree_welcome else if b = [2] then Inr agree_ready
           else if b = [3] then Inr agree_hello else Inl ''syntax'')
     in \<lparr> lb_to_string = enc, lb_to_vec = (\<lambda>v. Inr (enc v)), lb_from_slice = decode,
          lb_cbor_to = (\<lambda>v. Inr (enc v)), lb_cbor_from = decode \<rparr>)"

lemma agree_distinct: "agree_welcome \<noteq> agree_ready" "agree_hello \<noteq> agree_welcome" "agree_hello \<noteq> agree_ready"
  by (simp_all add: agree_welcome_def agree_ready_def agree_hello_def welcome_body_def ready_body_def client_hello_body_def
      hello_body_def)

lemma agree_reads: "v \<in> {agree_hello, agree_welcome, agree_ready} \<Longrightarrow>
    reads_back agree_libs v \<and> length (to_vec_or_default agree_libs v) \<le> DEFAULT_MAX_BINARY_PAYLOAD
    \<and> length (lb_to_string agree_libs v) \<le> DEFAULT_MAX_BINARY_PAYLOAD"
  using agree_distinct
  by (auto simp: reads_back_def to_vec_or_default_def agree_libs_def DEFAULT_MAX_BINARY_PAYLOAD_def Let_def)

abbreviation agree_handshake where
  "agree_handshake \<equiv> handshake agree_libs memory_stores AllowAllAuth_provider
    (websocket_transport (lb_from_slice agree_libs) (lb_to_vec agree_libs)) ServerConfig_default 10 ''s1'' ()
    \<lparr> ws_in = [Inr (Binary (wire (client_hello agree_libs 5 ''0.1'' (rc_frame_ids agree_client + 1)
        (rc_config agree_client))))], ws_out = [], ws_open = True \<rparr>
    (sv_node (RiftServerBuilder_build RiftServerBuilder_new))"

theorem handshake_agrees_witness:
  "\<exists>inner c'. connect agree_libs 5 ''0.1'' (Inr \<lparr> ws_in = map Inr (ws_out (fst (snd agree_handshake))), ws_out = [],
      ws_open = True \<rparr>) agree_client = (Inr inner, c') \<and> ci_session_id inner = ''s1''"
proof -
  obtain sr sws nd' where hs: "agree_handshake = (sr, sws, nd')" by (rule prod_cases3)
  obtain cr c' where co: "connect agree_libs 5 ''0.1'' (Inr \<lparr> ws_in = map Inr (ws_out sws), ws_out = [], ws_open = True \<rparr>)
      agree_client = (cr, c')" by (rule prod.exhaust)
  have neg: "negotiate (server_codecs agree_libs ServerConfig_default) (cc_codecs (rc_config agree_client))
      = Inr (CborCodec (lb_cbor_to agree_libs) (lb_cbor_from agree_libs))"
    by (simp add: negotiate_def server_codecs_def ServerConfig_default_def agree_client_def RiftClient_new_def
        RiftClientConfig_default_def JsonCodec_def CborCodec_def Let_def)
  have auth: "ap_authenticate AllowAllAuth_provider
      (select_auth_mode (ap_supported_modes AllowAllAuth_provider) [AuthMode.Bearer]) (Some (cc_token (rc_config agree_client))) ()
    = Inr \<lparr> ac_client_id = ''anonymous'', ac_claims = JObject [], ac_mode = AuthMode.Anonymous,
          ac_hints = AuthHints_default \<rparr>"
    by (simp add: AllowAllAuth_provider_def AllowAllAuth_authenticate_def)
  have "\<exists>inner s. sr = Inr (''s1'', EncodingFormat.Cbor) \<and> cr = Inr inner \<and> ci_session_id inner = ''s1''"
    using handshake_agrees [OF _ _ _ _ neg auth _ _ _ refl hs co] agree_reads
    by (auto simp: agree_client_def RiftClient_new_def RiftClientConfig_default_def offsets_ok_def i64_defs CborCodec_def
        agree_hello_def agree_welcome_def agree_ready_def)
  then show ?thesis using hs co by auto
qed


definition open_client :: RiftClient where
  "open_client = agree_client\<lparr>rc_inner := Some
    \<lparr> ci_ws = \<lparr> ws_in = [], ws_out = [], ws_open = True \<rparr>, ci_session_id = ''s1'', ci_epoch = 1,
      ci_ready = ready_of 10 agree_session ServerConfig_default, ci_pending_replies = [], ci_replies = [],
      ci_disconnected = False, ci_missed = 0 \<rparr>\<rparr>"

abbreviation agree_node where "agree_node \<equiv> sv_node (RiftServerBuilder_build RiftServerBuilder_new)"

abbreviation agree_conn :: ConnLocal where "agree_conn \<equiv> Connection_new 1 [] ServerConfig_default ''s1'' EncodingFormat.Cbor"

abbreviation agree_input :: ReadInput where
  "agree_input \<equiv> \<lparr> ri_event = ReadTimeout, ri_now = 11, ri_sink_uuid = [], ri_ack_uuid = ''u'' \<rparr>"


text \<open>C36. The heartbeat cannot detect a dead peer: however many pings go unanswered, and whatever
  pongs arrive in between, the missed-pong counter stays zero, the loop never reaches its
  timeout, and it sends only pings.\<close>

theorem heartbeat_never_times_out:
  assumes "heartbeat_reach libs max_missed ws ids h"
  shows "hb_missed h = 0 \<and> hb_phase h \<noteq> Timed_out \<and> (\<exists>pings. ws_out (hb_ws h) = ws_out ws @ map Binary pings)"
  using heartbeat_reach_ok [OF assms] by (simp add: heartbeat_ok_def)

theorem heartbeat_never_times_out_witness:
  "hb_phase (heartbeat_step agree_libs 2 0 0 (heartbeat_step agree_libs 2 0 0
    \<lparr> hb_phase = Pinging 0, hb_missed = HeartbeatState_new, hb_ws = \<lparr> ws_in = [], ws_out = [], ws_open = True \<rparr>,
      hb_frame_ids = 0 \<rparr>)) \<noteq> Timed_out"
  using heartbeat_never_times_out [OF heartbeat_reach.step [OF heartbeat_reach.step [OF heartbeat_reach.start
    [of agree_libs 2 "\<lparr> ws_in = [], ws_out = [], ws_open = True \<rparr>" 0], of 0 0], of 0 0]] by simp

text \<open>Reconnection is refused: a client that was connected keeps its session id and dials
  again with a higher epoch on every attempt; as the server compares epochs for equality,
  each attempt is answered with a conflict while the session is stored and with not found
  afterwards, and nothing changes at the server.\<close>

lemma reconnect_refused:
  assumes "cc_session_id cfg = Some sid" and "0 < k" "k < 2 ^ 32"
    and "\<forall>s. SessionStore_get sid (nd_sessions nd) = Some s \<longrightarrow> s_epoch s = cc_epoch cfg"
  shows "open_session ops now fresh (client_hello_read (cfg\<lparr>cc_epoch := cc_epoch cfg + word_of_nat k\<rparr>)) ctx nd =
    (Inl (RiftError.Session
      (if SessionStore_get sid (nd_sessions nd) = None then SessionReject.NotFound sid
       else SessionReject.Conflict (cc_epoch cfg + word_of_nat k) (cc_epoch cfg))), nd)"
proof -
  have "unat (word_of_nat k :: u32) = k" using assms(3) by (simp add: unat_of_nat)
  then have "(word_of_nat k :: u32) \<noteq> 0" using assms(2) by (metis unat_0 less_numeral_extra(3))
  then show ?thesis
    using assms(1,4)
    by (auto simp: open_session_def client_hello_read_def Let_def split: option.splits)
qed

lemma reconnect_refused_witness:
  "fst (open_session memory_stores 20 ''s2'' (client_hello_read (RiftClientConfig_default\<lparr>cc_session_id := Some ''s1'',
      cc_epoch := 1 + word_of_nat 1\<rparr>)) \<lparr> ac_client_id = ''c'', ac_claims = JNull, ac_mode = AuthMode.Bearer,
        ac_hints = AuthHints_default \<rparr>
      (agree_node\<lparr>nd_sessions := snd (SessionStore_insert (Session_new 10 ''s1'' ''c'') SessionStore_new)\<rparr>))
    = Inl (RiftError.Session (SessionReject.Conflict 2 1))"
  using reconnect_refused [of "RiftClientConfig_default\<lparr>cc_session_id := Some ''s1''\<rparr>" "''s1''" 1
      "agree_node\<lparr>nd_sessions := snd (SessionStore_insert (Session_new 10 ''s1'' ''c'') SessionStore_new)\<rparr>"]
  by (simp add: RiftClientConfig_default_def SessionStore_get_def SessionStore_insert_def SessionStore_new_def Session_new_def
      Let_def)

text \<open>The requests the server does not read as the client means them: the mode of a subscription
  is sent under another key, so every subscription is live; an unsubscribe names the topic
  where the server wants the subscription's id, and is refused.\<close>

lemma client_subscribe_live: "subscribe_intent (subscribe_body topic mode from_offset) = Inr SubscribeIntent.Live"
  by (simp add: subscribe_intent_def subscribe_body_def json_get_def Let_def)

lemma client_unsubscribe_refused:
  "control_unsubscribe libs frame (unsubscribe_body topic) cl nd
    = (Inl (RiftError.Frame (FrameReject.RequiredFieldMissing ''subscription_id'')), nd)"
  by (simp add: control_unsubscribe_def unsubscribe_body_def json_get_def)

text \<open>Deliveries are not events: the payload the broker fans out starts with an offset header
  that is no JSON, so the client, reading the frame of a delivery, emits nothing and keeps
  its state.\<close>

lemma client_ignores_deliveries:
  assumes "\<forall>rest. \<exists>e. lb_from_slice libs (as_bytes ''OFF:'' @ rest) = Inl e"
    and "length (serialize_frame_for_fanout f offset) \<le> DEFAULT_MAX_BINARY_PAYLOAD"
  shows "client_reader_step libs sd (Inr (Binary (wire (fanout_frame codec (serialize_frame_for_fanout f offset))))) ci
    = (True, [], ci)"
proof -
  let ?f = "fanout_frame codec (serialize_frame_for_fanout f offset)"
  have f: "fr_frame_type ?f = FrameType.Data" "fr_payload ?f = Some (serialize_frame_for_fanout f offset)"
    "i64_ok (fr_timestamp ?f)" by (simp_all add: fanout_frame_def frame_defs i64_defs)
  have "decode_binary_frame (wire ?f) DEFAULT_MAX_BINARY_PAYLOAD = Inr (wire_image ?f)"
    using assms(2) f by (intro decode_wire) (simp_all add: payload_len_def DEFAULT_MAX_BINARY_PAYLOAD_def)
  moreover obtain e where "lb_from_slice libs (serialize_frame_for_fanout f offset) = Inl e"
    using assms(1) by (auto simp: serialize_frame_for_fanout_def)
  ultimately show ?thesis by (simp add: client_reader_step_def dispatch_frame_def f)
qed

definition agree_serde :: ClientSerde where
  "agree_serde = \<lparr> cs_event = (\<lambda>_. Inl ''''), cs_reply = (\<lambda>_. Inl ''''), cs_state = (\<lambda>_. Inl ''''),
    cs_datagram = (\<lambda>_. Inl ''''), cs_stream = (\<lambda>_. Inl ''''), cs_snapshot = (\<lambda>_. Inl '''') \<rparr>"

lemma client_ignores_deliveries_witness:
  "client_reader_step agree_libs agree_serde (Inr (Binary (wire (fanout_frame EncodingFormat.Json
      (serialize_frame_for_fanout (Frame_data\<lparr>fr_payload := Some [104, 105]\<rparr>) 7))))) (the (rc_inner open_client))
    = (True, [], the (rc_inner open_client))"
  using client_ignores_deliveries [of agree_libs "Frame_data\<lparr>fr_payload := Some [104, 105]\<rparr>" 7]
  by (simp add: agree_libs_def Let_def as_bytes_def serialize_frame_for_fanout_def DEFAULT_MAX_BINARY_PAYLOAD_def)

text \<open>C30. Reconnection gives up: when every dial fails and nobody closes the client, the loop ends
  after exactly the configured number of attempts, announced in order from 1, followed by
  one error event; the client keeps its old connection and has its epoch advanced by the
  number of attempts.\<close>

theorem reconnect_exhausts:
  assumes "attempts_fail libs pkg env" and "\<not> rc_closed c"
  shows "\<exists>ids. try_reconnect libs pkg env m c =
    c\<lparr>rc_frame_ids := ids, rc_config := (rc_config c)\<lparr>cc_epoch := cc_epoch (rc_config c) + m\<rparr>,
      rc_events := rc_events c @ map (\<lambda>k. ClientEvent.Reconnecting (word_of_nat k)) [1 ..< Suc (unat m)]
        @ [ClientEvent.Error (''max reconnect attempts ('' @ dec (unat m) @ '') exceeded'')]\<rparr>"
  using reconnect_loop_fails [OF assms, of m "unat m" 1] by (simp add: try_reconnect_def)

theorem reconnect_exhausts_witness:
  "length (rc_events (try_reconnect agree_libs ''0.1''
      (\<lambda>_. \<lparr> at_closed_before = False, at_closed_asleep = False, at_random = 0, at_now = 0, at_dial = Inl ''refused'' \<rparr>)
      3 open_client)) = 4"
proof -
  have "attempts_fail agree_libs ''0.1''
    (\<lambda>_. \<lparr> at_closed_before = False, at_closed_asleep = False, at_random = 0, at_now = 0, at_dial = Inl ''refused'' \<rparr>)"
    by (simp add: attempts_fail_def connect_def)
  from reconnect_exhausts [OF this, of open_client 3] show ?thesis
    by (auto simp: open_client_def agree_client_def RiftClient_new_def)
qed

end
