(* ===== verification/Redis_Stores.thy ===== *)
theory Redis_Stores
  imports Offset_Store Dedupe_Store Snapshot_Store
begin

text \<open>
  The Redis stores (\<open>rifts-redis/src/connection.rs\<close>, \<open>storage/*.rs\<close>).  The Redis server is a
  record of the commands the stores send, on a state \<open>'r\<close> all instances share; a command
  answers with an error or a value converted to the type the caller asks for.  \<open>redis_ok\<close> states
  the documented behaviour of the commands.
\<close>

section \<open>Commands\<close>

record 'r Redis =
  rd_hincrby :: "string \<Rightarrow> string \<Rightarrow> i64 \<Rightarrow> 'r \<Rightarrow> (string + i64) \<times> 'r"
  rd_hget :: "string \<Rightarrow> string \<Rightarrow> 'r \<Rightarrow> string + i64 option"
  rd_hdel :: "string \<Rightarrow> string \<Rightarrow> 'r \<Rightarrow> 'r"
  rd_set_nx_ex :: "i64 \<Rightarrow> string \<Rightarrow> nat \<Rightarrow> 'r \<Rightarrow> (string + bool) \<times> 'r"
  rd_zadd :: "string \<Rightarrow> i64 \<Rightarrow> bytes \<Rightarrow> 'r \<Rightarrow> 'r"
  rd_zremrangebyrank :: "string \<Rightarrow> int \<Rightarrow> int \<Rightarrow> 'r \<Rightarrow> 'r"
  rd_zrangebyscore :: "string \<Rightarrow> i64 \<Rightarrow> i64 \<Rightarrow> 'r \<Rightarrow> string + bytes list"
  rd_zrevrange :: "string \<Rightarrow> int \<Rightarrow> int \<Rightarrow> 'r \<Rightarrow> string + bytes list"
  rd_del :: "string \<Rightarrow> 'r \<Rightarrow> 'r"
  rd_hset :: "i64 \<Rightarrow> string \<Rightarrow> (string \<times> string) list \<Rightarrow> 'r \<Rightarrow> 'r"
  rd_expire :: "i64 \<Rightarrow> string \<Rightarrow> nat \<Rightarrow> 'r \<Rightarrow> 'r"
  rd_hmget :: "i64 \<Rightarrow> string \<Rightarrow> string list \<Rightarrow> 'r \<Rightarrow> string + string list"

section \<open>Keys\<close>

record RedisPool =
  rp_url :: string
  rp_prefix :: string

text \<open>\<open>open_client\<close> and \<open>get_connection\<close> are the redis crate's.\<close>

definition RedisPool_connect ::
  "(string \<Rightarrow> string + 'c) \<Rightarrow> ('c \<Rightarrow> string + unit) \<Rightarrow> string \<Rightarrow> string \<Rightarrow> RedisPool rift_result" where
  "RedisPool_connect open_client get_connection url key_prefix =
    (case open_client url of
       Inl e \<Rightarrow> Inl (RiftError.System (SystemReject.Internal (''redis client: '' @ e)))
     | Inr client \<Rightarrow>
         (case get_connection client of
            Inl e \<Rightarrow> Inl (RiftError.System (SystemReject.Internal (''redis connect: '' @ e)))
          | Inr _ \<Rightarrow> Inr \<lparr> rp_url = url, rp_prefix = key_prefix \<rparr>))"

definition RedisPool_key :: "RedisPool \<Rightarrow> string \<Rightarrow> string" where
  "RedisPool_key pool name = rp_prefix pool @ '':'' @ name"

definition RedisPool_topic_key :: "RedisPool \<Rightarrow> string \<Rightarrow> string \<Rightarrow> string" where
  "RedisPool_topic_key pool kind topic = rp_prefix pool @ '':'' @ kind @ '':'' @ topic"

section \<open>Offsets\<close>

definition RedisOffsetStore_hash_key :: "RedisPool \<Rightarrow> string" where
  "RedisOffsetStore_hash_key pool = RedisPool_key pool ''offsets''"

definition RedisOffsetStore_alloc :: "'r Redis \<Rightarrow> RedisPool \<Rightarrow> string \<Rightarrow> 'r \<Rightarrow> i64 \<times> 'r" where
  "RedisOffsetStore_alloc R pool topic r =
    (case rd_hincrby R (RedisOffsetStore_hash_key pool) topic 1 r of
       (Inr n, r') \<Rightarrow> (n, r')
     | (Inl _, r') \<Rightarrow> (1, r'))"

definition RedisOffsetStore_head :: "'r Redis \<Rightarrow> RedisPool \<Rightarrow> string \<Rightarrow> 'r \<Rightarrow> i64" where
  "RedisOffsetStore_head R pool topic r =
    (case rd_hget R (RedisOffsetStore_hash_key pool) topic r of
       Inr (Some n) \<Rightarrow> n
     | _ \<Rightarrow> 0)"

definition RedisOffsetStore_remove :: "'r Redis \<Rightarrow> RedisPool \<Rightarrow> string \<Rightarrow> 'r \<Rightarrow> 'r" where
  "RedisOffsetStore_remove R pool topic r = rd_hdel R (RedisOffsetStore_hash_key pool) topic r"

section \<open>Deduplication\<close>

definition member_key :: "RedisPool \<Rightarrow> string \<Rightarrow> string \<Rightarrow> string" where
  "member_key pool topic message_id = rp_prefix pool @ '':dedupe:'' @ topic @ '':'' @ message_id"

text \<open>The window in whole seconds, at least one.\<close>

definition window_secs :: "nat \<Rightarrow> nat" where
  "window_secs window = max (window div 1000) 1"

definition RedisDedupeStore_check_and_record ::
  "'r Redis \<Rightarrow> RedisPool \<Rightarrow> i64 \<Rightarrow> string \<Rightarrow> string \<Rightarrow> nat \<Rightarrow> 'r \<Rightarrow> bool \<times> 'r" where
  "RedisDedupeStore_check_and_record R pool now topic key window r =
    (case rd_set_nx_ex R now (member_key pool topic key) (window_secs window) r of
       (Inr ok, r') \<Rightarrow> (ok, r')
     | (Inl _, r') \<Rightarrow> (False, r'))"

definition RedisDedupeStore_sweep :: "i64 \<Rightarrow> 'r \<Rightarrow> nat \<times> 'r" where
  "RedisDedupeStore_sweep now r = (0, r)"

section \<open>The log\<close>

definition RedisLogStore_log_key :: "RedisPool \<Rightarrow> string \<Rightarrow> string" where
  "RedisLogStore_log_key pool topic = RedisPool_topic_key pool ''log'' topic"

definition encode_entry :: "LogEntry Serde \<Rightarrow> LogEntry \<Rightarrow> bytes" where
  "encode_entry S e = (case to_vec S e of Some b \<Rightarrow> b | None \<Rightarrow> [])"

definition RedisLogStore_append ::
  "'r Redis \<Rightarrow> LogEntry Serde \<Rightarrow> RedisPool \<Rightarrow> i64 \<Rightarrow> string \<Rightarrow> LogEntry \<Rightarrow> RetentionPolicy \<Rightarrow> 'r \<Rightarrow> 'r" where
  "RedisLogStore_append R S pool now topic entry retention r =
    (let key = RedisLogStore_log_key pool topic;
         r = rd_zadd R key (le_offset entry) (encode_entry S entry) r
     in case retention of
          NoRetention \<Rightarrow> rd_del R key r
        | Count n \<Rightarrow> if 0 < n then rd_zremrangebyrank R key 0 (wrap_i64 (- wrap_i64 (wrap_i64 (int n) + 1))) r else r
        | Latest \<Rightarrow> rd_zremrangebyrank R key 0 (- 2) r
        | _ \<Rightarrow> r)"

definition RedisLogStore_range ::
  "'r Redis \<Rightarrow> LogEntry Serde \<Rightarrow> RedisPool \<Rightarrow> string \<Rightarrow> i64 \<Rightarrow> i64 \<Rightarrow> 'r \<Rightarrow> LogEntry list" where
  "RedisLogStore_range R S pool topic lo hi r =
    (case rd_zrangebyscore R (RedisLogStore_log_key pool topic) lo hi r of
       Inr data \<Rightarrow> List.map_filter (from_slice S) data
     | Inl _ \<Rightarrow> [])"

definition RedisLogStore_latest ::
  "'r Redis \<Rightarrow> LogEntry Serde \<Rightarrow> RedisPool \<Rightarrow> string \<Rightarrow> 'r \<Rightarrow> LogEntry option" where
  "RedisLogStore_latest R S pool topic r =
    (case rd_zrevrange R (RedisLogStore_log_key pool topic) 0 0 r of
       Inr (d # _) \<Rightarrow> from_slice S d
     | _ \<Rightarrow> None)"

definition RedisLogStore_remove :: "'r Redis \<Rightarrow> RedisPool \<Rightarrow> string \<Rightarrow> 'r \<Rightarrow> 'r" where
  "RedisLogStore_remove R pool topic r = rd_del R (RedisLogStore_log_key pool topic) r"

section \<open>Hexadecimal\<close>

definition hex_digit :: "nat \<Rightarrow> char" where
  "hex_digit d = (if d < 10 then char_of (48 + d) else char_of (87 + d))"

definition hex_byte :: "byte \<Rightarrow> string" where
  "hex_byte b = [hex_digit (unat b div 16), hex_digit (unat b mod 16)]"

definition hex_encode :: "bytes \<Rightarrow> string" where
  "hex_encode bs = concat (map hex_byte bs)"

text \<open>\<open>char::to_digit(16)\<close>, and \<open>u8::from_str_radix\<close> on two characters, which takes a leading plus.\<close>

definition hex_value :: "char \<Rightarrow> nat option" where
  "hex_value c =
    (let n = of_char c :: nat
     in if 48 \<le> n \<and> n \<le> 57 then Some (n - 48)
        else if 97 \<le> n \<and> n \<le> 102 then Some (n - 87)
        else if 65 \<le> n \<and> n \<le> 70 then Some (n - 55)
        else None)"

definition hex_pair :: "char \<Rightarrow> char \<Rightarrow> byte option" where
  "hex_pair c d =
    (case hex_value d of
       None \<Rightarrow> None
     | Some lo \<Rightarrow>
         if c = CHR ''+'' then Some (word_of_nat lo)
         else map_option (\<lambda>hi. word_of_nat (16 * hi + lo)) (hex_value c))"

fun hex_decode :: "string \<Rightarrow> bytes" where
  "hex_decode (c # d # rest) = (case hex_pair c d of Some b \<Rightarrow> b # hex_decode rest | None \<Rightarrow> hex_decode rest)"
| "hex_decode _ = []"

section \<open>Reading integers\<close>

definition digit_value :: "char \<Rightarrow> nat option" where
  "digit_value c = (let n = of_char c :: nat in if 48 \<le> n \<and> n \<le> 57 then Some (n - 48) else None)"

fun read_digits :: "nat \<Rightarrow> string \<Rightarrow> nat option" where
  "read_digits acc [] = Some acc"
| "read_digits acc (c # cs) = (case digit_value c of Some d \<Rightarrow> read_digits (10 * acc + d) cs | None \<Rightarrow> None)"

text \<open>\<open>str::parse::<i64>\<close>.\<close>

definition i64_in_range :: "int \<Rightarrow> i64 option" where
  "i64_in_range x = (if i64_ok x then Some x else None)"

definition parse_i64 :: "string \<Rightarrow> i64 option" where
  "parse_i64 s =
    (case s of
       [] \<Rightarrow> None
     | c # cs \<Rightarrow>
         if c = CHR ''-'' \<or> c = CHR ''+''
         then (if cs = [] then None
               else Option.bind (read_digits 0 cs) (\<lambda>n. i64_in_range (if c = CHR ''-'' then - int n else int n)))
         else Option.bind (read_digits 0 s) (\<lambda>n. i64_in_range (int n)))"

section \<open>Snapshots\<close>

definition RedisSnapshotStore_snapshot_key :: "RedisPool \<Rightarrow> string \<Rightarrow> string" where
  "RedisSnapshotStore_snapshot_key pool topic = RedisPool_topic_key pool ''snapshot'' topic"

text \<open>What is captured: the last entry of the topic's log.\<close>

definition redis_snapshot :: "i64 \<Rightarrow> string \<Rightarrow> TopicStore \<Rightarrow> nat option \<Rightarrow> StoredSnapshot option" where
  "redis_snapshot now topic store ttl =
    (case TopicStore_get topic store of
       None \<Rightarrow> None
     | Some entry \<Rightarrow>
         if te_log entry = [] then None
         else let latest = last (te_log entry)
              in Some \<lparr> ss_snapshot_id = ''snap-'' @ dec_int (le_offset latest), ss_topic = topic,
                   ss_base_offset = le_offset latest, ss_payload = le_payload latest, ss_created_at = now,
                   ss_expires_at = map_option (\<lambda>t. wrap_i64 (now + wrap_i64 (int t))) ttl \<rparr>)"

definition snapshot_fields :: "StoredSnapshot \<Rightarrow> (string \<times> string) list" where
  "snapshot_fields snap =
    [(''snapshot_id'', ss_snapshot_id snap), (''topic'', ss_topic snap), (''base_offset'', dec_int (ss_base_offset snap)),
     (''payload'', hex_encode (ss_payload snap)), (''created_at'', dec_int (ss_created_at snap)),
     (''expires_at'', case ss_expires_at snap of Some e \<Rightarrow> dec_int e | None \<Rightarrow> '''')]"

definition RedisSnapshotStore_capture ::
  "'r Redis \<Rightarrow> RedisPool \<Rightarrow> i64 \<Rightarrow> string \<Rightarrow> TopicStore \<Rightarrow> nat option \<Rightarrow> 'r \<Rightarrow> StoredSnapshot option \<times> 'r" where
  "RedisSnapshotStore_capture R pool now topic store ttl r =
    (case redis_snapshot now topic store ttl of
       None \<Rightarrow> (None, r)
     | Some snap \<Rightarrow>
         let key = RedisSnapshotStore_snapshot_key pool topic;
             r = rd_hset R now key (snapshot_fields snap) r;
             r = (case ttl of Some t \<Rightarrow> rd_expire R now key (window_secs t) r | None \<Rightarrow> r)
         in (Some snap, r))"

definition read_snapshot :: "i64 \<Rightarrow> string list \<Rightarrow> StoredSnapshot option" where
  "read_snapshot now fs =
    (if length fs < 6 \<or> fs ! 0 = [] then None
     else
       let expires_at = (if fs ! 5 = [] then None else parse_i64 (fs ! 5));
           snap = \<lparr> ss_snapshot_id = fs ! 0, ss_topic = fs ! 1,
             ss_base_offset = (case parse_i64 (fs ! 2) of Some n \<Rightarrow> n | None \<Rightarrow> 0),
             ss_payload = hex_decode (fs ! 3),
             ss_created_at = (case parse_i64 (fs ! 4) of Some n \<Rightarrow> n | None \<Rightarrow> 0), ss_expires_at = expires_at \<rparr>
       in if snapshot_expired now snap then None else Some snap)"

definition RedisSnapshotStore_get :: "'r Redis \<Rightarrow> RedisPool \<Rightarrow> i64 \<Rightarrow> string \<Rightarrow> 'r \<Rightarrow> StoredSnapshot option" where
  "RedisSnapshotStore_get R pool now topic r =
    read_snapshot now
      (case rd_hmget R now (RedisSnapshotStore_snapshot_key pool topic)
          [''snapshot_id'', ''topic'', ''base_offset'', ''payload'', ''created_at'', ''expires_at''] r of
         Inr fs \<Rightarrow> fs
       | Inl _ \<Rightarrow> [])"

definition RedisSnapshotStore_remove :: "'r Redis \<Rightarrow> RedisPool \<Rightarrow> string \<Rightarrow> 'r \<Rightarrow> 'r" where
  "RedisSnapshotStore_remove R pool topic r = rd_del R (RedisSnapshotStore_snapshot_key pool topic) r"

definition RedisSnapshotStore_list :: "'r \<Rightarrow> StoredSnapshot list" where
  "RedisSnapshotStore_list r = []"

section \<open>What the commands do\<close>

text \<open>
  A view of the server's keys: a hash of counters, a sorted set in score order, a hash of strings
  with its expiry, and a lock key with its expiry.  A sorted set's scores are doubles, exact below
  \<open>2 ^ 53\<close>.
\<close>

datatype RVal =
    RCounts "string \<Rightarrow> i64 option"
  | RZset "(i64 \<times> bytes) list"
  | RFields "string \<Rightarrow> string option" "i64 option"
  | RLock i64

fun counts_of :: "RVal option \<Rightarrow> (string \<Rightarrow> i64 option) option" where
  "counts_of None = Some (\<lambda>_. None)"
| "counts_of (Some (RCounts c)) = Some c"
| "counts_of _ = None"

fun zset_of :: "RVal option \<Rightarrow> (i64 \<times> bytes) list option" where
  "zset_of None = Some []"
| "zset_of (Some (RZset xs)) = Some xs"
| "zset_of _ = None"

fun fields_at :: "i64 \<Rightarrow> RVal option \<Rightarrow> ((string \<Rightarrow> string option) \<times> i64 option) option" where
  "fields_at now None = Some (\<lambda>_. None, None)"
| "fields_at now (Some (RFields m e)) =
    (case e of
       None \<Rightarrow> Some (m, None)
     | Some x \<Rightarrow> if x \<le> now then Some (\<lambda>_. None, None) else Some (m, Some x))"
| "fields_at _ _ = None"

definition zbefore :: "i64 \<Rightarrow> bytes \<Rightarrow> i64 \<times> bytes \<Rightarrow> bool" where
  "zbefore s m x \<longleftrightarrow> fst x < s \<or> fst x = s \<and> snd x < m"

definition zinsert :: "i64 \<Rightarrow> bytes \<Rightarrow> (i64 \<times> bytes) list \<Rightarrow> (i64 \<times> bytes) list" where
  "zinsert s m xs =
    (let ys = filter (\<lambda>x. snd x \<noteq> m) xs in takeWhile (zbefore s m) ys @ [(s, m)] @ dropWhile (zbefore s m) ys)"

definition zrank :: "nat \<Rightarrow> int \<Rightarrow> int" where
  "zrank len i = (if i < 0 then int len + i else i)"

definition zremove_ranks :: "int \<Rightarrow> int \<Rightarrow> 'a list \<Rightarrow> 'a list" where
  "zremove_ranks a b xs =
    (let lo = max 0 (zrank (length xs) a); hi = min (int (length xs) - 1) (zrank (length xs) b)
     in if hi < lo then xs else take (nat lo) xs @ drop (nat (hi + 1)) xs)"

definition zslice :: "int \<Rightarrow> int \<Rightarrow> 'a list \<Rightarrow> 'a list" where
  "zslice a b xs =
    (let lo = max 0 (zrank (length xs) a); hi = min (int (length xs) - 1) (zrank (length xs) b)
     in if hi < lo then [] else take (nat (hi + 1 - lo)) (drop (nat lo) xs))"

text \<open>A command leaves every other key alone.\<close>

definition only_key :: "('r \<Rightarrow> string \<Rightarrow> RVal option) \<Rightarrow> string \<Rightarrow> 'r \<Rightarrow> 'r \<Rightarrow> bool" where
  "only_key val k r r' \<longleftrightarrow> (\<forall>k'. k' \<noteq> k \<longrightarrow> val r' k' = val r k')"

definition count_or_0 :: "(string \<Rightarrow> i64 option) \<Rightarrow> string \<Rightarrow> i64" where
  "count_or_0 c f = (case c f of Some n \<Rightarrow> n | None \<Rightarrow> 0)"

definition redis_counts_ok :: "'r Redis \<Rightarrow> ('r \<Rightarrow> string \<Rightarrow> RVal option) \<Rightarrow> ('r \<Rightarrow> bool) \<Rightarrow> bool" where
  "redis_counts_ok R val rinv \<longleftrightarrow> (\<forall>r k f c. rinv r \<longrightarrow> counts_of (val r k) = Some c \<longrightarrow>
    rd_hget R k f r = Inr (c f) \<and>
    (\<forall>d. i64_ok (count_or_0 c f + d) \<longrightarrow>
      (\<exists>r'. rd_hincrby R k f d r = (Inr (count_or_0 c f + d), r') \<and> rinv r' \<and> only_key val k r r' \<and>
         counts_of (val r' k) = Some (c(f \<mapsto> count_or_0 c f + d)))) \<and>
    (\<forall>d. \<not> i64_ok (count_or_0 c f + d) \<longrightarrow> (\<exists>e. rd_hincrby R k f d r = (Inl e, r))) \<and>
    rinv (rd_hdel R k f r) \<and> only_key val k r (rd_hdel R k f r) \<and>
    counts_of (val (rd_hdel R k f r) k) = Some (c(f := None)))"

definition redis_zset_ok :: "'r Redis \<Rightarrow> ('r \<Rightarrow> string \<Rightarrow> RVal option) \<Rightarrow> ('r \<Rightarrow> bool) \<Rightarrow> bool" where
  "redis_zset_ok R val rinv \<longleftrightarrow> (\<forall>r k xs. rinv r \<longrightarrow> zset_of (val r k) = Some xs \<longrightarrow>
    (\<forall>s m. \<bar>s\<bar> < 2 ^ 53 \<longrightarrow> rinv (rd_zadd R k s m r) \<and> only_key val k r (rd_zadd R k s m r) \<and>
       zset_of (val (rd_zadd R k s m r) k) = Some (zinsert s m xs)) \<and>
    (\<forall>a b. rinv (rd_zremrangebyrank R k a b r) \<and> only_key val k r (rd_zremrangebyrank R k a b r) \<and>
       zset_of (val (rd_zremrangebyrank R k a b r) k) = Some (zremove_ranks a b xs) \<and>
       rd_zrevrange R k a b r = Inr (zslice a b (rev (map snd xs)))) \<and>
    (\<forall>lo hi. (\<forall>x \<in> set xs. \<bar>fst x\<bar> < 2 ^ 53) \<longrightarrow>
       rd_zrangebyscore R k lo hi r = Inr (map snd (filter (\<lambda>x. lo \<le> fst x \<and> fst x \<le> hi) xs))))"

definition redis_fields_ok :: "'r Redis \<Rightarrow> ('r \<Rightarrow> string \<Rightarrow> RVal option) \<Rightarrow> ('r \<Rightarrow> bool) \<Rightarrow> bool" where
  "redis_fields_ok R val rinv \<longleftrightarrow> (\<forall>r k now m e. rinv r \<longrightarrow> fields_at now (val r k) = Some (m, e) \<longrightarrow>
    (\<forall>fs. distinct (map fst fs) \<longrightarrow> fs \<noteq> [] \<longrightarrow>
       rinv (rd_hset R now k fs r) \<and> only_key val k r (rd_hset R now k fs r) \<and>
       val (rd_hset R now k fs r) k = Some (RFields (m ++ map_of fs) e)) \<and>
    (\<forall>secs. m \<noteq> (\<lambda>_. None) \<longrightarrow>
       rinv (rd_expire R now k secs r) \<and> only_key val k r (rd_expire R now k secs r) \<and>
       val (rd_expire R now k secs r) k = Some (RFields m (Some (now + 1000 * int secs)))) \<and>
    (\<forall>fs. rd_hmget R now k fs r =
       (if \<forall>f \<in> set fs. m f \<noteq> None then Inr (map (the \<circ> m) fs) else Inl ''nil'')))"

definition redis_lock_ok :: "'r Redis \<Rightarrow> ('r \<Rightarrow> string \<Rightarrow> RVal option) \<Rightarrow> ('r \<Rightarrow> bool) \<Rightarrow> bool" where
  "redis_lock_ok R val rinv \<longleftrightarrow> (\<forall>r k now secs. rinv r \<longrightarrow>
    (\<forall>e. val r k = Some (RLock e) \<longrightarrow> now < e \<longrightarrow> rd_set_nx_ex R now k secs r = (Inr False, r)) \<and>
    (val r k = None \<or> (\<exists>e. val r k = Some (RLock e) \<and> e \<le> now) \<longrightarrow>
      (\<exists>r'. rd_set_nx_ex R now k secs r = (Inr True, r') \<and> rinv r' \<and> only_key val k r r' \<and>
         val r' k = Some (RLock (now + 1000 * int secs)))))"

definition redis_del_ok :: "'r Redis \<Rightarrow> ('r \<Rightarrow> string \<Rightarrow> RVal option) \<Rightarrow> ('r \<Rightarrow> bool) \<Rightarrow> bool" where
  "redis_del_ok R val rinv \<longleftrightarrow> (\<forall>r k. rinv r \<longrightarrow>
    rinv (rd_del R k r) \<and> only_key val k r (rd_del R k r) \<and> val (rd_del R k r) k = None)"

definition redis_ok :: "'r Redis \<Rightarrow> ('r \<Rightarrow> string \<Rightarrow> RVal option) \<Rightarrow> ('r \<Rightarrow> bool) \<Rightarrow> bool" where
  "redis_ok R val rinv \<longleftrightarrow> redis_counts_ok R val rinv \<and> redis_zset_ok R val rinv \<and>
    redis_fields_ok R val rinv \<and> redis_lock_ok R val rinv \<and> redis_del_ok R val rinv"

section \<open>Round trips\<close>

lemma hex_value_digit: "d < 16 \<Longrightarrow> hex_value (hex_digit d) = Some d"
  by (auto simp: hex_value_def hex_digit_def Let_def)

lemma hex_digit_plus: "d < 16 \<Longrightarrow> hex_digit d \<noteq> CHR ''+''"
  using hex_value_digit [of d] by (auto simp: hex_value_def)

lemma hex_roundtrip: "hex_decode (hex_encode bs) = bs"
proof (induction bs)
  case (Cons b bs)
  have "unat b div 16 < 16" using unat_lt_2p [of b] by simp
  then have "hex_pair (hex_digit (unat b div 16)) (hex_digit (unat b mod 16)) = Some b"
    by (simp add: hex_pair_def hex_value_digit hex_digit_plus del: of_nat_add of_nat_mult)
  with Cons show ?case by (simp add: hex_encode_def hex_byte_def)
qed (simp add: hex_encode_def)

lemma read_digits_append: "read_digits a (s @ t) = Option.bind (read_digits a s) (\<lambda>b. read_digits b t)"
  by (induction s arbitrary: a) (auto split: option.splits)

lemma digit_value_digit: "d < 10 \<Longrightarrow> digit_value (digit d) = Some d"
  by (simp add: digit_value_def digit_def Let_def)

lemma read_dec: "read_digits 0 (dec n) = Some n"
proof (induction n rule: dec.induct)
  case (1 n)
  show ?case
  proof (cases "n < 10")
    case False
    then have "read_digits 0 (dec n) = Option.bind (read_digits 0 (dec (n div 10))) (\<lambda>b. read_digits b [digit (n mod 10)])"
      by (subst dec.simps) (simp add: read_digits_append)
    then show ?thesis using 1 False by (simp add: digit_value_digit)
  qed (simp add: dec.simps digit_value_digit)
qed

lemma dec_not_empty: "dec n \<noteq> []"
  by (subst dec.simps) simp

lemma dec_first: "c \<in> set (dec n) \<Longrightarrow> \<exists>d < 10. c = digit d"
proof (induction n rule: dec.induct)
  case (1 n)
  then show ?case by (subst (asm) (2) dec.simps) (auto split: if_splits intro: exI [of _ "n mod 10"])
qed

lemma parse_dec_int: "i64_ok x \<Longrightarrow> parse_i64 (dec_int x) = Some x"
proof -
  assume x: "i64_ok x"
  have sign: "digit d \<noteq> CHR ''-''" "digit d \<noteq> CHR ''+''" if "d < 10" for d
    using digit_value_digit [OF that] by (auto simp: digit_value_def)
  show ?thesis
  proof (cases "x < 0")
    case True
    then show ?thesis using x by (simp add: dec_int_def parse_i64_def dec_not_empty read_dec i64_in_range_def)
  next
    case False
    obtain c cs where d: "dec (nat x) = c # cs" using dec_not_empty [of "nat x"] by (cases "dec (nat x)") auto
    obtain k where "k < 10" "c = digit k" using dec_first [of c "nat x"] d by auto
    then have "parse_i64 (dec_int x) = Option.bind (read_digits 0 (dec (nat x))) (\<lambda>n. i64_in_range (int n))"
      using False sign d by (simp add: dec_int_def parse_i64_def)
    then show ?thesis using False x by (simp add: read_dec i64_in_range_def)
  qed
qed

section \<open>Keys do not collide\<close>

lemma topic_key_inj: "RedisPool_topic_key pool kind t = RedisPool_topic_key pool kind t' \<longleftrightarrow> t = t'"
  by (simp add: RedisPool_topic_key_def)

lemma keys_apart [simp]:
  "RedisLogStore_log_key pool t \<noteq> RedisOffsetStore_hash_key pool"
  "RedisLogStore_log_key pool t \<noteq> member_key pool t' m"
  "RedisLogStore_log_key pool t \<noteq> RedisSnapshotStore_snapshot_key pool t'"
  "member_key pool t' m \<noteq> RedisOffsetStore_hash_key pool"
  "RedisSnapshotStore_snapshot_key pool t \<noteq> RedisOffsetStore_hash_key pool"
  "RedisSnapshotStore_snapshot_key pool t \<noteq> member_key pool t' m"
  "RedisOffsetStore_hash_key pool \<noteq> RedisLogStore_log_key pool t"
  "member_key pool t' m \<noteq> RedisLogStore_log_key pool t"
  "RedisOffsetStore_hash_key pool \<noteq> member_key pool t' m"
  by (simp_all add: RedisLogStore_log_key_def RedisOffsetStore_hash_key_def member_key_def
      RedisSnapshotStore_snapshot_key_def RedisPool_topic_key_def RedisPool_key_def)

lemma log_key_inj [simp]: "RedisLogStore_log_key pool t = RedisLogStore_log_key pool t' \<longleftrightarrow> t = t'"
  by (simp add: RedisLogStore_log_key_def topic_key_inj)

section \<open>The offset store meets its contract\<close>

definition redis_offsets_ok :: "RedisPool \<Rightarrow> (string \<Rightarrow> RVal option) \<Rightarrow> bool" where
  "redis_offsets_ok pool v \<longleftrightarrow>
    (\<exists>c. counts_of (v (RedisOffsetStore_hash_key pool)) = Some c \<and> (\<forall>t n. c t = Some n \<longrightarrow> 0 \<le> n \<and> n \<le> i64_max))"

lemma redis_offsets_cong:
  "v' (RedisOffsetStore_hash_key pool) = v (RedisOffsetStore_hash_key pool) \<Longrightarrow>
    redis_offsets_ok pool v' = redis_offsets_ok pool v"
  by (simp add: redis_offsets_ok_def)

lemma redis_head:
  assumes "redis_ok R val rinv" "rinv r" "counts_of (val r (RedisOffsetStore_hash_key pool)) = Some c"
  shows "RedisOffsetStore_head R pool t r = count_or_0 c t"
  using assms
  by (auto simp: redis_ok_def redis_counts_ok_def RedisOffsetStore_head_def count_or_0_def split: option.split)

lemma redis_alloc:
  assumes R: "redis_ok R val rinv" and r: "rinv r"
    and c: "counts_of (val r (RedisOffsetStore_hash_key pool)) = Some c"
    and n: "0 \<le> count_or_0 c t" "count_or_0 c t < i64_max"
  obtains r' where "RedisOffsetStore_alloc R pool t r = (count_or_0 c t + 1, r')" "rinv r'"
    "only_key val (RedisOffsetStore_hash_key pool) r r'"
    "counts_of (val r' (RedisOffsetStore_hash_key pool)) = Some (c(t \<mapsto> count_or_0 c t + 1))"
proof -
  have "i64_ok (count_or_0 c t + 1)" using n by (simp add: i64_ok_def i64_min_def)
  then obtain r' where "rd_hincrby R (RedisOffsetStore_hash_key pool) t 1 r = (Inr (count_or_0 c t + 1), r')"
    "rinv r'" "only_key val (RedisOffsetStore_hash_key pool) r r'"
    "counts_of (val r' (RedisOffsetStore_hash_key pool)) = Some (c(t \<mapsto> count_or_0 c t + 1))"
    using R r c unfolding redis_ok_def redis_counts_ok_def by blast
  then show ?thesis by (intro that [of r']) (simp_all add: RedisOffsetStore_alloc_def)
qed

lemma count_nonneg: "(\<forall>t n. c t = Some n \<longrightarrow> 0 \<le> n \<and> n \<le> i64_max) \<Longrightarrow> 0 \<le> count_or_0 c t"
  by (auto simp: count_or_0_def split: option.split)

text \<open>An increment that would overflow is refused and changes nothing.\<close>

lemma redis_alloc_other:
  assumes R: "redis_ok R val rinv" and r: "rinv r"
    and c: "counts_of (val r (RedisOffsetStore_hash_key pool)) = Some c" and t: "t' \<noteq> t"
  shows "RedisOffsetStore_head R pool t' (snd (RedisOffsetStore_alloc R pool t r)) = count_or_0 c t'"
proof (cases "i64_ok (count_or_0 c t + 1)")
  case True
  then obtain n r' where "rd_hincrby R (RedisOffsetStore_hash_key pool) t 1 r = (Inr n, r')" "rinv r'"
    "counts_of (val r' (RedisOffsetStore_hash_key pool)) = Some (c(t \<mapsto> n))"
    using R r c unfolding redis_ok_def redis_counts_ok_def by blast
  then show ?thesis using redis_head [OF R, of r' pool "c(t \<mapsto> n)" t'] t
    by (simp add: RedisOffsetStore_alloc_def count_or_0_def)
next
  case False
  then obtain e where "rd_hincrby R (RedisOffsetStore_hash_key pool) t 1 r = (Inl e, r)"
    using R r c unfolding redis_ok_def redis_counts_ok_def by blast
  then show ?thesis using redis_head [OF R r c] by (simp add: RedisOffsetStore_alloc_def)
qed

lemma redis_offset_store:
  assumes R: "redis_ok R val rinv"
  shows "offset_store (RedisOffsetStore_alloc R pool) (RedisOffsetStore_head R pool) (RedisOffsetStore_remove R pool)
    (\<lambda>r. rinv r \<and> redis_offsets_ok pool (val r)) (\<lambda>_. True)"
proof
  let ?k = "RedisOffsetStore_hash_key pool"
  fix s t t'
  assume s: "rinv s \<and> redis_offsets_ok pool (val s)"
  then obtain c where c: "counts_of (val s ?k) = Some c" and b: "\<forall>t n. c t = Some n \<longrightarrow> 0 \<le> n \<and> n \<le> i64_max"
    by (auto simp: redis_offsets_ok_def)
  note hd = redis_head [OF R]
  show "0 \<le> RedisOffsetStore_head R pool t s" using hd c s count_nonneg [OF b] by simp
  have del: "rinv (RedisOffsetStore_remove R pool t s)"
    "counts_of (val (RedisOffsetStore_remove R pool t s) ?k) = Some (c(t := None))"
    using R s c by (auto simp: redis_ok_def redis_counts_ok_def RedisOffsetStore_remove_def)
  then show "rinv (RedisOffsetStore_remove R pool t s) \<and> redis_offsets_ok pool (val (RedisOffsetStore_remove R pool t s))"
    using b by (auto simp: redis_offsets_ok_def)
  show "RedisOffsetStore_head R pool t' (RedisOffsetStore_remove R pool t s) =
      (if t' = t then 0 else RedisOffsetStore_head R pool t' s)"
    using hd del c s by (simp add: count_or_0_def)
  show "RedisOffsetStore_head R pool t' (snd (RedisOffsetStore_alloc R pool t s)) = RedisOffsetStore_head R pool t' s"
    if "t' \<noteq> t"
    using redis_alloc_other [OF R _ c that] hd c s by simp
  assume "RedisOffsetStore_head R pool t s < i64_max - 1"
  then have "count_or_0 c t < i64_max - 1" using hd c s by simp
  then obtain r' where r': "RedisOffsetStore_alloc R pool t s = (count_or_0 c t + 1, r')" "rinv r'"
    "counts_of (val r' ?k) = Some (c(t \<mapsto> count_or_0 c t + 1))"
    using redis_alloc [OF R, of s pool c t] s c count_nonneg [OF b] by auto
  then show "fst (RedisOffsetStore_alloc R pool t s) = RedisOffsetStore_head R pool t s + 1 \<and>
      RedisOffsetStore_head R pool t (snd (RedisOffsetStore_alloc R pool t s)) = RedisOffsetStore_head R pool t s + 1"
    using hd c s by (simp add: count_or_0_def)
  show "rinv (snd (RedisOffsetStore_alloc R pool t s)) \<and> redis_offsets_ok pool (val (snd (RedisOffsetStore_alloc R pool t s)))"
    using r' b \<open>count_or_0 c t < i64_max - 1\<close> count_nonneg [OF b, of t] by (auto simp: redis_offsets_ok_def)
qed

section \<open>The log store meets its contract\<close>

definition redis_member :: "LogEntry Serde \<Rightarrow> LogEntry \<Rightarrow> i64 \<times> bytes" where
  "redis_member S e = (le_offset e, encode_entry S e)"

definition redis_entry_ok :: "LogEntry Serde \<Rightarrow> LogEntry \<Rightarrow> bool" where
  "redis_entry_ok S e \<longleftrightarrow> to_vec S e \<noteq> None \<and> 0 \<le> le_offset e \<and> le_offset e < 2 ^ 53"

definition redis_log_holds :: "LogEntry Serde \<Rightarrow> RVal option \<Rightarrow> LogEntry list \<Rightarrow> bool" where
  "redis_log_holds S v es \<longleftrightarrow> zset_of v = Some (map (redis_member S) es) \<and>
    sorted_wrt (<) (map le_offset es) \<and> (\<forall>e \<in> set es. redis_entry_ok S e)"

definition redis_log_ok :: "LogEntry Serde \<Rightarrow> RedisPool \<Rightarrow> (string \<Rightarrow> RVal option) \<Rightarrow> bool" where
  "redis_log_ok S pool v \<longleftrightarrow> (\<forall>t. \<exists>es. redis_log_holds S (v (RedisLogStore_log_key pool t)) es)"

definition redis_entries :: "LogEntry Serde \<Rightarrow> RedisPool \<Rightarrow> (string \<Rightarrow> RVal option) \<Rightarrow> string \<Rightarrow> LogEntry list" where
  "redis_entries S pool v t =
    (case zset_of (v (RedisLogStore_log_key pool t)) of
       Some xs \<Rightarrow> List.map_filter (from_slice S) (map snd xs)
     | None \<Rightarrow> [])"

definition redis_retain :: "i64 \<Rightarrow> RetentionPolicy \<Rightarrow> LogEntry \<Rightarrow> LogEntry list \<Rightarrow> LogEntry list" where
  "redis_retain now retention e log =
    (case retention of
       NoRetention \<Rightarrow> []
     | Count n \<Rightarrow> if 0 < n then zremove_ranks 0 (wrap_i64 (- wrap_i64 (wrap_i64 (int n) + 1))) log else log
     | Latest \<Rightarrow> zremove_ranks 0 (- 2) log
     | _ \<Rightarrow> log)"

lemma zremove_ranks_map: "zremove_ranks a b (map f xs) = map f (zremove_ranks a b xs)"
  by (simp add: zremove_ranks_def Let_def take_map drop_map)

lemma zremove_ranks_set: "set (zremove_ranks a b xs) \<subseteq> set xs"
  by (auto simp: zremove_ranks_def Let_def dest: in_set_takeD in_set_dropD)

lemma sorted_wrt_take_drop: "sorted_wrt P xs \<Longrightarrow> i \<le> j \<Longrightarrow> sorted_wrt P (take i xs @ drop j xs)"
proof -
  assume s: "sorted_wrt P xs" and ij: "i \<le> j"
  have "sorted_wrt P (take i xs @ drop i xs)" using s by simp
  then have "\<forall>x \<in> set (take i xs). \<forall>y \<in> set (drop i xs). P x y" by (simp only: sorted_wrt_append) blast
  moreover have "set (drop j xs) \<subseteq> set (drop i xs)" using ij by (rule set_drop_subset_set_drop)
  ultimately show ?thesis using s by (auto simp: sorted_wrt_append sorted_wrt_take sorted_wrt_drop)
qed

lemma zremove_ranks_sorted: "sorted_wrt P xs \<Longrightarrow> sorted_wrt P (zremove_ranks a b xs)"
  by (auto simp: zremove_ranks_def Let_def intro!: sorted_wrt_take_drop)

text \<open>The newest entries are the ones a count keeps.\<close>

lemma zremove_ranks_last: "zremove_ranks 0 (- int (Suc n)) xs = drop (length xs - n) xs"
  by (auto simp: zremove_ranks_def zrank_def Let_def nat_diff_distrib min_def max_def
      intro!: arg_cong2 [where f = drop])

lemma redis_retain_count:
  "0 < n \<Longrightarrow> int n < i64_max \<Longrightarrow> redis_retain now (Count n) e log = drop (length log - n) log"
  "redis_retain now Latest e log = drop (length log - 1) log"
proof -
  assume n: "0 < n" "int n < i64_max"
  then have "wrap_i64 (int n) = int n" "wrap_i64 (int n + 1) = int n + 1" "wrap_i64 (- (int n + 1)) = - int (Suc n)"
    by (auto intro!: wrap_i64_id simp: i64_ok_def i64_min_def i64_max_def)
  then show "redis_retain now (Count n) e log = drop (length log - n) log"
    using n zremove_ranks_last [of n log] by (simp add: redis_retain_def)
next
  show "redis_retain now Latest e log = drop (length log - 1) log"
    using zremove_ranks_last [of 1 log] by (simp add: redis_retain_def)
qed

lemma redis_retain_set: "set (redis_retain now p e log) \<subseteq> set log"
  by (auto simp: redis_retain_def split: RetentionPolicy.splits if_splits dest!: subsetD [OF zremove_ranks_set])

lemma decode_members:
  assumes "serde_ok S" "\<forall>e \<in> set es. to_vec S e \<noteq> None"
  shows "List.map_filter (from_slice S) (map (encode_entry S) es) = es"
  using assms(2)
proof (induction es)
  case (Cons e es)
  then have "from_slice S (encode_entry S e) = Some e" using assms(1) by (auto simp: serde_ok_def encode_entry_def)
  then show ?case using Cons by (simp add: map_filter_simps)
qed (simp add: map_filter_simps)

lemma redis_entries_holds:
  assumes "serde_ok S" "redis_log_holds S (v (RedisLogStore_log_key pool t)) es"
  shows "redis_entries S pool v t = es"
  using assms decode_members [of S es]
  by (simp add: redis_entries_def redis_log_holds_def redis_member_def redis_entry_ok_def comp_def)

lemma redis_log_cong:
  "(\<And>t. v' (RedisLogStore_log_key pool t) = v (RedisLogStore_log_key pool t)) \<Longrightarrow>
    redis_log_ok S pool v' = redis_log_ok S pool v \<and> redis_entries S pool v' = redis_entries S pool v"
  by (auto simp: redis_log_ok_def redis_entries_def)

text \<open>Members with distinct scores are kept in score order, whatever order they arrive in.\<close>

lemma zinsert_insort:
  assumes "sorted_wrt (<) (map le_offset es)" "le_offset e \<notin> le_offset ` set es" "encode_entry S e \<notin> encode_entry S ` set es"
  shows "zinsert (le_offset e) (encode_entry S e) (map (redis_member S) es) = map (redis_member S) (insort_key le_offset e es)"
proof -
  have "filter (\<lambda>x. snd x \<noteq> encode_entry S e) (map (redis_member S) es) = map (redis_member S) es"
    using assms(3) by (intro filter_True) (force simp: redis_member_def)
  then have "zinsert (le_offset e) (encode_entry S e) (map (redis_member S) es) =
      takeWhile (zbefore (le_offset e) (encode_entry S e)) (map (redis_member S) es) @
      redis_member S e # dropWhile (zbefore (le_offset e) (encode_entry S e)) (map (redis_member S) es)"
    by (simp add: zinsert_def redis_member_def Let_def)
  also have "\<dots> = map (redis_member S) (insort_key le_offset e es)"
    using assms(1,2) by (induction es) (auto simp: zbefore_def redis_member_def)
  finally show ?thesis .
qed

lemma insort_key_last: "\<forall>x \<in> set xs. f x < f e \<Longrightarrow> insort_key f e xs = xs @ [e]"
  by (induction xs) auto

lemma insort_key_strict:
  fixes f :: "'a \<Rightarrow> 'b :: linorder"
  shows "sorted_wrt (<) (map f xs) \<Longrightarrow> f e \<notin> f ` set xs \<Longrightarrow> sorted_wrt (<) (map f (insort_key f e xs))"
  by (induction xs) (auto simp: set_insort_key less_le)

lemma redis_log_holds_snoc:
  assumes "redis_log_holds S v es" "redis_entry_ok S e" "fresh_entry e es"
  shows "sorted_wrt (<) (map le_offset (es @ [e]))" "\<forall>x \<in> set (es @ [e]). redis_entry_ok S x"
  using assms by (auto simp: redis_log_holds_def fresh_entry_def sorted_wrt_append)

lemma redis_retain_holds:
  assumes "sorted_wrt (<) (map le_offset log)" "\<forall>x \<in> set log. redis_entry_ok S x"
    "zset_of v = Some (map (redis_member S) (redis_retain now p e log))"
  shows "redis_log_holds S v (redis_retain now p e log)"
  using assms redis_retain_set [of now p e log] zremove_ranks_sorted [of "\<lambda>x y. le_offset x < le_offset y" log]
  by (auto simp: redis_log_holds_def sorted_wrt_map redis_retain_def split: RetentionPolicy.splits if_splits)

lemma redis_zadd_entry:
  assumes R: "redis_ok R val rinv" and S: "serde_ok S" and r: "rinv r"
    and h: "redis_log_holds S (val r k) es" and e: "redis_entry_ok S e" "le_offset e \<notin> le_offset ` set es"
  defines "r' \<equiv> rd_zadd R k (le_offset e) (encode_entry S e) r"
  shows "rinv r'" "only_key val k r r'" "redis_log_holds S (val r' k) (insort_key le_offset e es)"
proof -
  have z: "zset_of (val r k) = Some (map (redis_member S) es)" and st: "sorted_wrt (<) (map le_offset es)"
    and ok: "\<forall>e \<in> set es. redis_entry_ok S e" using h by (auto simp: redis_log_holds_def)
  have "\<bar>le_offset e\<bar> < 2 ^ 53" using e by (simp add: redis_entry_ok_def)
  then have q: "rinv r' \<and> only_key val k r r' \<and>
      zset_of (val r' k) = Some (zinsert (le_offset e) (encode_entry S e) (map (redis_member S) es))"
    using R r z unfolding r'_def redis_ok_def redis_zset_ok_def by blast
  have "encode_entry S x \<noteq> encode_entry S e" if "x \<in> set es" for x
  proof
    assume eq: "encode_entry S x = encode_entry S e"
    have "to_vec S x \<noteq> None" "to_vec S e \<noteq> None" using ok e that by (auto simp: redis_entry_ok_def)
    then have "x = e" using eq S by (auto simp: serde_ok_def encode_entry_def) (metis option.inject)
    then show False using e that by auto
  qed
  then have "encode_entry S e \<notin> encode_entry S ` set es" by force
  then have "zset_of (val r' k) = Some (map (redis_member S) (insort_key le_offset e es))"
    using q zinsert_insort [OF st e(2), of S] by simp
  then show "redis_log_holds S (val r' k) (insort_key le_offset e es)"
    using insort_key_strict [OF st e(2)] ok e(1) by (auto simp: redis_log_holds_def set_insort_key)
  show "rinv r'" "only_key val k r r'" using q by auto
qed

lemma redis_append_durable:
  assumes "redis_ok R val rinv" "serde_ok S" "rinv r"
    "redis_log_holds S (val r (RedisLogStore_log_key pool t)) es" "redis_entry_ok S e" "le_offset e \<notin> le_offset ` set es"
  shows "rinv (RedisLogStore_append R S pool now t e Durable r)"
    "only_key val (RedisLogStore_log_key pool t) r (RedisLogStore_append R S pool now t e Durable r)"
    "redis_log_holds S (val (RedisLogStore_append R S pool now t e Durable r) (RedisLogStore_log_key pool t))
       (insort_key le_offset e es)"
  using redis_zadd_entry [OF assms] by (simp_all add: RedisLogStore_append_def Let_def)

lemma only_key_trans: "only_key val k r r' \<Longrightarrow> only_key val k r' r'' \<Longrightarrow> only_key val k r r''"
  by (simp add: only_key_def)

lemma redis_append:
  fixes now :: i64 and p :: RetentionPolicy
  assumes R: "redis_ok R val rinv" and S: "serde_ok S" and r: "rinv r"
    and h: "redis_log_holds S (val r (RedisLogStore_log_key pool t)) es"
    and e: "redis_entry_ok S e" "fresh_entry e es"
  defines "r' \<equiv> RedisLogStore_append R S pool now t e p r"
  shows "rinv r' \<and> only_key val (RedisLogStore_log_key pool t) r r' \<and>
    redis_log_holds S (val r' (RedisLogStore_log_key pool t)) (redis_retain now p e (es @ [e]))"
proof -
  let ?k = "RedisLogStore_log_key pool t"
  let ?a = "rd_zadd R ?k (le_offset e) (encode_entry S e) r"
  have n: "le_offset e \<notin> le_offset ` set es" and l: "insort_key le_offset e es = es @ [e]"
    using e(2) by (auto simp: fresh_entry_def intro!: insort_key_last)
  note z = redis_zadd_entry [OF R S r h e(1) n]
  then have a: "rinv ?a" "only_key val ?k r ?a" "zset_of (val ?a ?k) = Some (map (redis_member S) (es @ [e]))"
    using l by (simp_all add: redis_log_holds_def)
  have trim: "rinv (rd_zremrangebyrank R ?k i j ?a) \<and> only_key val ?k r (rd_zremrangebyrank R ?k i j ?a) \<and>
      zset_of (val (rd_zremrangebyrank R ?k i j ?a) ?k) = Some (map (redis_member S) (zremove_ranks i j (es @ [e])))"
    for i j
    using R a only_key_trans [OF a(2)] unfolding redis_ok_def redis_zset_ok_def zremove_ranks_map [symmetric] by blast
  have del: "rinv (rd_del R ?k ?a) \<and> only_key val ?k r (rd_del R ?k ?a) \<and> zset_of (val (rd_del R ?k ?a) ?k) = Some []"
    using R a only_key_trans [OF a(2)] by (simp add: redis_ok_def redis_del_ok_def)
  have "rinv r' \<and> only_key val ?k r r' \<and> zset_of (val r' ?k) = Some (map (redis_member S) (redis_retain now p e (es @ [e])))"
    using a trim del
    by (auto simp: r'_def RedisLogStore_append_def redis_retain_def Let_def split: RetentionPolicy.split)
  then show ?thesis using redis_retain_holds [OF redis_log_holds_snoc [OF h e]] by blast
qed

lemma redis_range:
  assumes R: "redis_ok R val rinv" and S: "serde_ok S" and r: "rinv r"
    and h: "redis_log_holds S (val r (RedisLogStore_log_key pool t)) es"
  shows "RedisLogStore_range R S pool t lo hi r = filter (\<lambda>e. lo \<le> le_offset e \<and> le_offset e \<le> hi) es"
proof -
  let ?p = "\<lambda>e. lo \<le> le_offset e \<and> le_offset e \<le> hi"
  have z: "zset_of (val r (RedisLogStore_log_key pool t)) = Some (map (redis_member S) es)"
    and ok: "\<forall>e \<in> set es. redis_entry_ok S e" using h by (auto simp: redis_log_holds_def)
  have "\<forall>x \<in> set (map (redis_member S) es). \<bar>fst x\<bar> < 2 ^ 53"
    using ok by (auto simp: redis_member_def redis_entry_ok_def)
  then have "rd_zrangebyscore R (RedisLogStore_log_key pool t) lo hi r =
      Inr (map snd (filter (\<lambda>x. lo \<le> fst x \<and> fst x \<le> hi) (map (redis_member S) es)))"
    using R r z unfolding redis_ok_def redis_zset_ok_def by blast
  then show ?thesis using decode_members [OF S, of "filter ?p es"] ok
    by (simp add: RedisLogStore_range_def filter_map comp_def redis_member_def redis_entry_ok_def)
qed

lemma redis_latest:
  assumes R: "redis_ok R val rinv" and S: "serde_ok S" and r: "rinv r"
    and h: "redis_log_holds S (val r (RedisLogStore_log_key pool t)) es"
  shows "RedisLogStore_latest R S pool t r = (if es = [] then None else Some (last es))"
proof -
  have z: "zset_of (val r (RedisLogStore_log_key pool t)) = Some (map (redis_member S) es)"
    and ok: "\<forall>e \<in> set es. redis_entry_ok S e" using h by (auto simp: redis_log_holds_def)
  have q: "rd_zrevrange R (RedisLogStore_log_key pool t) 0 0 r = Inr (zslice 0 0 (rev (map snd (map (redis_member S) es))))"
    using R r z unfolding redis_ok_def redis_zset_ok_def by blast
  show ?thesis
  proof (cases es rule: rev_cases)
    case Nil
    then show ?thesis using q by (simp add: RedisLogStore_latest_def zslice_def Let_def)
  next
    case (snoc xs x)
    then have "from_slice S (encode_entry S x) = Some x"
      using ok S by (auto simp: redis_entry_ok_def serde_ok_def encode_entry_def)
    then show ?thesis using q snoc by (simp add: RedisLogStore_latest_def zslice_def zrank_def redis_member_def Let_def)
  qed
qed

lemma redis_log_step:
  assumes S: "serde_ok S" and ok: "redis_log_ok S pool (val r)"
    and o: "only_key val (RedisLogStore_log_key pool t) r r'"
    and h: "redis_log_holds S (val r' (RedisLogStore_log_key pool t)) es"
  shows "redis_log_ok S pool (val r') \<and>
    (\<forall>t'. redis_entries S pool (val r') t' = (if t' = t then es else redis_entries S pool (val r) t'))"
proof -
  have k: "val r' (RedisLogStore_log_key pool t') = val r (RedisLogStore_log_key pool t')" if "t' \<noteq> t" for t'
    using o that by (simp add: only_key_def)
  have "\<exists>es. redis_log_holds S (val r' (RedisLogStore_log_key pool t')) es" for t'
    using ok h k [of t'] by (cases "t' = t") (auto simp: redis_log_ok_def)
  moreover have "redis_entries S pool (val r') t' = (if t' = t then es else redis_entries S pool (val r) t')" for t'
    using redis_entries_holds [OF S, of "val r'" pool t es] h k [of t'] by (simp add: redis_entries_def)
  ultimately show ?thesis by (simp add: redis_log_ok_def)
qed

lemma redis_log_store:
  assumes R: "redis_ok R val rinv" and S: "serde_ok S"
  shows "log_store (RedisLogStore_append R S pool) (RedisLogStore_range R S pool) (RedisLogStore_latest R S pool)
    (RedisLogStore_remove R pool) (\<lambda>r. redis_entries S pool (val r)) redis_retain
    (\<lambda>r. rinv r \<and> redis_log_ok S pool (val r)) (\<lambda>_. True) (redis_entry_ok S)"
proof
  fix s t e now p lo hi
  assume s: "rinv s \<and> redis_log_ok S pool (val s)"
  then obtain es where h: "redis_log_holds S (val s (RedisLogStore_log_key pool t)) es"
    by (auto simp: redis_log_ok_def)
  note es = redis_entries_holds [OF S, of "val s" pool t es, OF h]
  show "RedisLogStore_range R S pool t lo hi s =
      filter (\<lambda>e. lo \<le> le_offset e \<and> le_offset e \<le> hi) (redis_entries S pool (val s) t)"
    using redis_range [OF R S _ h] s es by simp
  show "RedisLogStore_latest R S pool t s =
      (if redis_entries S pool (val s) t = [] then None else Some (last (redis_entries S pool (val s) t)))"
    using redis_latest [OF R S _ h] s es by simp
  let ?d = "RedisLogStore_remove R pool t s"
  have d: "rinv ?d" "only_key val (RedisLogStore_log_key pool t) s ?d"
    "redis_log_holds S (val ?d (RedisLogStore_log_key pool t)) []"
    using R s by (auto simp: redis_ok_def redis_del_ok_def RedisLogStore_remove_def redis_log_holds_def)
  then show "(rinv ?d \<and> redis_log_ok S pool (val ?d)) \<and>
      (\<forall>t'. True \<longrightarrow> redis_entries S pool (val ?d) t' = (if t' = t then [] else redis_entries S pool (val s) t'))"
    using redis_log_step [OF S _ d(2,3)] s by blast
  assume e: "redis_entry_ok S e" "fresh_entry e (redis_entries S pool (val s) t)"
  let ?a = "RedisLogStore_append R S pool now t e p s"
  have a: "rinv ?a" "only_key val (RedisLogStore_log_key pool t) s ?a"
    "redis_log_holds S (val ?a (RedisLogStore_log_key pool t)) (redis_retain now p e (es @ [e]))"
    using redis_append [OF R S _ h e(1), of now p] s e(2) es by simp_all
  then show "(rinv ?a \<and> redis_log_ok S pool (val ?a)) \<and>
      (\<forall>t'. True \<longrightarrow> redis_entries S pool (val ?a) t' =
        (if t' = t then redis_retain now p e (redis_entries S pool (val s) t @ [e]) else redis_entries S pool (val s) t'))"
    using redis_log_step [OF S _ a(2,3)] s es by simp
qed (rule redis_retain_set)

section \<open>Snapshots survive the trip\<close>

lemma snapshot_field_values:
  "distinct (map fst (snapshot_fields s))"
  "map (the \<circ> (m ++ map_of (snapshot_fields s)))
     [''snapshot_id'', ''topic'', ''base_offset'', ''payload'', ''created_at'', ''expires_at''] =
   [ss_snapshot_id s, ss_topic s, dec_int (ss_base_offset s), hex_encode (ss_payload s), dec_int (ss_created_at s),
    case ss_expires_at s of Some e \<Rightarrow> dec_int e | None \<Rightarrow> '''']"
  "f \<in> {''snapshot_id'', ''topic'', ''base_offset'', ''payload'', ''created_at'', ''expires_at''} \<Longrightarrow>
     (m ++ map_of (snapshot_fields s)) f \<noteq> None"
  by (auto simp: snapshot_fields_def map_add_def)

lemma dec_int_not_empty: "dec_int x \<noteq> []"
  by (simp add: dec_int_def dec_not_empty)

definition snapshot_in_range :: "StoredSnapshot \<Rightarrow> bool" where
  "snapshot_in_range s \<longleftrightarrow> ss_snapshot_id s \<noteq> [] \<and> i64_ok (ss_base_offset s) \<and> i64_ok (ss_created_at s) \<and>
    (\<forall>e. ss_expires_at s = Some e \<longrightarrow> i64_ok e)"

lemma read_snapshot_fields:
  assumes "snapshot_in_range s"
  shows "read_snapshot now (map (the \<circ> (m ++ map_of (snapshot_fields s)))
     [''snapshot_id'', ''topic'', ''base_offset'', ''payload'', ''created_at'', ''expires_at'']) =
    (if snapshot_expired now s then None else Some s)"
  using assms unfolding snapshot_field_values(2)
  by (cases s; cases "ss_expires_at s")
    (auto simp: read_snapshot_def Let_def hex_roundtrip snapshot_in_range_def parse_dec_int dec_int_not_empty
      snapshot_expired_def)

text \<open>
  When the key of a snapshot goes: the ttl in whole seconds; without a ttl the expiry an earlier
  capture left on the key, since writing fields keeps it.
\<close>

definition redis_key_expiry :: "i64 \<Rightarrow> nat option \<Rightarrow> i64 option \<Rightarrow> i64 option" where
  "redis_key_expiry now ttl e = (case ttl of Some t \<Rightarrow> Some (now + 1000 * int (window_secs t)) | None \<Rightarrow> e)"

lemma redis_snapshot_in_range:
  assumes "redis_snapshot now t store ttl = Some s" "i64_ok now" "i64_ok (ss_base_offset s)"
  shows "snapshot_in_range s"
  using assms by (auto simp: redis_snapshot_def snapshot_in_range_def Let_def split: option.splits if_splits)

lemma fields_at_live: "fields_at now v = Some (m, e) \<Longrightarrow> e = None \<or> (\<exists>x. e = Some x \<and> now < x)"
  by (induction now v rule: fields_at.induct) (auto split: option.splits if_splits)

lemma redis_capture_fields:
  assumes R: "redis_ok R val rinv" and r: "rinv r"
    and v: "fields_at now (val r (RedisSnapshotStore_snapshot_key pool t)) = Some (m, e)"
    and s: "RedisSnapshotStore_capture R pool now t store ttl r = (Some s, r')"
  shows "rinv r' \<and> only_key val (RedisSnapshotStore_snapshot_key pool t) r r' \<and>
    val r' (RedisSnapshotStore_snapshot_key pool t) =
      Some (RFields (m ++ map_of (snapshot_fields s)) (redis_key_expiry now ttl e))"
proof -
  let ?k = "RedisSnapshotStore_snapshot_key pool t" and ?m = "m ++ map_of (snapshot_fields s)"
  let ?h = "rd_hset R now ?k (snapshot_fields s) r"
  have "?m ''topic'' \<noteq> None" by (rule snapshot_field_values(3)) simp
  then have m: "?m \<noteq> (\<lambda>_. None)" by (rule contrapos_nn) (rule fun_cong)
  have ne: "snapshot_fields s \<noteq> []" by (simp add: snapshot_fields_def)
  then have h: "rinv ?h" "only_key val ?k r ?h" "val ?h ?k = Some (RFields ?m e)"
    using R r v snapshot_field_values(1) [of s] unfolding redis_ok_def redis_fields_ok_def by blast+
  have "e = None \<or> (\<exists>x. e = Some x \<and> now < x)"
    using fields_at_live [OF v] .
  then have f: "fields_at now (val ?h ?k) = Some (?m, e)" using h(3) by auto
  have "rinv (rd_expire R now ?k n ?h) \<and> only_key val ?k ?h (rd_expire R now ?k n ?h) \<and>
      val (rd_expire R now ?k n ?h) ?k = Some (RFields ?m (Some (now + 1000 * int n)))" for n
    using R h(1) f m unfolding redis_ok_def redis_fields_ok_def by blast
  then show ?thesis using s h only_key_trans [OF h(2)]
    by (auto simp: RedisSnapshotStore_capture_def redis_key_expiry_def Let_def split: option.splits)
qed

lemma redis_get_fields:
  assumes R: "redis_ok R val rinv" and r: "rinv r" and s: "snapshot_in_range s"
    and v: "val r (RedisSnapshotStore_snapshot_key pool t) = Some (RFields (m ++ map_of (snapshot_fields s)) e)"
  shows "RedisSnapshotStore_get R pool n t r =
    (if (case e of Some x \<Rightarrow> n < x | None \<Rightarrow> True) \<and> \<not> snapshot_expired n s then Some s else None)"
proof -
  let ?k = "RedisSnapshotStore_snapshot_key pool t" and ?m = "m ++ map_of (snapshot_fields s)"
  let ?fs = "[''snapshot_id'', ''topic'', ''base_offset'', ''payload'', ''created_at'', ''expires_at'']"
  have q: "rd_hmget R n ?k ?fs r = (if \<forall>f \<in> set ?fs. m' f \<noteq> None then Inr (map (the \<circ> m') ?fs) else Inl ''nil'')"
    if "fields_at n (val r ?k) = Some (m', e')" for m' e'
    using R r that unfolding redis_ok_def redis_fields_ok_def by blast
  show ?thesis
  proof (cases "case e of Some x \<Rightarrow> n < x | None \<Rightarrow> True")
    case True
    then have f: "fields_at n (val r ?k) = Some (?m, e)" using v by (auto split: option.splits)
    have "\<forall>f \<in> set ?fs. ?m f \<noteq> None" using snapshot_field_values(3) [of _ m s] by simp
    then have "rd_hmget R n ?k ?fs r = Inr (map (the \<circ> ?m) ?fs)" by (rule trans [OF q [OF f] if_P])
    then show ?thesis using True read_snapshot_fields [OF s, of n m] by (simp add: RedisSnapshotStore_get_def del: list.map comp_apply)
  next
    case False
    then have "fields_at n (val r ?k) = Some (\<lambda>_. None, None)" using v by (auto split: option.splits)
    then have "rd_hmget R n ?k ?fs r = Inl ''nil''" using q by simp
    then show ?thesis using False by (simp add: RedisSnapshotStore_get_def read_snapshot_def)
  qed
qed

lemma redis_dedupe_check:
  fixes now :: i64
  assumes R: "redis_ok R val rinv" and r: "rinv r"
    and v: "val r (member_key pool t m) = None \<or> (\<exists>e. val r (member_key pool t m) = Some (RLock e))"
  defines "in_window \<equiv> \<exists>e. val r (member_key pool t m) = Some (RLock e) \<and> now < e"
  shows "\<exists>r'. RedisDedupeStore_check_and_record R pool now t m w r = (\<not> in_window, r') \<and> rinv r' \<and>
    only_key val (member_key pool t m) r r' \<and>
    val r' (member_key pool t m) =
      (if in_window then val r (member_key pool t m) else Some (RLock (now + 1000 * int (window_secs w))))"
proof (cases in_window)
  case True
  then have "rd_set_nx_ex R now (member_key pool t m) (window_secs w) r = (Inr False, r)"
    using R r unfolding in_window_def redis_ok_def redis_lock_ok_def by blast
  then show ?thesis using True r by (simp add: RedisDedupeStore_check_and_record_def only_key_def)
next
  case False
  then have "val r (member_key pool t m) = None \<or> (\<exists>e. val r (member_key pool t m) = Some (RLock e) \<and> e \<le> now)"
    using v unfolding in_window_def by fastforce
  then obtain r' where "rd_set_nx_ex R now (member_key pool t m) (window_secs w) r = (Inr True, r')" "rinv r'"
    "only_key val (member_key pool t m) r r'" "val r' (member_key pool t m) = Some (RLock (now + 1000 * int (window_secs w)))"
    using R r unfolding redis_ok_def redis_lock_ok_def by blast
  then show ?thesis using False by (simp add: RedisDedupeStore_check_and_record_def)
qed

section \<open>A server with the documented behaviour\<close>

definition view_redis :: "(string \<Rightarrow> RVal option) Redis" where
  "view_redis =
    \<lparr> rd_hincrby = (\<lambda>k f d v.
        case counts_of (v k) of
          None \<Rightarrow> (Inl ''WRONGTYPE'', v)
        | Some c \<Rightarrow> let n = count_or_0 c f + d
            in if i64_ok n then (Inr n, v(k \<mapsto> RCounts (c(f \<mapsto> n)))) else (Inl ''overflow'', v)),
      rd_hget = (\<lambda>k f v. case counts_of (v k) of None \<Rightarrow> Inl ''WRONGTYPE'' | Some c \<Rightarrow> Inr (c f)),
      rd_hdel = (\<lambda>k f v. case counts_of (v k) of None \<Rightarrow> v | Some c \<Rightarrow> v(k \<mapsto> RCounts (c(f := None)))),
      rd_set_nx_ex = (\<lambda>now k secs v.
        case v k of
          None \<Rightarrow> (Inr True, v(k \<mapsto> RLock (now + 1000 * int secs)))
        | Some (RLock e) \<Rightarrow> if now < e then (Inr False, v) else (Inr True, v(k \<mapsto> RLock (now + 1000 * int secs)))
        | _ \<Rightarrow> (Inr False, v)),
      rd_zadd = (\<lambda>k s m v. case zset_of (v k) of None \<Rightarrow> v | Some xs \<Rightarrow> v(k \<mapsto> RZset (zinsert s m xs))),
      rd_zremrangebyrank = (\<lambda>k a b v.
        case zset_of (v k) of None \<Rightarrow> v | Some xs \<Rightarrow> v(k \<mapsto> RZset (zremove_ranks a b xs))),
      rd_zrangebyscore = (\<lambda>k lo hi v.
        case zset_of (v k) of
          None \<Rightarrow> Inl ''WRONGTYPE''
        | Some xs \<Rightarrow> Inr (map snd (filter (\<lambda>x. lo \<le> fst x \<and> fst x \<le> hi) xs))),
      rd_zrevrange = (\<lambda>k a b v.
        case zset_of (v k) of None \<Rightarrow> Inl ''WRONGTYPE'' | Some xs \<Rightarrow> Inr (zslice a b (rev (map snd xs)))),
      rd_del = (\<lambda>k v. v(k := None)),
      rd_hset = (\<lambda>now k fs v.
        case fields_at now (v k) of None \<Rightarrow> v | Some (m, e) \<Rightarrow> v(k \<mapsto> RFields (m ++ map_of fs) e)),
      rd_expire = (\<lambda>now k secs v.
        case fields_at now (v k) of None \<Rightarrow> v | Some (m, e) \<Rightarrow> v(k \<mapsto> RFields m (Some (now + 1000 * int secs)))),
      rd_hmget = (\<lambda>now k fs v.
        case fields_at now (v k) of
          None \<Rightarrow> Inl ''WRONGTYPE''
        | Some (m, e) \<Rightarrow> if \<forall>f \<in> set fs. m f \<noteq> None then Inr (map (the \<circ> m) fs) else Inl ''nil'') \<rparr>"

lemma view_redis_ok: "redis_ok view_redis (\<lambda>v. v) (\<lambda>_. True)"
  unfolding redis_ok_def
proof (intro conjI)
  show "redis_counts_ok view_redis (\<lambda>v. v) (\<lambda>_. True)"
    by (simp add: redis_counts_ok_def view_redis_def only_key_def Let_def)
  show "redis_zset_ok view_redis (\<lambda>v. v) (\<lambda>_. True)"
    by (simp add: redis_zset_ok_def view_redis_def only_key_def)
  show "redis_fields_ok view_redis (\<lambda>v. v) (\<lambda>_. True)"
    by (simp add: redis_fields_ok_def view_redis_def only_key_def)
  show "redis_lock_ok view_redis (\<lambda>v. v) (\<lambda>_. True)"
    by (auto simp: redis_lock_ok_def view_redis_def only_key_def)
  show "redis_del_ok view_redis (\<lambda>v. v) (\<lambda>_. True)"
    by (simp add: redis_del_ok_def view_redis_def only_key_def)
qed

section \<open>Properties\<close>

text \<open>A snapshot captured into Redis reads back unchanged, hexadecimal payload and decimal
  fields included, for as long as the key lives and its own expiry has not passed.  The key lives
  for the ttl cut to whole seconds; captured without a ttl it still goes at the expiry an earlier
  capture of the topic left.\<close>

theorem redis_snapshot_roundtrip:
  assumes "redis_ok R val rinv" "rinv r"
    "fields_at now (val r (RedisSnapshotStore_snapshot_key pool t)) = Some (m, e)"
    "RedisSnapshotStore_capture R pool now t store ttl r = (Some s, r')"
    "i64_ok now" "i64_ok (ss_base_offset s)"
  shows "RedisSnapshotStore_get R pool n t r' =
    (if (case redis_key_expiry now ttl e of Some x \<Rightarrow> n < x | None \<Rightarrow> True) \<and> \<not> snapshot_expired n s
     then Some s else None)"
proof -
  have "redis_snapshot now t store ttl = Some s"
    using assms(4) by (auto simp: RedisSnapshotStore_capture_def Let_def split: option.splits)
  then have "snapshot_in_range s" using assms(5,6) by (rule redis_snapshot_in_range)
  then show ?thesis using redis_capture_fields [OF assms(1-4)] by (intro redis_get_fields [OF assms(1)]) auto
qed

definition sample_pool :: RedisPool where
  "sample_pool = \<lparr> rp_url = ''redis://127.0.0.1'', rp_prefix = ''rift'' \<rparr>"

definition sample_entry :: LogEntry where
  "sample_entry = \<lparr> le_offset = 7, le_publisher_session = None, le_message_id = ''m'', le_class = ''event'', le_event = None,
     le_payload = [0x0F, 0xA0], le_timestamp = 0, le_appended_at = None \<rparr>"

definition sample_topics :: TopicStore where
  "sample_topics = [(''t'', (TopicEntry_new ''t'' TopicProfile_default)\<lparr>te_log := [sample_entry]\<rparr>)]"

definition sample_snapshot :: StoredSnapshot where
  "sample_snapshot = \<lparr> ss_snapshot_id = ''snap-7'', ss_topic = ''t'', ss_base_offset = 7, ss_payload = [0x0F, 0xA0],
     ss_created_at = 1000, ss_expires_at = Some 2500 \<rparr>"

theorem redis_snapshot_roundtrip_witness:
  "\<exists>r'. RedisSnapshotStore_capture view_redis sample_pool 1000 ''t'' sample_topics (Some 1500) (\<lambda>_. None)
      = (Some sample_snapshot, r') \<and>
    RedisSnapshotStore_get view_redis sample_pool 1999 ''t'' r' = Some sample_snapshot \<and>
    RedisSnapshotStore_get view_redis sample_pool 2000 ''t'' r' = None"
proof -
  have d: "dec_int 7 = ''7''" by code_simp
  have "redis_snapshot 1000 ''t'' sample_topics (Some 1500) = Some sample_snapshot"
    by (simp add: redis_snapshot_def sample_topics_def sample_entry_def sample_snapshot_def TopicStore_get_def d i64_defs)
  then obtain r' where c: "RedisSnapshotStore_capture view_redis sample_pool 1000 ''t'' sample_topics (Some 1500)
      (\<lambda>_. None) = (Some sample_snapshot, r')"
    by (simp add: RedisSnapshotStore_capture_def Let_def)
  have "fields_at 1000 ((\<lambda>_. None) (RedisSnapshotStore_snapshot_key sample_pool ''t'')) = Some (\<lambda>_. None, None)" by simp
  note get = redis_snapshot_roundtrip [OF view_redis_ok TrueI this c]
  show ?thesis using c get [of 1999] get [of 2000]
    by (simp add: sample_snapshot_def redis_key_expiry_def window_secs_def snapshot_expired_def i64_defs)
qed

text \<open>Two checks within a window, of keys not held before: the second is fresh exactly when
  the two pairs of topic and message id are not the same when joined with a colon.  A repeated id is
  caught, but so is another id of another topic, since names may hold colons.\<close>

theorem redis_dedupe_joined_key:
  assumes R: "redis_ok R val rinv" "rinv r"
    and free: "val r (member_key pool t m) = None" "val r (member_key pool t' m') = None"
    and now: "now' < now + 1000 * int (window_secs w)"
  shows "fst (RedisDedupeStore_check_and_record R pool now t m w r) \<and>
    (fst (RedisDedupeStore_check_and_record R pool now' t' m' w'
       (snd (RedisDedupeStore_check_and_record R pool now t m w r))) \<longleftrightarrow> t @ '':'' @ m \<noteq> t' @ '':'' @ m')"
proof -
  obtain r1 where 1: "RedisDedupeStore_check_and_record R pool now t m w r = (True, r1)" "rinv r1"
    "only_key val (member_key pool t m) r r1"
    "val r1 (member_key pool t m) = Some (RLock (now + 1000 * int (window_secs w)))"
    using redis_dedupe_check [OF R, of pool t m now w] free by auto
  have keys: "member_key pool t m = member_key pool t' m' \<longleftrightarrow> t @ '':'' @ m = t' @ '':'' @ m'" by (simp add: member_key_def)
  show ?thesis
  proof (cases "t @ '':'' @ m = t' @ '':'' @ m'")
    case True
    then have "val r1 (member_key pool t' m') = Some (RLock (now + 1000 * int (window_secs w)))" using 1 keys by simp
    then show ?thesis using redis_dedupe_check [OF R(1) 1(2), of pool t' m' now' w'] True 1 now by auto
  next
    case False
    then have "val r1 (member_key pool t' m') = None" using 1(3) keys free(2) by (simp add: only_key_def)
    then show ?thesis using redis_dedupe_check [OF R(1) 1(2), of pool t' m' now' w'] False 1 by auto
  qed
qed

theorem redis_dedupe_joined_key_witness:
  "fst (RedisDedupeStore_check_and_record view_redis sample_pool 0 ''a:b'' ''c'' 60000 (\<lambda>_. None)) \<and>
   \<not> fst (RedisDedupeStore_check_and_record view_redis sample_pool 5 ''a'' ''b:c'' 60000
        (snd (RedisDedupeStore_check_and_record view_redis sample_pool 0 ''a:b'' ''c'' 60000 (\<lambda>_. None)))) \<and>
   fst (RedisDedupeStore_check_and_record view_redis sample_pool 5 ''a'' ''c'' 60000
        (snd (RedisDedupeStore_check_and_record view_redis sample_pool 0 ''a:b'' ''c'' 60000 (\<lambda>_. None))))"
  using redis_dedupe_joined_key [OF view_redis_ok TrueI, of "\<lambda>_. None" sample_pool "''a:b''" "''c''" "''a''" "''b:c''" 5 0 60000 60000]
    redis_dedupe_joined_key [OF view_redis_ok TrueI, of "\<lambda>_. None" sample_pool "''a:b''" "''c''" "''a''" "''c''" 5 0 60000 60000]
  by (simp add: window_secs_def)

end
