(* ===== verification/Redis_Broker.thy ===== *)
theory Redis_Broker
  imports Redis_Stores Broker
begin

text \<open>
  The Redis broker (\<open>rifts-redis/src/broker.rs\<close>, \<open>fanout.rs\<close>) over the Redis stores, and several
  instances of it on one server.  A publish is also given as its separate awaits (\<open>publish_step\<close>),
  so that instances interleave between the commands of one publish.
\<close>

section \<open>The fanout bridge\<close>

record FanoutBridge =
  fb_fanout :: FanoutEngine
  fb_topics :: "(string, usize) hmap"

definition FanoutBridge_new :: FanoutBridge where
  "FanoutBridge_new = \<lparr> fb_fanout = FanoutEngine_new, fb_topics = [] \<rparr>"

definition FanoutBridge_ensure_topic :: "string \<Rightarrow> FanoutBridge \<Rightarrow> FanoutBridge" where
  "FanoutBridge_ensure_topic topic br =
    br\<lparr>fb_topics := hm_put topic (hm_get_or 0 (fb_topics br) topic + 1) (fb_topics br)\<rparr>"

definition FanoutBridge_drop_topic :: "string \<Rightarrow> FanoutBridge \<Rightarrow> FanoutBridge" where
  "FanoutBridge_drop_topic topic br = br\<lparr>fb_topics := hm_del topic (fb_topics br)\<rparr>"

definition FanoutBridge_deliver_to_local ::
  "'w sink_deliver \<Rightarrow> string \<Rightarrow> Frame \<Rightarrow> FanoutBridge \<Rightarrow> 'w \<Rightarrow> 'w" where
  "FanoutBridge_deliver_to_local deliver topic frame br w =
    snd (FanoutEngine_deliver deliver topic (serialize_frame_for_fanout frame 0) (fb_fanout br) w)"

definition FanoutBridge_subscribe ::
  "string \<Rightarrow> SubscribeIntent \<Rightarrow> sink_id \<Rightarrow> FanoutBridge \<Rightarrow> SubscriptionId \<times> FanoutBridge" where
  "FanoutBridge_subscribe topic intent sink br =
    (let br = FanoutBridge_ensure_topic topic br; (sid, f) = FanoutEngine_subscribe topic intent sink (fb_fanout br)
     in (sid, br\<lparr>fb_fanout := f\<rparr>))"

definition FanoutBridge_unsubscribe :: "SubscriptionId \<Rightarrow> FanoutBridge \<Rightarrow> string option \<times> FanoutBridge" where
  "FanoutBridge_unsubscribe sid br =
    (let (topic, f) = FanoutEngine_unsubscribe sid (fb_fanout br) in (topic, br\<lparr>fb_fanout := f\<rparr>))"

definition FanoutBridge_drop_sink :: "sink_id \<Rightarrow> FanoutBridge \<Rightarrow> string list \<times> FanoutBridge" where
  "FanoutBridge_drop_sink sink br =
    (let (topics, f) = FanoutEngine_drop_sink sink (fb_fanout br) in (topics, br\<lparr>fb_fanout := f\<rparr>))"

definition FanoutBridge_topic_subscriber_count :: "string \<Rightarrow> FanoutBridge \<Rightarrow> nat" where
  "FanoutBridge_topic_subscriber_count topic br = FanoutEngine_topic_subscriber_count topic (fb_fanout br)"

section \<open>The listener\<close>

definition fanout_prefix :: "RedisPool \<Rightarrow> string" where
  "fanout_prefix pool = rp_prefix pool @ '':fanout:''"

definition channel_topic :: "RedisPool \<Rightarrow> string \<Rightarrow> string" where
  "channel_topic pool channel =
    (if take (length (fanout_prefix pool)) channel = fanout_prefix pool
     then drop (length (fanout_prefix pool)) channel else channel)"

definition envelope_frame :: "Frame Serde \<Rightarrow> string \<Rightarrow> bytes \<Rightarrow> Frame" where
  "envelope_frame J topic payload =
    (case from_slice J payload of
       Some f \<Rightarrow> f\<lparr>fr_topic := Some topic\<rparr>
     | None \<Rightarrow> Frame_default\<lparr>fr_topic := Some topic, fr_payload := Some payload\<rparr>)"

definition FanoutBridge_on_message ::
  "Frame Serde \<Rightarrow> 'w sink_deliver \<Rightarrow> RedisPool \<Rightarrow> string \<times> bytes \<Rightarrow> FanoutBridge \<Rightarrow> 'w \<Rightarrow> 'w" where
  "FanoutBridge_on_message J deliver pool msg br w =
    (let topic = channel_topic pool (fst msg)
     in FanoutBridge_deliver_to_local deliver topic (envelope_frame J topic (snd msg)) br w)"

text \<open>The listener's connection: what it waits for and how long it sleeps after a failure.\<close>

datatype ListenPhase = Connecting | Listening | Stopped

record Listener =
  ls_phase :: ListenPhase
  ls_retry_count :: u32

datatype ListenEvent =
    OpenFailed | PubsubFailed | PsubscribeFailed | Psubscribed
  | OnMessage string bytes | StreamEnded | ShutdownNotified

definition listen_delay :: "u32 \<Rightarrow> nat" where
  "listen_delay retry_count = min (1000 * min (unat retry_count) 5) 30000"

definition listen_retry :: "Listener \<Rightarrow> Listener \<times> nat" where
  "listen_retry l = (let n = ls_retry_count l + 1 in (l\<lparr>ls_retry_count := n\<rparr>, listen_delay n))"

definition listen_step ::
  "Frame Serde \<Rightarrow> 'w sink_deliver \<Rightarrow> RedisPool \<Rightarrow> FanoutBridge \<Rightarrow> ListenEvent \<Rightarrow> Listener \<Rightarrow> 'w \<Rightarrow> Listener \<times> nat \<times> 'w" where
  "listen_step J deliver pool br ev l w =
    (case (ls_phase l, ev) of
       (Connecting, OpenFailed) \<Rightarrow> (let (l, d) = listen_retry l in (l, d, w))
     | (Connecting, PubsubFailed) \<Rightarrow> (let (l, d) = listen_retry l in (l, d, w))
     | (Connecting, PsubscribeFailed) \<Rightarrow> (let (l, d) = listen_retry l in (l, d, w))
     | (Connecting, Psubscribed) \<Rightarrow> (l\<lparr>ls_phase := Listening, ls_retry_count := 0\<rparr>, 0, w)
     | (Connecting, ShutdownNotified) \<Rightarrow> (l\<lparr>ls_phase := Stopped\<rparr>, 0, w)
     | (Listening, OnMessage channel payload) \<Rightarrow> (l, 0, FanoutBridge_on_message J deliver pool (channel, payload) br w)
     | (Listening, StreamEnded) \<Rightarrow> (l\<lparr>ls_phase := Connecting\<rparr>, 0, w)
     | (Listening, ShutdownNotified) \<Rightarrow> (l\<lparr>ls_phase := Stopped\<rparr>, 0, w)
     | _ \<Rightarrow> (l, 0, w))"

section \<open>The broker\<close>

record RedisActorBroker =
  rb_bridge :: FanoutBridge
  rb_max_payload_bytes :: usize

definition RedisActorBroker_new :: "usize \<Rightarrow> RedisActorBroker" where
  "RedisActorBroker_new max_payload = \<lparr> rb_bridge = FanoutBridge_new, rb_max_payload_bytes = max_payload \<rparr>"

definition RedisActorBroker_validate_publish :: "Frame \<Rightarrow> RedisActorBroker \<Rightarrow> (string \<times> string) rift_result" where
  "RedisActorBroker_validate_publish frame b =
    (case fr_topic frame of
       None \<Rightarrow> Inl (RiftError.Frame (FrameReject.RequiredFieldMissing ''topic''))
     | Some topic \<Rightarrow>
       (case fr_message_id frame of
          None \<Rightarrow> Inl (RiftError.Frame (FrameReject.RequiredFieldMissing ''message_id''))
        | Some message_id \<Rightarrow>
            if case fr_payload frame of Some p \<Rightarrow> unat (rb_max_payload_bytes b) < length p | None \<Rightarrow> False
            then Inl (RiftError.Message (MessageReject.TooLarge
                   (length (the (fr_payload frame))) (unat (rb_max_payload_bytes b))))
            else Inr (topic, message_id)))"

definition fanout_channel :: "RedisPool \<Rightarrow> string \<Rightarrow> string" where
  "fanout_channel pool topic = RedisPool_topic_key pool ''fanout'' topic"

definition frame_envelope :: "Frame Serde \<Rightarrow> Frame \<Rightarrow> bytes" where
  "frame_envelope J frame = (case to_vec J frame of Some b \<Rightarrow> b | None \<Rightarrow> [])"

text \<open>The outcome, the server, the local sinks and what was sent with \<open>PUBLISH\<close>.\<close>

definition RedisActorBroker_publish ::
  "'r Redis \<Rightarrow> LogEntry Serde \<Rightarrow> Frame Serde \<Rightarrow> 'w sink_deliver \<Rightarrow> RedisPool \<Rightarrow> i64 \<Rightarrow> Frame \<Rightarrow> RedisActorBroker
    \<Rightarrow> 'r \<Rightarrow> 'w \<Rightarrow> PublishOutcome rift_result \<times> 'r \<times> 'w \<times> (string \<times> bytes) option" where
  "RedisActorBroker_publish R S J deliver pool now frame b r w =
    (case RedisActorBroker_validate_publish frame b of
       Inl e \<Rightarrow> (Inl e, r, w, None)
     | Inr (topic, message_id) \<Rightarrow>
    (case validate_name topic of
       Inl e \<Rightarrow> (Inl e, r, w, None)
     | Inr _ \<Rightarrow>
         let (fresh, r) = RedisDedupeStore_check_and_record R pool now topic message_id 60000 r;
             duplicate = (\<not> fresh);
             (offset, r) = RedisOffsetStore_alloc R pool topic r;
             r = RedisLogStore_append R S pool now topic (publish_entry frame message_id offset) Durable r
         in if \<not> duplicate
            then (Inr \<lparr> po_offset = offset, po_duplicate = duplicate \<rparr>, r,
                  snd (FanoutEngine_deliver deliver topic (serialize_frame_for_fanout frame offset)
                    (fb_fanout (rb_bridge b)) w),
                  Some (fanout_channel pool topic, frame_envelope J frame))
            else (Inr \<lparr> po_offset = offset, po_duplicate = duplicate \<rparr>, r, w, None)))"

definition RedisActorBroker_subscribe ::
  "string \<Rightarrow> SubscribeIntent \<Rightarrow> sink_id \<Rightarrow> RedisActorBroker \<Rightarrow> SubscriptionId rift_result \<times> RedisActorBroker" where
  "RedisActorBroker_subscribe topic intent sink b =
    (case validate_name topic of
       Inl e \<Rightarrow> (Inl e, b)
     | Inr _ \<Rightarrow> let (sid, br) = FanoutBridge_subscribe topic intent sink (rb_bridge b) in (Inr sid, b\<lparr>rb_bridge := br\<rparr>))"

definition RedisActorBroker_unsubscribe :: "SubscriptionId \<Rightarrow> RedisActorBroker \<Rightarrow> bool rift_result \<times> RedisActorBroker" where
  "RedisActorBroker_unsubscribe sid b =
    (let (topic, br) = FanoutBridge_unsubscribe sid (rb_bridge b) in (Inr (topic \<noteq> None), b\<lparr>rb_bridge := br\<rparr>))"

definition RedisActorBroker_drop_sink :: "sink_id \<Rightarrow> RedisActorBroker \<Rightarrow> nat \<times> RedisActorBroker" where
  "RedisActorBroker_drop_sink sink b =
    (let (topics, br) = FanoutBridge_drop_sink sink (rb_bridge b) in (length topics, b\<lparr>rb_bridge := br\<rparr>))"

definition RedisActorBroker_replay ::
  "'r Redis \<Rightarrow> LogEntry Serde \<Rightarrow> RedisPool \<Rightarrow> string \<Rightarrow> i64 \<Rightarrow> i64 \<Rightarrow> 'r \<Rightarrow> bytes list rift_result" where
  "RedisActorBroker_replay R S pool topic lo hi r = Inr (map le_payload (RedisLogStore_range R S pool topic lo hi r))"

definition RedisActorBroker_snapshot ::
  "'r Redis \<Rightarrow> RedisPool \<Rightarrow> i64 \<Rightarrow> string \<Rightarrow> 'r \<Rightarrow> StoredSnapshot option rift_result" where
  "RedisActorBroker_snapshot R pool now topic r = Inr (RedisSnapshotStore_get R pool now topic r)"

definition RedisActorBroker_subscriber_count :: "string \<Rightarrow> RedisActorBroker \<Rightarrow> nat" where
  "RedisActorBroker_subscriber_count topic b = FanoutBridge_topic_subscriber_count topic (rb_bridge b)"

definition RedisActorBroker_head_offset :: "'r Redis \<Rightarrow> RedisPool \<Rightarrow> string \<Rightarrow> 'r \<Rightarrow> i64" where
  "RedisActorBroker_head_offset R pool topic r = RedisOffsetStore_head R pool topic r"

section \<open>A publish as its awaits\<close>

text \<open>
  Where a publish stands: before the duplicate check, before the offset, before the log, before the
  local delivery, before \<open>PUBLISH\<close>, done.
\<close>

datatype PubPhase =
    PubDedupe Frame string string
  | PubAlloc Frame string string bool
  | PubAppend Frame string string bool i64
  | PubFan Frame string string i64
  | PubSend Frame string string i64
  | PubDone Frame string string bool i64

definition publish_begin :: "Frame \<Rightarrow> RedisActorBroker \<Rightarrow> PubPhase rift_result" where
  "publish_begin frame b =
    (case RedisActorBroker_validate_publish frame b of
       Inl e \<Rightarrow> Inl e
     | Inr (topic, message_id) \<Rightarrow>
         (case validate_name topic of Inl e \<Rightarrow> Inl e | Inr _ \<Rightarrow> Inr (PubDedupe frame topic message_id)))"

fun publish_step ::
  "'r Redis \<Rightarrow> LogEntry Serde \<Rightarrow> Frame Serde \<Rightarrow> 'w sink_deliver \<Rightarrow> RedisPool \<Rightarrow> i64 \<Rightarrow> RedisActorBroker
    \<Rightarrow> PubPhase \<Rightarrow> 'r \<Rightarrow> 'w \<Rightarrow> PubPhase \<times> 'r \<times> 'w \<times> (string \<times> bytes) option" where
  "publish_step R S J deliver pool now b (PubDedupe f t m) r w =
    (case RedisDedupeStore_check_and_record R pool now t m 60000 r of (fresh, r') \<Rightarrow> (PubAlloc f t m (\<not> fresh), r', w, None))"
| "publish_step R S J deliver pool now b (PubAlloc f t m dup) r w =
    (case RedisOffsetStore_alloc R pool t r of (off, r') \<Rightarrow> (PubAppend f t m dup off, r', w, None))"
| "publish_step R S J deliver pool now b (PubAppend f t m dup off) r w =
    (if dup then PubDone f t m True off else PubFan f t m off,
     RedisLogStore_append R S pool now t (publish_entry f m off) Durable r, w, None)"
| "publish_step R S J deliver pool now b (PubFan f t m off) r w =
    (PubSend f t m off, r,
     snd (FanoutEngine_deliver deliver t (serialize_frame_for_fanout f off) (fb_fanout (rb_bridge b)) w), None)"
| "publish_step R S J deliver pool now b (PubSend f t m off) r w =
    (PubDone f t m False off, r, w, Some (fanout_channel pool t, frame_envelope J f))"
| "publish_step R S J deliver pool now b (PubDone f t m dup off) r w = (PubDone f t m dup off, r, w, None)"

text \<open>The steps of one publish run alone, with the messages it sent.\<close>

primrec publish_steps ::
  "'r Redis \<Rightarrow> LogEntry Serde \<Rightarrow> Frame Serde \<Rightarrow> 'w sink_deliver \<Rightarrow> RedisPool \<Rightarrow> i64 \<Rightarrow> RedisActorBroker \<Rightarrow> nat
    \<Rightarrow> PubPhase \<Rightarrow> 'r \<Rightarrow> 'w \<Rightarrow> PubPhase \<times> 'r \<times> 'w \<times> (string \<times> bytes) list" where
  "publish_steps R S J deliver pool now b 0 p r w = (p, r, w, [])"
| "publish_steps R S J deliver pool now b (Suc n) p r w =
    (case publish_step R S J deliver pool now b p r w of
       (p', r', w', msg) \<Rightarrow>
         (case publish_steps R S J deliver pool now b n p' r' w' of
            (p'', r'', w'', msgs) \<Rightarrow> (p'', r'', w'', (case msg of Some x \<Rightarrow> x # msgs | None \<Rightarrow> msgs))))"

section \<open>Instances on one server\<close>

record ('r, 'w) RedisCluster =
  rc_redis :: 'r
  rc_world :: 'w
  rc_nodes :: "RedisActorBroker list"
  rc_inboxes :: "(string \<times> bytes) list list"
  rc_tasks :: "(nat \<times> PubPhase) list"

datatype ClusterOp =
    CBegin nat Frame
  | CStep nat i64
  | CSubscribe nat string SubscribeIntent sink_id
  | CUnsubscribe nat SubscriptionId
  | CDropSink nat sink_id
  | CListen nat

definition cluster_node :: "nat \<Rightarrow> (RedisActorBroker \<Rightarrow> 'x \<times> RedisActorBroker) \<Rightarrow> ('r, 'w) RedisCluster \<Rightarrow> ('r, 'w) RedisCluster" where
  "cluster_node i f c = (if i < length (rc_nodes c) then c\<lparr>rc_nodes := (rc_nodes c)[i := snd (f (rc_nodes c ! i))]\<rparr> else c)"

text \<open>Every instance's listener receives what is sent with \<open>PUBLISH\<close>, the sender's included.\<close>

fun cluster_apply ::
  "'r Redis \<Rightarrow> LogEntry Serde \<Rightarrow> Frame Serde \<Rightarrow> (nat \<Rightarrow> 'w sink_deliver) \<Rightarrow> RedisPool \<Rightarrow> ClusterOp
    \<Rightarrow> ('r, 'w) RedisCluster \<Rightarrow> ('r, 'w) RedisCluster" where
  "cluster_apply R S J deliver pool (CBegin i frame) c =
    (if i < length (rc_nodes c)
     then (case publish_begin frame (rc_nodes c ! i) of
             Inl _ \<Rightarrow> c
           | Inr p \<Rightarrow> c\<lparr>rc_tasks := rc_tasks c @ [(i, p)]\<rparr>)
     else c)"
| "cluster_apply R S J deliver pool (CStep k now) c =
    (if k < length (rc_tasks c)
     then (case rc_tasks c ! k of
             (i, p) \<Rightarrow>
               (case publish_step R S J (deliver i) pool now (rc_nodes c ! i) p (rc_redis c) (rc_world c) of
                  (p', r', w', msg) \<Rightarrow>
                    c\<lparr>rc_redis := r', rc_world := w', rc_tasks := (rc_tasks c)[k := (i, p')],
                      rc_inboxes := (case msg of Some x \<Rightarrow> map (\<lambda>q. q @ [x]) (rc_inboxes c) | None \<Rightarrow> rc_inboxes c)\<rparr>))
     else c)"
| "cluster_apply R S J deliver pool (CSubscribe i t intent sink) c =
    cluster_node i (RedisActorBroker_subscribe t intent sink) c"
| "cluster_apply R S J deliver pool (CUnsubscribe i sid) c = cluster_node i (RedisActorBroker_unsubscribe sid) c"
| "cluster_apply R S J deliver pool (CDropSink i sink) c = cluster_node i (RedisActorBroker_drop_sink sink) c"
| "cluster_apply R S J deliver pool (CListen i) c =
    (if i < length (rc_nodes c) \<and> i < length (rc_inboxes c)
     then (case rc_inboxes c ! i of
             [] \<Rightarrow> c
           | msg # rest \<Rightarrow>
               c\<lparr>rc_inboxes := (rc_inboxes c)[i := rest],
                 rc_world := FanoutBridge_on_message J (deliver i) pool msg (rb_bridge (rc_nodes c ! i)) (rc_world c)\<rparr>)
     else c)"

definition cluster_run ::
  "'r Redis \<Rightarrow> LogEntry Serde \<Rightarrow> Frame Serde \<Rightarrow> (nat \<Rightarrow> 'w sink_deliver) \<Rightarrow> RedisPool \<Rightarrow> ClusterOp list
    \<Rightarrow> ('r, 'w) RedisCluster \<Rightarrow> ('r, 'w) RedisCluster" where
  "cluster_run R S J deliver pool ops c = foldl (\<lambda>c op. cluster_apply R S J deliver pool op c) c ops"

definition cluster_new :: "'r \<Rightarrow> 'w \<Rightarrow> usize list \<Rightarrow> ('r, 'w) RedisCluster" where
  "cluster_new r w maxes =
    \<lparr> rc_redis = r, rc_world = w, rc_nodes = map RedisActorBroker_new maxes, rc_inboxes = map (\<lambda>_. []) maxes, rc_tasks = [] \<rparr>"

text \<open>The offset a publish on a topic was given, and the entry it has stored.\<close>

fun task_offset :: "string \<Rightarrow> PubPhase \<Rightarrow> i64 option" where
  "task_offset t (PubAppend f t' m dup off) = (if t' = t then Some off else None)"
| "task_offset t (PubFan f t' m off) = (if t' = t then Some off else None)"
| "task_offset t (PubSend f t' m off) = (if t' = t then Some off else None)"
| "task_offset t (PubDone f t' m dup off) = (if t' = t then Some off else None)"
| "task_offset t _ = None"

fun task_entry :: "string \<Rightarrow> PubPhase \<Rightarrow> LogEntry option" where
  "task_entry t (PubFan f t' m off) = (if t' = t then Some (publish_entry f m off) else None)"
| "task_entry t (PubSend f t' m off) = (if t' = t then Some (publish_entry f m off) else None)"
| "task_entry t (PubDone f t' m dup off) = (if t' = t then Some (publish_entry f m off) else None)"
| "task_entry t _ = None"

definition allocated :: "string \<Rightarrow> (nat \<times> PubPhase) list \<Rightarrow> i64 list" where
  "allocated t tasks = List.map_filter (task_offset t) (map snd tasks)"

definition stored :: "string \<Rightarrow> (nat \<times> PubPhase) list \<Rightarrow> LogEntry list" where
  "stored t tasks = List.map_filter (task_entry t) (map snd tasks)"

section \<open>Changing one task\<close>

lemma allocated_same:
  "k < length tasks \<Longrightarrow> task_offset t p = task_offset t (snd (tasks ! k)) \<Longrightarrow> allocated t (tasks[k := (i, p)]) = allocated t tasks"
  by (simp add: allocated_def map_update map_filter_same)

lemma allocated_new:
  assumes "k < length tasks" "task_offset t (snd (tasks ! k)) = None" "task_offset t p = Some z"
  shows "set (allocated t (tasks[k := (i, p)])) = insert z (set (allocated t tasks))"
    "distinct (allocated t (tasks[k := (i, p)])) \<longleftrightarrow> z \<notin> set (allocated t tasks) \<and> distinct (allocated t tasks)"
  using assms map_filter_new [of k "map snd tasks" "task_offset t" p z] by (simp_all add: allocated_def map_update)

lemma stored_same:
  "k < length tasks \<Longrightarrow> task_entry t p = task_entry t (snd (tasks ! k)) \<Longrightarrow> stored t (tasks[k := (i, p)]) = stored t tasks"
  by (simp add: stored_def map_update map_filter_same)

lemma stored_new:
  assumes "k < length tasks" "task_entry t (snd (tasks ! k)) = None" "task_entry t p = Some z"
  shows "set (stored t (tasks[k := (i, p)])) = insert z (set (stored t tasks))"
  using assms map_filter_new(1) [of k "map snd tasks" "task_entry t" p z] by (simp add: stored_def map_update)

lemma task_entry_offset: "task_entry t p = Some e \<Longrightarrow> task_offset t p = Some (le_offset e)"
  by (cases p) (auto simp: publish_entry_def split: if_splits)

lemma stored_allocated: "le_offset ` set (stored t tasks) \<subseteq> set (allocated t tasks)"
  by (force simp: stored_def allocated_def List.map_filter_def dest: task_entry_offset)

text \<open>A publish that has not stored its entry yet holds an offset no stored entry has.\<close>

lemma pending_offset_fresh:
  assumes k: "k < length tasks" and d: "distinct (allocated t tasks)"
    and p: "task_offset t (snd (tasks ! k)) = Some off" "task_entry t (snd (tasks ! k)) = None"
  shows "off \<notin> le_offset ` set (stored t tasks)"
proof -
  let ?old = "tasks[k := (0, PubDedupe Frame_default [] [])]"
  have "distinct (allocated t (?old[k := (fst (tasks ! k), snd (tasks ! k))]))" using d by (simp add: list_update_id)
  then have "off \<notin> set (allocated t ?old)"
    using allocated_new(2) [of k ?old t "snd (tasks ! k)" off "fst (tasks ! k)"] k p(1) by simp
  moreover have "stored t ?old = stored t tasks" using k p(2) by (intro stored_same) auto
  ultimately show ?thesis using stored_allocated [of t ?old] by auto
qed

section \<open>The invariant of the server\<close>

definition redis_server_ok ::
  "LogEntry Serde \<Rightarrow> RedisPool \<Rightarrow> (string \<Rightarrow> RVal option) \<Rightarrow> (nat \<times> PubPhase) list \<Rightarrow> nat \<Rightarrow> bool" where
  "redis_server_ok S pool v tasks n \<longleftrightarrow>
    (\<exists>c. counts_of (v (RedisOffsetStore_hash_key pool)) = Some c \<and>
      (\<forall>t. 0 \<le> count_or_0 c t \<and> count_or_0 c t \<le> int n \<and> distinct (allocated t tasks) \<and>
         set (allocated t tasks) = {1..count_or_0 c t})) \<and>
    (\<forall>t. \<exists>es. redis_log_holds S (v (RedisLogStore_log_key pool t)) es \<and> set es = set (stored t tasks)) \<and>
    (\<forall>t m. v (member_key pool t m) = None \<or> (\<exists>e. v (member_key pool t m) = Some (RLock e)))"

lemma redis_server_ok_mono: "redis_server_ok S pool v tasks n \<Longrightarrow> n \<le> n' \<Longrightarrow> redis_server_ok S pool v tasks n'"
  unfolding redis_server_ok_def by (meson of_nat_mono order_trans)

lemma redis_server_ok_tasks:
  assumes "redis_server_ok S pool v tasks n" "\<And>t. allocated t tasks' = allocated t tasks" "\<And>t. stored t tasks' = stored t tasks"
  shows "redis_server_ok S pool v tasks' n"
  using assms by (simp add: redis_server_ok_def)

lemma redis_server_ok_dedupe:
  assumes ok: "redis_server_ok S pool (val r) tasks n" and R: "redis_ok R val rinv" "rinv r"
    and c: "RedisDedupeStore_check_and_record R pool now t m w r = (fresh, r')"
  shows "rinv r' \<and> redis_server_ok S pool (val r') tasks n"
proof -
  have "val r (member_key pool t m) = None \<or> (\<exists>e. val r (member_key pool t m) = Some (RLock e))"
    using ok by (simp add: redis_server_ok_def)
  from redis_dedupe_check [OF R this, of now w] c
  have r': "rinv r'" "only_key val (member_key pool t m) r r'"
    "val r' (member_key pool t m) = None \<or> (\<exists>e. val r' (member_key pool t m) = Some (RLock e))"
    using \<open>val r (member_key pool t m) = None \<or> _\<close> by (auto split: if_splits)
  have same: "val r' k = val r k" if "k \<noteq> member_key pool t m" for k using r'(2) that by (simp add: only_key_def)
  have "val r' (member_key pool t' m') = None \<or> (\<exists>e. val r' (member_key pool t' m') = Some (RLock e))" for t' m'
    using ok r'(3) same [of "member_key pool t' m'"]
    by (cases "member_key pool t' m' = member_key pool t m") (auto simp: redis_server_ok_def)
  then show ?thesis using ok r'(1) by (simp add: redis_server_ok_def same)
qed

lemma redis_server_ok_alloc:
  assumes ok: "redis_server_ok S pool (val r) tasks n" and R: "redis_ok R val rinv" "rinv r" and n: "int n < i64_max"
    and k: "k < length tasks" "snd (tasks ! k) = PubAlloc f t m dup"
    and a: "RedisOffsetStore_alloc R pool t r = (off, r')"
  shows "rinv r' \<and> redis_server_ok S pool (val r') (tasks[k := (i, PubAppend f t m dup off)]) (Suc n)"
proof -
  let ?h = "RedisOffsetStore_hash_key pool" and ?ts = "tasks[k := (i, PubAppend f t m dup off)]"
  obtain c where c: "counts_of (val r ?h) = Some c"
    and b: "\<And>t. 0 \<le> count_or_0 c t \<and> count_or_0 c t \<le> int n \<and> distinct (allocated t tasks) \<and>
      set (allocated t tasks) = {1..count_or_0 c t}"
    using ok by (auto simp: redis_server_ok_def)
  obtain r'' where "RedisOffsetStore_alloc R pool t r = (count_or_0 c t + 1, r'')" "rinv r''" "only_key val ?h r r''"
    "counts_of (val r'' ?h) = Some (c(t \<mapsto> count_or_0 c t + 1))"
    using redis_alloc [OF R c, of t] b [of t] n by auto
  then have r': "off = count_or_0 c t + 1" "rinv r'" "only_key val ?h r r'" "counts_of (val r' ?h) = Some (c(t \<mapsto> off))"
    using a by auto
  have same: "val r' x = val r x" if "x \<noteq> ?h" for x using r'(3) that by (simp add: only_key_def)
  have "0 \<le> count_or_0 (c(t \<mapsto> off)) t' \<and> count_or_0 (c(t \<mapsto> off)) t' \<le> int (Suc n) \<and> distinct (allocated t' ?ts) \<and>
      set (allocated t' ?ts) = {1..count_or_0 (c(t \<mapsto> off)) t'}" for t'
  proof (cases "t' = t")
    case True
    have "insert off {1..count_or_0 c t} = {1..off}" using r'(1) b [of t] by auto
    moreover have "count_or_0 (c(t \<mapsto> off)) t = off" by (simp add: count_or_0_def)
    ultimately show ?thesis using True b [of t] r'(1) k allocated_new [of k tasks t "PubAppend f t m dup off" off i] by simp
  next
    case False
    then have "allocated t' ?ts = allocated t' tasks" using k by (intro allocated_same) auto
    then show ?thesis using False b [of t'] by (simp add: count_or_0_def)
  qed
  moreover have "stored t' ?ts = stored t' tasks" for t' using k by (intro stored_same) auto
  ultimately show ?thesis using ok r'(2,4) by (auto simp: redis_server_ok_def same)
qed

lemma redis_server_ok_append:
  fixes now :: i64
  assumes ok: "redis_server_ok S pool (val r) tasks n" and R: "redis_ok R val rinv" "rinv r" and S: "serde_ok S"
    and n: "int n < 2 ^ 53" and e: "to_vec S (publish_entry f m off) \<noteq> None"
    and k: "k < length tasks" "snd (tasks ! k) = PubAppend f t m dup off"
    and p: "\<And>t'. task_offset t' p = task_offset t' (PubAppend f t m dup off)"
      "\<And>t'. task_entry t' p = (if t' = t then Some (publish_entry f m off) else None)"
  defines "r' \<equiv> RedisLogStore_append R S pool now t (publish_entry f m off) Durable r"
  shows "rinv r' \<and> redis_server_ok S pool (val r') (tasks[k := (i, p)]) n"
proof -
  let ?l = "RedisLogStore_log_key pool" and ?ts = "tasks[k := (i, p)]" and ?e = "publish_entry f m off"
  obtain c where b: "distinct (allocated t tasks)" "set (allocated t tasks) = {1..count_or_0 c t}" "count_or_0 c t \<le> int n"
    using ok unfolding redis_server_ok_def by blast
  obtain es where es: "redis_log_holds S (val r (?l t)) es" "set es = set (stored t tasks)" using ok unfolding redis_server_ok_def by blast
  have po: "task_offset t (snd (tasks ! k)) = Some off" "task_entry t (snd (tasks ! k)) = None" using k by simp_all
  then have "off \<in> set (allocated t tasks)" using k(1) by (force simp: allocated_def List.map_filter_def)
  then have ent: "redis_entry_ok S ?e" using e b(2,3) n by (simp add: redis_entry_ok_def publish_entry_def)
  have new: "le_offset ?e \<notin> le_offset ` set es"
    using pending_offset_fresh [OF k(1) b(1) po] es(2) by (simp add: publish_entry_def)
  note ap = redis_append_durable [OF R(1) S R(2) es(1) ent new, of now, folded r'_def]
  have same: "val r' x = val r x" if "x \<noteq> ?l t" for x using ap(2) that by (simp add: only_key_def)
  have al: "allocated t' ?ts = allocated t' tasks" for t' using k p(1) by (intro allocated_same) auto
  have "\<exists>es. redis_log_holds S (val r' (?l t')) es \<and> set es = set (stored t' ?ts)" for t'
  proof (cases "t' = t")
    case True
    have "set (stored t ?ts) = insert ?e (set (stored t tasks))" using stored_new [OF k(1) po(2), of p ?e i] p(2) by simp
    then show ?thesis using True ap(3) es(2) by (intro exI [of _ "insort_key le_offset ?e es"]) (simp add: set_insort_key)
  next
    case False
    then have "stored t' ?ts = stored t' tasks" using k p(2) by (intro stored_same) auto
    then show ?thesis using False ok same [of "?l t'"] by (simp add: redis_server_ok_def)
  qed
  then show ?thesis using ok ap(1) by (simp add: redis_server_ok_def same al)
qed

lemma publish_begin_phase: "publish_begin frame b = Inr p \<Longrightarrow> \<exists>t m. p = PubDedupe frame t m"
  by (auto simp: publish_begin_def split: sum.splits)

lemma redis_server_ok_begin: "redis_server_ok S pool v tasks n \<Longrightarrow> redis_server_ok S pool v (tasks @ [(i, PubDedupe f t m)]) n"
  by (rule redis_server_ok_tasks) (simp_all add: allocated_def stored_def List.map_filter_def)

lemma redis_server_ok_step:
  assumes ok: "redis_server_ok S pool (val r) tasks n" and R: "redis_ok R val rinv" "rinv r" and S: "serde_ok S"
    and e: "\<forall>e. le_appended_at e = None \<longrightarrow> to_vec S e \<noteq> None" and n: "int n < 2 ^ 53"
    and k: "k < length tasks" "tasks ! k = (i, p)"
    and st: "publish_step R S J deliver pool now b p r w = (p', r', w', msg)"
  shows "rinv r' \<and> redis_server_ok S pool (val r') (tasks[k := (i, p')]) (Suc n)"
proof (cases p)
  case (PubDedupe f t m)
  then obtain fresh where p': "p' = PubAlloc f t m (\<not> fresh)"
    and c: "RedisDedupeStore_check_and_record R pool now t m 60000 r = (fresh, r')" using st by (auto split: prod.splits)
  have "redis_server_ok S pool (val r') (tasks[k := (i, p')]) n"
    using redis_server_ok_dedupe [OF ok R c] k PubDedupe p'
    by (auto intro!: redis_server_ok_tasks [of _ _ _ tasks] allocated_same stored_same)
  then show ?thesis using redis_server_ok_dedupe [OF ok R c] redis_server_ok_mono [of S pool "val r'" _ n "Suc n"] by auto
next
  case (PubAlloc f t m dup)
  then obtain off where p': "p' = PubAppend f t m dup off" and a: "RedisOffsetStore_alloc R pool t r = (off, r')"
    using st by (auto split: prod.splits)
  have "int n < i64_max" using n by (simp add: i64_max_def)
  from redis_server_ok_alloc [OF ok R this k(1) _ a] show ?thesis using PubAlloc k(2) p' by simp
next
  case (PubAppend f t m dup off)
  have "to_vec S (publish_entry f m off) \<noteq> None" using e by (simp add: publish_entry_def)
  note step = redis_server_ok_append [OF ok R S n this k(1), of t dup, where now = now and i = i]
  have "rinv r' \<and> redis_server_ok S pool (val r') (tasks[k := (i, p')]) n"
    using st k PubAppend step [of "PubDone f t m True off"] step [of "PubFan f t m off"] by (auto split: if_splits)
  then show ?thesis using redis_server_ok_mono [of S pool "val r'" _ n "Suc n"] by auto
next
  case (PubFan f t m off)
  then show ?thesis using st R(2) k redis_server_ok_mono [OF ok, of "Suc n"]
    by (auto intro!: redis_server_ok_tasks [of _ _ _ tasks] allocated_same stored_same)
next
  case (PubSend f t m off)
  then show ?thesis using st R(2) k redis_server_ok_mono [OF ok, of "Suc n"]
    by (auto intro!: redis_server_ok_tasks [of _ _ _ tasks] allocated_same stored_same)
next
  case (PubDone f t m dup off)
  then show ?thesis using st R(2) k redis_server_ok_mono [OF ok, of "Suc n"]
    by (auto intro!: redis_server_ok_tasks [of _ _ _ tasks] allocated_same stored_same)
qed

lemma cluster_apply_ok:
  assumes R: "redis_ok R val rinv" and S: "serde_ok S" "\<forall>e. le_appended_at e = None \<longrightarrow> to_vec S e \<noteq> None"
    and n: "int n < 2 ^ 53" and c: "rinv (rc_redis c)" "redis_server_ok S pool (val (rc_redis c)) (rc_tasks c) n"
    and c': "c' = cluster_apply R S J deliver pool op c"
  shows "rinv (rc_redis c') \<and> redis_server_ok S pool (val (rc_redis c')) (rc_tasks c') (Suc n)"
proof -
  have up: "redis_server_ok S pool (val (rc_redis c)) (rc_tasks c) (Suc n)" using redis_server_ok_mono [OF c(2)] by simp
  show ?thesis
  proof (cases op)
    case (CBegin i f)
    then show ?thesis using c(1) up redis_server_ok_begin [OF up]
      by (auto simp: c' split: sum.split dest!: publish_begin_phase)
  next
    case (CStep k now)
    then show ?thesis using c(1) up
      by (auto simp: c' split: prod.split dest: redis_server_ok_step [OF c(2) R c(1) S n])
  qed (use c(1) up in \<open>auto simp: c' cluster_node_def split: list.split\<close>)
qed

lemma cluster_run_ok:
  assumes R: "redis_ok R val rinv" and S: "serde_ok S" "\<forall>e. le_appended_at e = None \<longrightarrow> to_vec S e \<noteq> None"
  shows "\<lbrakk>int (n + length ops) \<le> 2 ^ 53; rinv (rc_redis c); redis_server_ok S pool (val (rc_redis c)) (rc_tasks c) n\<rbrakk> \<Longrightarrow>
    rinv (rc_redis (cluster_run R S J deliver pool ops c)) \<and>
    redis_server_ok S pool (val (rc_redis (cluster_run R S J deliver pool ops c))) (rc_tasks (cluster_run R S J deliver pool ops c))
      (n + length ops)"
proof (induction ops arbitrary: c n)
  case (Cons op ops)
  then show ?case using cluster_apply_ok [OF R S _ Cons.prems(2,3) refl, of J deliver op]
    Cons.IH [of "Suc n" "cluster_apply R S J deliver pool op c"] by (simp add: cluster_run_def)
qed (simp add: cluster_run_def)

lemma cluster_new_ok:
  assumes "\<forall>k. val r k = None"
  shows "redis_server_ok S pool (val (rc_redis (cluster_new r w maxes))) (rc_tasks (cluster_new r w maxes)) 0"
  using assms
  by (auto simp: redis_server_ok_def cluster_new_def count_or_0_def allocated_def stored_def List.map_filter_def
      redis_log_holds_def)

end
