(* ===== verification/Redis_Properties.thy ===== *)
theory Redis_Properties
  imports Redis_Broker Broker_Properties
begin

text \<open>
  Properties of the Redis broker: every interleaving of instances on one server keeps the log exact,
  the key types right and the offsets consecutive; what an outage and the publisher's own listener
  do to a message.
\<close>

section \<open>The stores on a documented server\<close>

interpretation redis_offsets: offset_store "RedisOffsetStore_alloc view_redis sample_pool"
  "RedisOffsetStore_head view_redis sample_pool" "RedisOffsetStore_remove view_redis sample_pool"
  "\<lambda>v. True \<and> redis_offsets_ok sample_pool v" "\<lambda>_. True"
  by (rule redis_offset_store [OF view_redis_ok])

interpretation redis_log: log_store "RedisLogStore_append view_redis entry_serde sample_pool"
  "RedisLogStore_range view_redis entry_serde sample_pool" "RedisLogStore_latest view_redis entry_serde sample_pool"
  "RedisLogStore_remove view_redis sample_pool" "redis_entries entry_serde sample_pool" redis_retain
  "\<lambda>v. True \<and> redis_log_ok entry_serde sample_pool v" "\<lambda>_. True" "redis_entry_ok entry_serde"
  by (rule redis_log_store [OF view_redis_ok entry_serde_ok])

section \<open>One publish and its steps\<close>

definition publish_result ::
  "PubPhase \<times> 'r \<times> 'w \<times> (string \<times> bytes) list \<Rightarrow> (PublishOutcome rift_result \<times> 'r \<times> 'w \<times> (string \<times> bytes) option) option" where
  "publish_result x =
    (case x of
       (PubDone f t m dup off, r, w, msgs) \<Rightarrow>
         Some (Inr \<lparr> po_offset = off, po_duplicate = dup \<rparr>, r, w, if msgs = [] then None else Some (hd msgs))
     | _ \<Rightarrow> None)"

lemma publish_steps_done:
  "publish_steps R S J deliver pool now b n (PubDone f t m dup off) r w = (PubDone f t m dup off, r, w, [])"
  by (induction n) auto

lemma publish_begin_cases:
  "publish_begin f b = Inl e \<Longrightarrow> RedisActorBroker_publish R S J deliver pool now f b r w = (Inl e, r, w, None)"
  by (auto simp: publish_begin_def RedisActorBroker_publish_def split: sum.splits prod.splits)

lemma publish_begin_done:
  "publish_begin f b = Inr p \<Longrightarrow>
    publish_result (publish_steps R S J deliver pool now b 5 p r w) =
      Some (RedisActorBroker_publish R S J deliver pool now f b r w)"
proof -
  assume p: "publish_begin f b = Inr p"
  then obtain t m u where v: "RedisActorBroker_validate_publish f b = Inr (t, m)" "validate_name t = Inr u"
    and pe: "p = PubDedupe f t m" by (auto simp: publish_begin_def split: sum.splits)
  obtain fresh r1 where d: "RedisDedupeStore_check_and_record R pool now t m 60000 r = (fresh, r1)" by (rule prod.exhaust)
  obtain off r2 where a: "RedisOffsetStore_alloc R pool t r1 = (off, r2)" by (rule prod.exhaust)
  have five: "5 = Suc (Suc (Suc (Suc (Suc 0))))" by simp
  show ?thesis unfolding five
    by (cases fresh) (simp_all add: RedisActorBroker_publish_def v pe d a publish_result_def publish_steps_done Let_def)
qed

section \<open>The log after a run\<close>

lemma strictly_sorted_unique:
  fixes f :: "'a \<Rightarrow> 'b :: linorder"
  assumes "sorted_wrt (<) (map f xs)" "sorted_wrt (<) (map f ys)" "set xs = set ys"
  shows "xs = ys"
proof -
  have "map f xs = map f ys" using assms by (intro strict_sorted_equal) auto
  moreover have "inj_on f (set xs \<union> set ys)"
    using assms by (simp add: strict_sorted_iff distinct_map)
  ultimately show ?thesis by (simp add: inj_on_map_eq_map)
qed

lemma filter_key_unique:
  fixes f :: "'a \<Rightarrow> 'b :: linorder"
  shows "sorted_wrt (<) (map f xs) \<Longrightarrow> x \<in> set xs \<Longrightarrow> filter (\<lambda>y. f x \<le> f y \<and> f y \<le> f x) xs = [x]"
proof (induction xs)
  case (Cons y ys)
  show ?case
  proof (cases "y = x")
    case True
    then have "\<forall>z \<in> set ys. \<not> (f x \<le> f z \<and> f z \<le> f x)" using Cons.prems(1) by auto
    then show ?thesis using True by (simp add: filter_empty_conv)
  next
    case False
    then show ?thesis using Cons by auto
  qed
qed simp

lemma stored_offsets: "map le_offset (stored t tasks) = List.map_filter (\<lambda>p. map_option le_offset (task_entry t p)) (map snd tasks)"
  by (simp add: stored_def List.map_filter_def comp_def option.map_sel cong: map_cong)

lemma stored_sorted:
  assumes "distinct (allocated t tasks)"
  shows "sorted_wrt (<) (map le_offset (sort_key le_offset (stored t tasks)))"
proof -
  have "map_option le_offset (task_entry t p) = None \<or> map_option le_offset (task_entry t p) = task_offset t p" for p
    by (cases "task_entry t p") (auto dest: task_entry_offset)
  from map_filter_sub_distinct [of "\<lambda>p. map_option le_offset (task_entry t p)" "task_offset t", OF this]
  have "distinct (map le_offset (stored t tasks))" using assms by (simp add: stored_offsets allocated_def)
  then have "distinct (map le_offset (sort_key le_offset (stored t tasks)))"
    by (simp add: distinct_map)
  then show ?thesis by (simp add: strict_sorted_iff)
qed

lemma server_log:
  assumes R: "redis_ok R val rinv" "rinv r" and S: "serde_ok S" and ok: "redis_server_ok S pool (val r) tasks n"
  shows "RedisLogStore_range R S pool t lo hi r =
      filter (\<lambda>e. lo \<le> le_offset e \<and> le_offset e \<le> hi) (sort_key le_offset (stored t tasks))"
    "distinct (allocated t tasks) \<and> set (allocated t tasks) = {1..RedisOffsetStore_head R pool t r}"
proof -
  obtain c where c: "counts_of (val r (RedisOffsetStore_hash_key pool)) = Some c"
    "distinct (allocated t tasks) \<and> set (allocated t tasks) = {1..count_or_0 c t}"
    using ok unfolding redis_server_ok_def by blast
  then show "distinct (allocated t tasks) \<and> set (allocated t tasks) = {1..RedisOffsetStore_head R pool t r}"
    using redis_head [OF R c(1)] by simp
  obtain es where es: "redis_log_holds S (val r (RedisLogStore_log_key pool t)) es" "set es = set (stored t tasks)"
    using ok unfolding redis_server_ok_def by blast
  then have "es = sort_key le_offset (stored t tasks)"
    using stored_sorted [of t tasks] c(2) by (intro strictly_sorted_unique [of le_offset]) (auto simp: redis_log_holds_def)
  then show "RedisLogStore_range R S pool t lo hi r =
      filter (\<lambda>e. lo \<le> le_offset e \<and> le_offset e \<le> hi) (sort_key le_offset (stored t tasks))"
    using redis_range [OF R(1) S R(2) es(1)] by simp
qed

lemma cluster_server_ok:
  assumes "redis_ok R val rinv" "serde_ok S" "\<forall>e. le_appended_at e = None \<longrightarrow> to_vec S e \<noteq> None"
    "rinv r" "\<forall>k. val r k = None" "int (length ops) \<le> 2 ^ 53"
    "c = cluster_run R S J deliver pool ops (cluster_new r w maxes)"
  shows "rinv (rc_redis c) \<and> redis_server_ok S pool (val (rc_redis c)) (rc_tasks c) (length ops)"
  using cluster_run_ok [OF assms(1-3), of 0 ops "cluster_new r w maxes" pool J deliver] assms(4-7)
    cluster_new_ok [of val r S pool w maxes] by (simp add: cluster_new_def)

section \<open>A run of two instances\<close>

definition sample_run :: "ClusterOp list" where
  "sample_run =
    [CBegin 0 (demo_frame ''t'' ''a'' [1]), CBegin 1 (demo_frame ''t'' ''b'' [2]), CStep 0 0, CStep 1 0,
     CStep 0 0, CStep 1 0, CStep 1 0, CStep 0 0, CStep 1 0, CStep 1 0]"

definition no_serde :: "Frame Serde" where
  "no_serde = \<lparr> to_vec = (\<lambda>_. None), from_slice = (\<lambda>_. None) \<rparr>"

definition sample_cluster :: "(string \<Rightarrow> RVal option, sink_id \<Rightarrow> CountingSink) RedisCluster" where
  "sample_cluster = cluster_run view_redis entry_serde no_serde (\<lambda>_. counting_deliver) sample_pool sample_run
     (cluster_new (\<lambda>_. None) (\<lambda>_. CountingSink_new) [100, 100])"

lemma sample_cluster_tasks:
  "rc_tasks sample_cluster = [(0, PubFan (demo_frame ''t'' ''a'' [1]) ''t'' ''a'' 1),
     (1, PubDone (demo_frame ''t'' ''b'' [2]) ''t'' ''b'' False 2)]"
proof -
  have member: "member_key pool t m = member_key pool t m' \<longleftrightarrow> m = m'" for pool t m m' by (simp add: member_key_def)
  have begin_ok: "publish_begin (demo_frame ''t'' m [x]) (RedisActorBroker_new 100) = Inr (PubDedupe (demo_frame ''t'' m [x]) ''t'' m)"
    for m x
    by (simp add: publish_begin_def RedisActorBroker_validate_publish_def RedisActorBroker_new_def demo_eval)
  have i64: "i64_ok 1" "i64_ok 2" by (simp_all add: i64_ok_def i64_min_def i64_max_def)
  show ?thesis
    by (simp add: sample_cluster_def sample_run_def cluster_run_def cluster_new_def begin_ok member i64 count_or_0_def
        RedisDedupeStore_check_and_record_def RedisOffsetStore_alloc_def RedisLogStore_append_def view_redis_def Let_def)
qed

lemma entry_serde_total: "\<forall>e. le_appended_at e = None \<longrightarrow> to_vec entry_serde e \<noteq> None"
  by (simp add: entry_serde_def)

lemma sample_empty: "\<forall>k. (\<lambda>v. v) (\<lambda>_. None) k = None"
  by simp

lemma sample_length: "int (length sample_run) \<le> 2 ^ 53"
  by (simp add: sample_run_def)

lemmas sample_cluster_ok = view_redis_ok entry_serde_ok entry_serde_total TrueI sample_empty sample_length sample_cluster_def

section \<open>Properties\<close>

text \<open>C10. Instances sharing a server keep one exact log.  Publishes of any number of instances
  interleave between their duplicate check, offset, log write and delivery; at every moment the offsets
  handed out on a topic are distinct and are exactly 1 to the head, and a replay on any instance
  returns, in offset order, the payloads of exactly the publishes that have written their entry.\<close>

theorem redis_cluster_replay:
  assumes "redis_ok R val rinv" "serde_ok S" "\<forall>e. le_appended_at e = None \<longrightarrow> to_vec S e \<noteq> None"
    "rinv r" "\<forall>k. val r k = None" "int (length ops) \<le> 2 ^ 53"
    "c = cluster_run R S J deliver pool ops (cluster_new r w maxes)"
  shows "RedisActorBroker_replay R S pool t lo hi (rc_redis c) =
      Inr (map le_payload (filter (\<lambda>e. lo \<le> le_offset e \<and> le_offset e \<le> hi) (sort_key le_offset (stored t (rc_tasks c)))))
    \<and> distinct (allocated t (rc_tasks c))
    \<and> set (allocated t (rc_tasks c)) = {1..RedisActorBroker_head_offset R pool t (rc_redis c)}"
  using cluster_server_ok [OF assms] server_log [OF assms(1) _ assms(2), of "rc_redis c" pool "rc_tasks c" "length ops" t]
  by (simp add: RedisActorBroker_replay_def RedisActorBroker_head_offset_def)

theorem redis_cluster_replay_witness:
  "RedisActorBroker_replay view_redis entry_serde sample_pool ''t'' 1 2 (rc_redis sample_cluster) = Inr [[1], [2]] \<and>
   {1, 2} = {1..RedisActorBroker_head_offset view_redis sample_pool ''t'' (rc_redis sample_cluster)}"
  using redis_cluster_replay [OF sample_cluster_ok, of "''t''" 1 2]
  by (simp add: sample_cluster_tasks stored_def allocated_def map_filter_simps publish_entry_def demo_frame_def)

text \<open>C9. A publish acknowledged by any instance is on the server: replaying its offset returns its
  payload and nothing else, whatever other publishes were interleaved with it.\<close>

theorem redis_acknowledged_replays:
  assumes "redis_ok R val rinv" "serde_ok S" "\<forall>e. le_appended_at e = None \<longrightarrow> to_vec S e \<noteq> None"
    "rinv r" "\<forall>k. val r k = None" "int (length ops) \<le> 2 ^ 53"
    "c = cluster_run R S J deliver pool ops (cluster_new r w maxes)"
    and done_task: "(i, PubDone f t m dup off) \<in> set (rc_tasks c)"
  shows "RedisActorBroker_replay R S pool t off off (rc_redis c) = Inr [case fr_payload f of Some p \<Rightarrow> p | None \<Rightarrow> []]"
proof -
  let ?st = "stored t (rc_tasks c)" and ?e = "publish_entry f m off"
  have ok: "rinv (rc_redis c)" "redis_server_ok S pool (val (rc_redis c)) (rc_tasks c) (length ops)"
    using cluster_server_ok [OF assms(1-7)] by auto
  note log = server_log [OF assms(1) ok(1) assms(2) ok(2), of t]
  have "?e \<in> set ?st" using done_task by (force simp: stored_def List.map_filter_def)
  moreover have "sorted_wrt (<) (map le_offset (sort_key le_offset ?st))" using stored_sorted log(2) by blast
  ultimately have "filter (\<lambda>e. off \<le> le_offset e \<and> le_offset e \<le> off) (sort_key le_offset ?st) = [?e]"
    using filter_key_unique [of le_offset "sort_key le_offset ?st" ?e] by (simp add: publish_entry_def)
  then show ?thesis using log(1) by (simp add: RedisActorBroker_replay_def publish_entry_def split: option.split)
qed

theorem redis_acknowledged_replays_witness:
  "RedisActorBroker_replay view_redis entry_serde sample_pool ''t'' 2 2 (rc_redis sample_cluster) = Inr [[2]]"
  using redis_acknowledged_replays [OF sample_cluster_ok, of 1 "demo_frame ''t'' ''b'' [2]" "''t''" "''b''" False 2]
  by (simp add: sample_cluster_tasks demo_frame_def)

text \<open>C24. The keys keep their types: in every run the offsets key holds counters, every log key a
  sorted set and every duplicate key a plain lock, so no command of a store is refused for the type
  of its key.\<close>

theorem redis_keys_typed:
  assumes "redis_ok R val rinv" "serde_ok S" "\<forall>e. le_appended_at e = None \<longrightarrow> to_vec S e \<noteq> None"
    "rinv r" "\<forall>k. val r k = None" "int (length ops) \<le> 2 ^ 53"
    "c = cluster_run R S J deliver pool ops (cluster_new r w maxes)"
  shows "counts_of (val (rc_redis c) (RedisOffsetStore_hash_key pool)) \<noteq> None \<and>
    zset_of (val (rc_redis c) (RedisLogStore_log_key pool t)) \<noteq> None \<and>
    (case val (rc_redis c) (member_key pool t m) of None \<Rightarrow> True | Some v \<Rightarrow> \<exists>e. v = RLock e)"
proof -
  have ok: "redis_server_ok S pool (val (rc_redis c)) (rc_tasks c) (length ops)" using cluster_server_ok [OF assms] by simp
  then obtain es where "redis_log_holds S (val (rc_redis c) (RedisLogStore_log_key pool t)) es"
    unfolding redis_server_ok_def by blast
  moreover have "counts_of (val (rc_redis c) (RedisOffsetStore_hash_key pool)) \<noteq> None"
    using ok unfolding redis_server_ok_def by force
  moreover have "val (rc_redis c) (member_key pool t m) = None \<or> (\<exists>e. val (rc_redis c) (member_key pool t m) = Some (RLock e))"
    using ok unfolding redis_server_ok_def by blast
  ultimately show ?thesis by (auto simp: redis_log_holds_def split: option.split)
qed

theorem redis_keys_typed_witness:
  "zset_of (rc_redis sample_cluster (RedisLogStore_log_key sample_pool ''t'')) \<noteq> None"
  using redis_keys_typed [OF sample_cluster_ok, of "''t''"] by simp

text \<open>A publish is its awaits in order: run alone, the steps of a publish give the outcome, the
  server, the local deliveries and the message sent that the broker's publish gives, refusals
  included.\<close>

theorem publish_is_its_steps:
  "RedisActorBroker_publish R S J deliver pool now f b r w =
    (case publish_begin f b of
       Inl e \<Rightarrow> (Inl e, r, w, None)
     | Inr p \<Rightarrow> the (publish_result (publish_steps R S J deliver pool now b 5 p r w)))"
  by (cases "publish_begin f b") (simp_all add: publish_begin_cases publish_begin_done)

text \<open>C39. A publisher's own subscribers get its message twice: the listener of the instance that
  published also receives the message it sent, and delivers it again to the same subscribers, the
  second time with offset 0 in place of the offset of the log.\<close>

theorem redis_publisher_hears_twice:
  assumes J: "serde_ok J" "to_vec J f \<noteq> None" and t: "fr_topic f = Some t"
    and p: "RedisActorBroker_publish R S J deliver pool now f b r w = (Inr out, r', w', Some msg)"
  shows "FanoutBridge_on_message J deliver pool msg (rb_bridge b) w' =
    snd (FanoutEngine_deliver deliver t (serialize_frame_for_fanout f 0) (fb_fanout (rb_bridge b))
      (snd (FanoutEngine_deliver deliver t (serialize_frame_for_fanout f (po_offset out)) (fb_fanout (rb_bridge b)) w)))"
proof -
  have m: "msg = (fanout_channel pool t, frame_envelope J f)"
    and w': "w' = snd (FanoutEngine_deliver deliver t (serialize_frame_for_fanout f (po_offset out)) (fb_fanout (rb_bridge b)) w)"
    using p t by (auto simp: RedisActorBroker_publish_def RedisActorBroker_validate_publish_def Let_def
        split: option.splits if_splits sum.splits prod.splits)
  have c: "channel_topic pool (fanout_channel pool t) = t"
    by (simp add: channel_topic_def fanout_channel_def fanout_prefix_def RedisPool_topic_key_def)
  have "from_slice J (frame_envelope J f) = Some f" using J by (auto simp: serde_ok_def frame_envelope_def)
  then have "serialize_frame_for_fanout (envelope_frame J t (frame_envelope J f)) 0 = serialize_frame_for_fanout f 0"
    by (simp add: envelope_frame_def serialize_frame_for_fanout_def)
  then show ?thesis using m w' c by (simp add: FanoutBridge_on_message_def FanoutBridge_deliver_to_local_def)
qed

definition twice_frame :: Frame where
  "twice_frame = demo_frame ''t'' ''m'' [7]"

definition twice_serde :: "Frame Serde" where
  "twice_serde = \<lparr> to_vec = (\<lambda>f. if f = twice_frame then Some [9] else None),
     from_slice = (\<lambda>v. if v = [9] then Some twice_frame else None) \<rparr>"

definition twice_node :: RedisActorBroker where
  "twice_node = snd (RedisActorBroker_subscribe ''t'' SubscribeIntent.Live 5 (RedisActorBroker_new 100))"

theorem redis_publisher_hears_twice_witness:
  "\<exists>out r' w' msg. RedisActorBroker_publish view_redis entry_serde twice_serde counting_deliver sample_pool 0 twice_frame
      twice_node (\<lambda>_. None) (\<lambda>_. CountingSink_new) = (Inr out, r', w', Some msg) \<and>
    ct_log (FanoutBridge_on_message twice_serde counting_deliver sample_pool msg (rb_bridge twice_node) w' 5) =
      [serialize_frame_for_fanout twice_frame 1, serialize_frame_for_fanout twice_frame 0]"
proof -
  have fan: "fb_fanout (rb_bridge twice_node) = snd (FanoutEngine_subscribe ''t'' SubscribeIntent.Live 5 FanoutEngine_new)"
    "rb_max_payload_bytes twice_node = 100"
    by (simp_all add: twice_node_def RedisActorBroker_subscribe_def FanoutBridge_subscribe_def FanoutBridge_ensure_topic_def
        RedisActorBroker_new_def FanoutBridge_new_def Let_def demo_eval split: prod.split)
  obtain out r' w' msg where p: "RedisActorBroker_publish view_redis entry_serde twice_serde counting_deliver sample_pool 0
      twice_frame twice_node (\<lambda>_. None) (\<lambda>_. CountingSink_new) = (Inr out, r', w', Some msg)" and o: "po_offset out = 1"
    by (simp add: RedisActorBroker_publish_def RedisActorBroker_validate_publish_def fan twice_frame_def demo_eval
        RedisDedupeStore_check_and_record_def RedisOffsetStore_alloc_def view_redis_def count_or_0_def i64_ok_def
        i64_min_def i64_max_def Let_def)
  have J: "serde_ok twice_serde" "to_vec twice_serde twice_frame \<noteq> None" "fr_topic twice_frame = Some ''t''"
    by (auto simp: serde_ok_def twice_serde_def twice_frame_def demo_frame_def)
  show ?thesis using p redis_publisher_hears_twice [OF J p] o
    by (simp add: fan FanoutEngine_deliver_def FanoutEngine_subscribe_def FanoutEngine_new_def counting_deliver_def
        CountingSink_deliver_def CountingSink_new_def hm_get_or_def Let_def)
qed

text \<open>C40. An outage loses messages silently: while the server answers every command with an error, a
  valid publish still succeeds, with offset 1 and marked a duplicate, and is neither
  delivered to local subscribers nor sent to other instances.\<close>

theorem redis_outage_drops:
  assumes valid: "RedisActorBroker_validate_publish f b = Inr (t, m)" "validate_name t = Inr ()"
    and down: "\<forall>now k n r. \<exists>e. rd_set_nx_ex R now k n r = (Inl e, r)" "\<forall>k h d r. \<exists>e. rd_hincrby R k h d r = (Inl e, r)"
      "\<forall>k s x r. rd_zadd R k s x r = r"
  shows "RedisActorBroker_publish R S J deliver pool now f b r w =
    (Inr \<lparr> po_offset = 1, po_duplicate = True \<rparr>, r, w, None)"
proof -
  obtain e where "rd_set_nx_ex R now (member_key pool t m) (window_secs 60000) r = (Inl e, r)" using down(1) by blast
  then have "RedisDedupeStore_check_and_record R pool now t m 60000 r = (False, r)"
    by (simp add: RedisDedupeStore_check_and_record_def)
  moreover obtain e' where "rd_hincrby R (RedisOffsetStore_hash_key pool) t 1 r = (Inl e', r)" using down(2) by blast
  then have "RedisOffsetStore_alloc R pool t r = (1, r)" by (simp add: RedisOffsetStore_alloc_def)
  ultimately show ?thesis using valid down(3)
    by (simp add: RedisActorBroker_publish_def RedisLogStore_append_def Let_def)
qed

definition down_redis :: "unit Redis" where
  "down_redis =
    \<lparr> rd_hincrby = (\<lambda>_ _ _ r. (Inl ''io'', r)), rd_hget = (\<lambda>_ _ _. Inl ''io''), rd_hdel = (\<lambda>_ _ r. r),
      rd_set_nx_ex = (\<lambda>_ _ _ r. (Inl ''io'', r)), rd_zadd = (\<lambda>_ _ _ r. r), rd_zremrangebyrank = (\<lambda>_ _ _ r. r),
      rd_zrangebyscore = (\<lambda>_ _ _ _. Inl ''io''), rd_zrevrange = (\<lambda>_ _ _ _. Inl ''io''), rd_del = (\<lambda>_ r. r),
      rd_hset = (\<lambda>_ _ _ r. r), rd_expire = (\<lambda>_ _ _ r. r), rd_hmget = (\<lambda>_ _ _ _. Inl ''io'') \<rparr>"

theorem redis_outage_drops_witness:
  "RedisActorBroker_publish down_redis entry_serde no_serde counting_deliver sample_pool 0 twice_frame twice_node ()
      (\<lambda>_. CountingSink_new) =
    (Inr \<lparr> po_offset = 1, po_duplicate = True \<rparr>, (), \<lambda>_. CountingSink_new, None)"
proof -
  have "rb_max_payload_bytes twice_node = 100"
    by (simp add: twice_node_def RedisActorBroker_subscribe_def RedisActorBroker_new_def demo_eval split: prod.split)
  then have "RedisActorBroker_validate_publish twice_frame twice_node = Inr (''t'', ''m'')" "validate_name ''t'' = Inr ()"
    by (simp_all add: RedisActorBroker_validate_publish_def twice_frame_def demo_eval)
  then show ?thesis by (rule redis_outage_drops) (simp_all add: down_redis_def)
qed

section \<open>The listener\<close>

text \<open>A failed listener waits at most five seconds; the thirty-second limit is never the one that binds.\<close>

lemma listen_delay_bound: "listen_delay n \<le> 5000 \<and> listen_delay n = 1000 * min (unat n) 5"
  by (auto simp: listen_delay_def min_def)

lemma listen_step_delay: "fst (snd (listen_step J deliver pool br ev l w)) \<le> 5000"
  using listen_delay_bound by (auto simp: listen_step_def listen_retry_def Let_def split: ListenPhase.split ListenEvent.split)

end
