(* ===== verification/Bench_Readme.thy ===== *)
theory Bench_Readme
  imports Storage_Keys Frame_Codec
begin

text \<open>
  The benchmark table of the README (\<open>rifts/examples/update_benchmark_readme.rs\<close>): collecting the
  estimates Criterion left on disk, printing them as a table and replacing the block between two marker
  lines.  A JSON number is a bit pattern; the operations on doubles, their printing and the JSON parser are
  parameters.
\<close>

section \<open>Strings\<close>

definition nl :: char where "nl = CHR 0x0A"

definition cr :: char where "cr = CHR 0x0D"

text \<open>\<open>str::lines\<close>: a carriage return before a newline goes with it, the last line need not end.\<close>

definition chomp :: "string \<Rightarrow> string" where
  "chomp l = (if l \<noteq> [] \<and> last l = cr then butlast l else l)"

function str_lines :: "string \<Rightarrow> string list" where
  "str_lines [] = []"
| "str_lines (c # s) =
    (let l = takeWhile (\<lambda>x. x \<noteq> nl) (c # s); rest = dropWhile (\<lambda>x. x \<noteq> nl) (c # s)
     in if rest = [] then [l] else chomp l # str_lines (tl rest))"
  by pat_completeness auto
termination
proof (relation "measure length")
  fix c s l rest
  assume "rest = dropWhile (\<lambda>x. x \<noteq> nl) (c # s)" "rest \<noteq> []"
  moreover have "length (dropWhile (\<lambda>x. x \<noteq> nl) (c # s)) \<le> length (c # s)" by (rule length_dropWhile_le)
  ultimately show "(tl rest, c # s) \<in> measure length" by (cases rest) auto
qed simp

declare str_lines.simps [simp del]

text \<open>The white space of Unicode, in UTF-8.\<close>

definition white_space :: "string list" where
  "white_space =
    [[CHR 0x09], [CHR 0x0A], [CHR 0x0B], [CHR 0x0C], [CHR 0x0D], [CHR 0x20], [CHR 0xC2, CHR 0x85],
     [CHR 0xC2, CHR 0xA0], [CHR 0xE1, CHR 0x9A, CHR 0x80], [CHR 0xE2, CHR 0x80, CHR 0x80],
     [CHR 0xE2, CHR 0x80, CHR 0x81], [CHR 0xE2, CHR 0x80, CHR 0x82], [CHR 0xE2, CHR 0x80, CHR 0x83],
     [CHR 0xE2, CHR 0x80, CHR 0x84], [CHR 0xE2, CHR 0x80, CHR 0x85], [CHR 0xE2, CHR 0x80, CHR 0x86],
     [CHR 0xE2, CHR 0x80, CHR 0x87], [CHR 0xE2, CHR 0x80, CHR 0x88], [CHR 0xE2, CHR 0x80, CHR 0x89],
     [CHR 0xE2, CHR 0x80, CHR 0x8A], [CHR 0xE2, CHR 0x80, CHR 0xA8], [CHR 0xE2, CHR 0x80, CHR 0xA9],
     [CHR 0xE2, CHR 0x80, CHR 0xAF], [CHR 0xE2, CHR 0x81, CHR 0x9F], [CHR 0xE3, CHR 0x80, CHR 0x80]]"

definition starts_with :: "string \<Rightarrow> string \<Rightarrow> bool" where
  "starts_with p s \<longleftrightarrow> take (length p) s = p"

function strip_front :: "string list \<Rightarrow> string \<Rightarrow> string" where
  "strip_front ws s =
    (case find (\<lambda>w. w \<noteq> [] \<and> starts_with w s) ws of
       Some w \<Rightarrow> strip_front ws (drop (length w) s)
     | None \<Rightarrow> s)"
  by pat_completeness auto
termination
proof (relation "measure (length \<circ> snd)")
  fix ws s w
  assume "find (\<lambda>w. w \<noteq> [] \<and> starts_with w s) ws = Some w"
  then have "w \<noteq> []" "starts_with w s" by (auto simp: find_Some_iff)
  moreover from this have "s \<noteq> []" by (auto simp: starts_with_def)
  ultimately show "((ws, drop (length w) s), ws, s) \<in> measure (length \<circ> snd)" by simp
qed simp

declare strip_front.simps [simp del]

definition str_trim :: "string \<Rightarrow> string" where
  "str_trim s = rev (strip_front (map rev white_space) (rev (strip_front white_space s)))"

fun str_contains :: "string \<Rightarrow> string \<Rightarrow> bool" where
  "str_contains p s \<longleftrightarrow> starts_with p s \<or> (case s of [] \<Rightarrow> False | _ # t \<Rightarrow> str_contains p t)"

declare str_contains.simps [simp del]

section \<open>Estimates\<close>

text \<open>A double as its bit pattern.\<close>

type_synonym f64 = u64

record Floats =
  fl_of_number :: "json_number \<Rightarrow> f64"
  fl_ge :: "f64 \<Rightarrow> nat \<Rightarrow> bool"
  fl_div :: "f64 \<Rightarrow> nat \<Rightarrow> f64"
  fl_fmt3 :: "f64 \<Rightarrow> string"

record BenchEstimate =
  be_mean :: f64
  be_median :: f64
  be_mean_lower :: f64
  be_mean_upper :: f64

type_synonym results = "(string \<times> BenchEstimate) list"

text \<open>\<open>BTreeMap::insert\<close>, the keys in byte order.\<close>

fun bt_insert :: "string \<Rightarrow> 'v \<Rightarrow> (string \<times> 'v) list \<Rightarrow> (string \<times> 'v) list" where
  "bt_insert k v [] = [(k, v)]"
| "bt_insert k v ((k', v') # m) =
    (if k = k' then (k, v) # m
     else if as_bytes k < as_bytes k' then (k, v) # (k', v') # m
     else (k', v') # bt_insert k v m)"

text \<open>The files: a directory that cannot be read has no entries to walk.\<close>

datatype Fs = FsFile string | FsDir "(string \<times> Fs) list" | FsDenied

definition json_as_f64 :: "Floats \<Rightarrow> json \<Rightarrow> f64 option" where
  "json_as_f64 F v = (case v of JNumber n \<Rightarrow> Some (fl_of_number F n) | _ \<Rightarrow> None)"

definition json_path :: "string list \<Rightarrow> json \<Rightarrow> json option" where
  "json_path ks v = foldl (\<lambda>v k. Option.bind v (json_get k)) (Some v) ks"

definition estimate_of_json :: "Floats \<Rightarrow> json \<Rightarrow> BenchEstimate option" where
  "estimate_of_json F v =
    Option.bind (Option.bind (json_path [''mean'', ''point_estimate''] v) (json_as_f64 F)) (\<lambda>mean.
    Option.bind (Option.bind (json_path [''median'', ''point_estimate''] v) (json_as_f64 F)) (\<lambda>median.
    Option.bind (Option.bind (json_path [''mean'', ''confidence_interval'', ''lower_bound''] v) (json_as_f64 F)) (\<lambda>lower.
    Option.bind (Option.bind (json_path [''mean'', ''confidence_interval'', ''upper_bound''] v) (json_as_f64 F)) (\<lambda>upper.
    Some \<lparr> be_mean = mean, be_median = median, be_mean_lower = lower, be_mean_upper = upper \<rparr>))))"

text \<open>\<open>Path::parent\<close> and \<open>Path::file_name\<close> on the components of a relative path.\<close>

definition path_parent :: "string list \<Rightarrow> string list option" where
  "path_parent p = (if p = [] then None else Some (butlast p))"

definition path_file_name :: "string list \<Rightarrow> string option" where
  "path_file_name p = (if p = [] then None else Some (last p))"

definition bench_name :: "string list \<Rightarrow> string option" where
  "bench_name new_dir =
    Option.bind (path_parent new_dir) (\<lambda>parent.
    Option.bind (path_file_name parent) (\<lambda>bench_id.
    Option.bind (path_parent parent) (\<lambda>grandparent.
    if path_file_name grandparent = Some ''criterion'' then None
    else map_option (\<lambda>group_name. if bench_id = group_name then group_name else group_name @ ''/'' @ bench_id)
           (path_file_name grandparent))))"

definition parse_benchmark ::
  "Floats \<Rightarrow> (string \<Rightarrow> json option) \<Rightarrow> string list \<Rightarrow> (string \<times> Fs) list \<Rightarrow> (string \<times> BenchEstimate) option" where
  "parse_benchmark F from_str new_dir entries =
    (case map_of entries ''estimates.json'' of
       Some (FsFile content) \<Rightarrow>
         Option.bind (Option.bind (from_str content) (estimate_of_json F)) (\<lambda>est.
           map_option (\<lambda>name. (name, est)) (bench_name new_dir))
     | _ \<Rightarrow> None)"

fun walk ::
  "Floats \<Rightarrow> (string \<Rightarrow> json option) \<Rightarrow> string list \<Rightarrow> (string \<times> Fs) list \<Rightarrow> results \<Rightarrow> results" where
  "walk F from_str dir [] results = results"
| "walk F from_str dir ((n, FsDir entries) # rest) results =
    (if n = ''new''
     then walk F from_str dir rest
       (if map_of entries ''estimates.json'' \<noteq> None
        then (case parse_benchmark F from_str (dir @ [n]) entries of
                Some (name, est) \<Rightarrow> bt_insert name est results
              | None \<Rightarrow> results)
        else results)
     else walk F from_str dir rest (walk F from_str (dir @ [n]) entries results))"
| "walk F from_str dir ((n, FsFile content) # rest) results = walk F from_str dir rest results"
| "walk F from_str dir ((n, FsDenied) # rest) results = walk F from_str dir rest results"

definition collect_estimates :: "Floats \<Rightarrow> (string \<Rightarrow> json option) \<Rightarrow> string list \<Rightarrow> Fs \<Rightarrow> results" where
  "collect_estimates F from_str dir fs = (case fs of FsDir entries \<Rightarrow> walk F from_str dir entries [] | _ \<Rightarrow> [])"

section \<open>The table\<close>

definition micro_s :: string where "micro_s = '' '' @ [CHR 0xC2, CHR 0xB5] @ ''s''"

definition en_dash :: string where "en_dash = [CHR 0xE2, CHR 0x80, CHR 0x93]"

definition format_duration :: "Floats \<Rightarrow> f64 \<Rightarrow> string" where
  "format_duration F nanos =
    (if fl_ge F nanos 1000000000 then fl_fmt3 F (fl_div F nanos 1000000000) @ '' s''
     else if fl_ge F nanos 1000000 then fl_fmt3 F (fl_div F nanos 1000000) @ '' ms''
     else if fl_ge F nanos 1000 then fl_fmt3 F (fl_div F nanos 1000) @ micro_s
     else fl_fmt3 F nanos @ '' ns'')"

definition table_row :: "Floats \<Rightarrow> string \<times> BenchEstimate \<Rightarrow> string" where
  "table_row F row =
    (case row of (name, est) \<Rightarrow>
       ''| `'' @ name @ ''`'' @ [nl] @ ''| '' @ format_duration F (be_mean est) @ [nl]
       @ ''| '' @ format_duration F (be_median est) @ [nl]
       @ ''| '' @ (format_duration F (be_mean_lower est) @ '' '' @ en_dash @ '' '' @ format_duration F (be_mean_upper est)) @ [nl])"

definition build_table :: "Floats \<Rightarrow> results \<Rightarrow> string" where
  "build_table F results =
    ''.Benchmark results (lower is better)'' @ [nl]
    @ ''[cols=\"4,2,2,2\",options=\"header\"]'' @ [nl]
    @ ''|==='' @ [nl]
    @ ''| Benchmark | Mean | Median | CI (mean)'' @ [nl]
    @ concat (map (table_row F) results)
    @ ''|==='' @ [nl]"

section \<open>The README\<close>

definition MARKER_BEGIN :: string where "MARKER_BEGIN = ''// BENCHMARK_RESULTS:BEGIN''"

definition MARKER_END :: string where "MARKER_END = ''// BENCHMARK_RESULTS:END''"

definition block_header :: string where
  "block_header =
    MARKER_BEGIN @ [nl] @ ''// Generated by: cargo run --example update_benchmark_readme -- README.adoc''"

fun update_lines :: "string \<Rightarrow> bool \<Rightarrow> string list \<Rightarrow> string" where
  "update_lines table in_block [] = []"
| "update_lines table in_block (line # lines) =
    (if str_trim line = MARKER_BEGIN then block_header @ [nl] @ table @ update_lines table True lines
     else if in_block \<and> str_trim line = MARKER_END then MARKER_END @ [nl] @ update_lines table False lines
     else if in_block then update_lines table in_block lines
     else line @ [nl] @ update_lines table in_block lines)"

definition update_readme_section :: "Floats \<Rightarrow> string \<Rightarrow> results \<Rightarrow> string" where
  "update_readme_section F original results =
    (let table = build_table F results
     in if \<not> str_contains MARKER_BEGIN original
        then original @ (if original \<noteq> [] \<and> last original \<noteq> nl then [nl] else []) @ [nl]
          @ ''== Benchmarks'' @ [nl, nl] @ block_header @ [nl] @ table @ MARKER_END @ [nl]
        else update_lines table False (str_lines original))"

section \<open>The program\<close>

text \<open>
  \<open>main\<close>: the arguments after the program's name, the tree under \<open>target/criterion\<close>, and the README as
  reading it returns; the exit code and what was written.
\<close>

definition bench_main ::
  "Floats \<Rightarrow> (string \<Rightarrow> json option) \<Rightarrow> string list \<Rightarrow> Fs \<Rightarrow> (string \<Rightarrow> string + string)
    \<Rightarrow> (string \<Rightarrow> string \<Rightarrow> bool) \<Rightarrow> nat \<times> (string \<times> string) option" where
  "bench_main F from_str args criterion read_file can_write =
    (let positional = filter (\<lambda>a. a \<noteq> ''--check'' \<and> a \<noteq> ''--full'') args
     in if args = [] \<or> positional = [] then (1, None)
        else
          let results = collect_estimates F from_str [''target'', ''criterion''] criterion
          in if results = [] then (1, None)
             else (case read_file (hd positional) of
                     Inl _ \<Rightarrow> (1, None)
                   | Inr original \<Rightarrow>
                       let updated = update_readme_section F original results
                       in if updated = original then (0, None)
                          else if ''--check'' \<in> set args then (1, None)
                          else if can_write (hd positional) updated then (0, Some (hd positional, updated))
                          else (1, None)))"

section \<open>Lines\<close>

definition unlines :: "string list \<Rightarrow> string" where
  "unlines ls = concat (map (\<lambda>l. l @ [nl]) ls)"

definition line_ok :: "string \<Rightarrow> bool" where
  "line_ok l \<longleftrightarrow> nl \<notin> set l \<and> (l = [] \<or> last l \<noteq> cr)"

lemma unlines_simps [simp]:
  "unlines [] = []" "unlines (l # ls) = l @ nl # unlines ls" "unlines (ls @ ls') = unlines ls @ unlines ls'"
  by (simp_all add: unlines_def)

lemma str_lines_empty [simp]: "str_lines [] = []"
  by (simp add: str_lines.simps)

lemma str_lines_line: "nl \<notin> set l \<Longrightarrow> str_lines (l @ nl # s) = chomp l # str_lines s"
proof (cases l)
  case (Cons c l')
  assume "nl \<notin> set l"
  then have "\<forall>x \<in> set l. x \<noteq> nl" by auto
  then have "takeWhile (\<lambda>x. x \<noteq> nl) (l @ nl # s) = l" "dropWhile (\<lambda>x. x \<noteq> nl) (l @ nl # s) = nl # s"
    by (simp_all add: takeWhile_append2 dropWhile_append2)
  then show ?thesis using Cons by (simp add: str_lines.simps Let_def)
qed (simp add: str_lines.simps)

lemma line_okI: "nl \<notin> set l \<Longrightarrow> cr \<notin> set l \<Longrightarrow> line_ok l"
  unfolding line_ok_def by (metis last_in_set)

lemma chomp_ok: "line_ok l \<Longrightarrow> chomp l = l"
  by (auto simp: line_ok_def chomp_def)

lemma str_lines_unlines: "\<forall>l \<in> set ls. line_ok l \<Longrightarrow> str_lines (unlines ls) = ls"
proof (induction ls)
  case (Cons l ls)
  then have "nl \<notin> set l" "chomp l = l" by (auto simp: chomp_ok) (simp add: line_ok_def)
  then show ?case using Cons by (simp add: str_lines_line)
qed simp

text \<open>Without carriage returns the lines are the text, but for a missing newline at the end.\<close>

lemma unlines_str_lines:
  "cr \<notin> set s \<Longrightarrow> unlines (str_lines s) = s @ (if s \<noteq> [] \<and> last s \<noteq> nl then [nl] else [])
    \<and> (\<forall>l \<in> set (str_lines s). line_ok l)"
proof (induction s rule: length_induct)
  case (1 s)
  show ?case
  proof (cases "nl \<in> set s")
    case True
    then obtain l t where s: "s = l @ nl # t" "nl \<notin> set l" by (meson split_list_first)
    then have ok: "line_ok l" using 1(2) by (intro line_okI) auto
    have "unlines (str_lines t) = t @ (if t \<noteq> [] \<and> last t \<noteq> nl then [nl] else []) \<and> (\<forall>l \<in> set (str_lines t). line_ok l)"
      using 1(2) s by (intro 1(1) [THEN spec, THEN mp, THEN mp]) auto
    then show ?thesis using s ok by (auto simp: str_lines_line chomp_ok)
  next
    case False
    then have "takeWhile (\<lambda>x. x \<noteq> nl) s = s" "dropWhile (\<lambda>x. x \<noteq> nl) s = []"
      by (auto simp: takeWhile_eq_all_conv dropWhile_eq_Nil_conv)
    then have "str_lines s = (if s = [] then [] else [s])" by (cases s) (simp_all add: str_lines.simps Let_def)
    moreover have "s \<noteq> [] \<Longrightarrow> last s \<noteq> nl" using False by (metis last_in_set)
    ultimately show ?thesis using False 1(2) by (auto intro: line_okI)
  qed
qed

section \<open>Substrings\<close>

lemma starts_with_iff: "starts_with p s \<longleftrightarrow> (\<exists>b. s = p @ b)"
proof
  assume "starts_with p s"
  then have "s = p @ drop (length p) s" using append_take_drop_id [of "length p" s] by (simp add: starts_with_def)
  then show "\<exists>b. s = p @ b" ..
qed (auto simp: starts_with_def)

lemma str_contains_iff: "str_contains p s \<longleftrightarrow> (\<exists>a b. s = a @ p @ b)"
proof (induction s)
  case Nil
  show ?case by (subst str_contains.simps) (auto simp: starts_with_def)
next
  case (Cons c s)
  have "starts_with p (c # s) \<longleftrightarrow> (\<exists>b. c # s = p @ b)" by (rule starts_with_iff)
  then show ?case using Cons by (subst str_contains.simps) (auto simp: Cons_eq_append_conv)
qed

lemma contains_line:
  assumes "str_contains m (l @ nl # r)" "nl \<notin> set m" "m \<noteq> []"
  shows "str_contains m l \<or> str_contains m r"
proof -
  obtain a b where "l @ nl # r = a @ m @ b" using assms(1) by (auto simp: str_contains_iff)
  then obtain us where "l = a @ us \<and> us @ nl # r = m @ b \<or> l @ us = a \<and> nl # r = us @ m @ b"
    by (auto simp: append_eq_append_conv2)
  then show ?thesis
  proof
    assume u: "l = a @ us \<and> us @ nl # r = m @ b"
    then obtain vs where "us = m @ vs \<or> us @ vs = m \<and> nl # r = vs @ b" by (auto simp: append_eq_append_conv2)
    then have "\<exists>ws. us = m @ ws" using assms(2) by (auto simp: Cons_eq_append_conv)
    then have "str_contains m l" using u by (auto simp: str_contains_iff)
    then show ?thesis ..
  next
    assume "l @ us = a \<and> nl # r = us @ m @ b"
    then have "str_contains m r" using assms(2,3) by (auto simp: str_contains_iff Cons_eq_append_conv)
    then show ?thesis ..
  qed
qed

lemma contains_appendI: "str_contains m s \<Longrightarrow> str_contains m (x @ s @ y)"
proof -
  assume "str_contains m s"
  then obtain a b where "x @ s @ y = (x @ a) @ m @ (b @ y)" by (auto simp: str_contains_iff)
  then show ?thesis unfolding str_contains_iff by blast
qed

lemma contains_self: "str_contains m m"
  using str_contains_iff [of m m] by (metis append.left_neutral append.right_neutral)

lemma contains_unlines:
  assumes "nl \<notin> set m" "m \<noteq> []"
  shows "str_contains m (unlines ls) \<longleftrightarrow> (\<exists>l \<in> set ls. str_contains m l)"
proof (induction ls)
  case Nil
  then show ?case using assms by (simp add: str_contains_iff)
next
  case (Cons l ls)
  have "str_contains m (l @ nl # unlines ls)" if "str_contains m l \<or> str_contains m (unlines ls)"
    using that contains_appendI [of m l "[]" "nl # unlines ls"] contains_appendI [of m "unlines ls" "l @ [nl]" "[]"] by auto
  then show ?case using Cons contains_line [OF _ assms, of l "unlines ls"] by auto
qed

lemma contains_str_lines:
  assumes "cr \<notin> set s" "nl \<notin> set m" "m \<noteq> []"
  shows "str_contains m s \<longleftrightarrow> (\<exists>l \<in> set (str_lines s). str_contains m l)"
proof -
  have "str_contains m (s @ [nl]) \<longleftrightarrow> str_contains m s"
    using contains_line [OF _ assms(2,3), of s "[]"] assms(3) contains_appendI [of m s "[]" "[nl]"]
    by (auto simp: str_contains_iff [of m "[]"])
  then have "str_contains m s \<longleftrightarrow> str_contains m (unlines (str_lines s))" using unlines_str_lines [OF assms(1)] by simp
  then show ?thesis using contains_unlines [OF assms(2,3)] by simp
qed

section \<open>Trimming\<close>

lemma strip_front_suffix: "\<exists>p. s = p @ strip_front ws s"
proof (induction ws s rule: strip_front.induct)
  case (1 ws s)
  show ?case
  proof (cases "find (\<lambda>w. w \<noteq> [] \<and> starts_with w s) ws")
    case None
    then show ?thesis by (subst strip_front.simps) simp
  next
    case (Some w)
    then obtain p where p: "drop (length w) s = p @ strip_front ws (drop (length w) s)" using 1 by blast
    have "strip_front ws s = strip_front ws (drop (length w) s)" using Some by (subst strip_front.simps) simp
    then have "s = (take (length w) s @ p) @ strip_front ws s" using p append_take_drop_id [of "length w" s] by simp
    then show ?thesis ..
  qed
qed

lemma trim_inside: "\<exists>p q. s = p @ str_trim s @ q"
proof -
  obtain p where p: "s = p @ strip_front white_space s" using strip_front_suffix by blast
  obtain q where "rev (strip_front white_space s) = q @ strip_front (map rev white_space) (rev (strip_front white_space s))"
    using strip_front_suffix by blast
  then have "strip_front white_space s = str_trim s @ rev q" unfolding str_trim_def by (metis rev_append rev_rev_ident)
  then show ?thesis using p by metis
qed

lemma trim_contains: "str_contains (str_trim l) l"
  using trim_inside by (auto simp: str_contains_iff)

text \<open>A line that starts with another character than white space keeps its start.\<close>

lemma strip_front_none: "c \<notin> hd ` set ws \<Longrightarrow> strip_front ws (c # l) = c # l"
proof -
  assume "c \<notin> hd ` set ws"
  then have "find (\<lambda>w. w \<noteq> [] \<and> starts_with w (c # l)) ws = None"
    by (auto simp: find_None_iff starts_with_def neq_Nil_conv image_def)
  then show ?thesis by (subst strip_front.simps) simp
qed

lemma trim_prefix:
  assumes "c \<notin> hd ` set white_space"
  shows "\<exists>q. c # l = str_trim (c # l) @ q"
proof -
  note f = strip_front_none [OF assms]
  obtain q where "rev (c # l) = q @ strip_front (map rev white_space) (rev (c # l))" using strip_front_suffix by blast
  then have "c # l = str_trim (c # l) @ rev q" unfolding str_trim_def f by (metis rev_append rev_rev_ident)
  then show ?thesis by blast
qed

lemma marker_start: "{CHR ''|'', CHR ''.'', CHR ''['', CHR ''/'', CHR ''=''} \<inter> hd ` set white_space = {}"
  by (simp add: white_space_def)

lemma marker_end: "{CHR ''N'', CHR ''D''} \<inter> hd ` set (map rev white_space) = {}"
  by (simp add: white_space_def)

lemma marker_trim: "str_trim MARKER_BEGIN = MARKER_BEGIN" "str_trim MARKER_END = MARKER_END"
proof -
  have "strip_front white_space (CHR ''/'' # l) = CHR ''/'' # l" for l using marker_start by (intro strip_front_none) blast
  moreover have "strip_front (map rev white_space) (c # l) = c # l" if "c \<in> {CHR ''N'', CHR ''D''}" for c l
    using marker_end that by (intro strip_front_none) blast
  ultimately show "str_trim MARKER_BEGIN = MARKER_BEGIN" "str_trim MARKER_END = MARKER_END"
    by (simp_all add: str_trim_def MARKER_BEGIN_def MARKER_END_def)
qed

definition gen_line :: string where
  "gen_line = ''// Generated by: cargo run --example update_benchmark_readme -- README.adoc''"

text \<open>A line that is neither marker.\<close>

definition plain_line :: "string \<Rightarrow> bool" where
  "plain_line l \<longleftrightarrow> str_trim l \<noteq> MARKER_BEGIN \<and> str_trim l \<noteq> MARKER_END"

lemma plain_lineI:
  assumes "c \<in> {CHR ''|'', CHR ''.'', CHR ''['', CHR ''/'', CHR ''=''}" "take 4 (c # l) \<noteq> ''// B''"
  shows "plain_line (c # l)"
proof -
  have "c \<notin> hd ` set white_space" using assms(1) marker_start by blast
  then obtain q where q: "c # l = str_trim (c # l) @ q" using trim_prefix by blast
  have "take 4 (MARKER_BEGIN @ q) = ''// B''" "take 4 (MARKER_END @ q) = ''// B''" by (simp_all add: MARKER_BEGIN_def MARKER_END_def)
  then show ?thesis using assms(2) q unfolding plain_line_def by metis
qed

lemma markers: "nl \<notin> set MARKER_BEGIN" "MARKER_BEGIN \<noteq> []" "line_ok MARKER_BEGIN" "line_ok MARKER_END" "MARKER_BEGIN \<noteq> MARKER_END"
  by (simp_all add: MARKER_BEGIN_def MARKER_END_def nl_def cr_def line_ok_def)

lemma gen_line_plain: "plain_line gen_line" "line_ok gen_line"
  unfolding gen_line_def by (rule plain_lineI, simp, simp) (simp add: line_ok_def nl_def cr_def)

section \<open>Replacing the block\<close>

text \<open>\<open>update_lines\<close> on the lines of its output.\<close>

fun replace_block :: "string list \<Rightarrow> bool \<Rightarrow> string list \<Rightarrow> string list" where
  "replace_block tls b [] = []"
| "replace_block tls b (l # ls) =
    (if str_trim l = MARKER_BEGIN then MARKER_BEGIN # gen_line # tls @ replace_block tls True ls
     else if b \<and> str_trim l = MARKER_END then MARKER_END # replace_block tls False ls
     else if b then replace_block tls b ls
     else l # replace_block tls b ls)"

lemma update_lines_unlines: "update_lines (unlines tls) b ls = unlines (replace_block tls b ls)"
  by (induction tls b ls rule: replace_block.induct) (auto simp: block_header_def gen_line_def)

lemma replace_block_skip:
  "\<forall>l \<in> set xs. plain_line l \<Longrightarrow> replace_block tls True (xs @ ls) = replace_block tls True ls"
  by (induction xs) (auto simp: plain_line_def)

lemma replace_block_keep:
  "\<forall>l \<in> set xs. str_trim l \<noteq> MARKER_BEGIN \<Longrightarrow> replace_block tls False (xs @ ls) = xs @ replace_block tls False ls"
  by (induction xs) auto

lemma replace_block_begin:
  assumes "\<forall>l \<in> set tls. plain_line l"
  shows "replace_block tls b (MARKER_BEGIN # gen_line # tls @ ls) = MARKER_BEGIN # gen_line # tls @ replace_block tls True ls"
  using replace_block_skip [of "gen_line # tls" tls ls] assms gen_line_plain by (simp add: marker_trim)

lemma replace_block_idem:
  assumes "\<forall>l \<in> set tls. plain_line l"
  shows "replace_block tls b (replace_block tls b ls) = replace_block tls b ls"
proof (induction ls arbitrary: b)
  case (Cons l ls)
  show ?case
  proof (cases "str_trim l = MARKER_BEGIN")
    case True
    then have "replace_block tls b (l # ls) = MARKER_BEGIN # gen_line # tls @ replace_block tls True ls" by simp
    then show ?thesis by (simp only: replace_block_begin [OF assms] Cons.IH)
  next
    case False
    then show ?thesis using Cons.IH markers(5) by (cases b) (simp_all add: marker_trim)
  qed
qed simp

section \<open>The table's lines\<close>

definition row_lines :: "Floats \<Rightarrow> string \<times> BenchEstimate \<Rightarrow> string list" where
  "row_lines F row =
    [''| `'' @ fst row @ ''`'', ''| '' @ format_duration F (be_mean (snd row)), ''| '' @ format_duration F (be_median (snd row)),
     ''| '' @ format_duration F (be_mean_lower (snd row)) @ '' '' @ en_dash @ '' '' @ format_duration F (be_mean_upper (snd row))]"

definition table_lines :: "Floats \<Rightarrow> results \<Rightarrow> string list" where
  "table_lines F results =
    [''.Benchmark results (lower is better)'', ''[cols=\"4,2,2,2\",options=\"header\"]'', ''|==='',
     ''| Benchmark | Mean | Median | CI (mean)''] @ concat (map (row_lines F) results) @ [''|===''] "

lemma table_row_lines: "table_row F row = unlines (row_lines F row)"
  by (simp add: table_row_def row_lines_def split: prod.split)

lemma build_table_lines: "build_table F results = unlines (table_lines F results)"
proof -
  have "concat (map (table_row F) results) = unlines (concat (map (row_lines F) results))"
    by (induction results) (simp_all add: table_row_lines)
  then show ?thesis by (simp add: build_table_def table_lines_def)
qed

text \<open>Names and printed numbers without newlines.\<close>

definition printable :: "Floats \<Rightarrow> results \<Rightarrow> bool" where
  "printable F results \<longleftrightarrow> (\<forall>x. nl \<notin> set (fl_fmt3 F x)) \<and> (\<forall>(name, _) \<in> set results. nl \<notin> set name)"

lemma duration_ok:
  assumes "\<forall>x. nl \<notin> set (fl_fmt3 F x)"
  shows "nl \<notin> set (format_duration F d)" "format_duration F d \<noteq> []" "last (format_duration F d) = CHR ''s''"
  using assms by (simp_all add: format_duration_def micro_s_def nl_def)

lemma row_lines_ok:
  assumes "\<forall>x. nl \<notin> set (fl_fmt3 F x)" "nl \<notin> set (fst row)" "l \<in> set (row_lines F row)"
  shows "line_ok l \<and> plain_line l"
proof
  show "line_ok l" using assms duration_ok [OF assms(1)]
    by (auto simp: row_lines_def line_ok_def en_dash_def nl_def cr_def)
  show "plain_line l" using assms(3) by (auto simp: row_lines_def intro!: plain_lineI)
qed

lemma table_lines_ok:
  assumes "printable F results" "l \<in> set (table_lines F results)"
  shows "line_ok l \<and> plain_line l"
proof (cases "l \<in> set (concat (map (row_lines F) results))")
  case True
  then obtain row where "row \<in> set results" "l \<in> set (row_lines F row)" by auto
  then show ?thesis using row_lines_ok [of F row l] assms(1) by (auto simp: printable_def)
next
  case False
  then show ?thesis using assms(2)
    by (auto simp: table_lines_def line_ok_def nl_def cr_def intro!: plain_lineI)
qed

section \<open>Updating twice\<close>

lemma replace_block_ok:
  assumes "\<forall>l \<in> set tls. line_ok l" "\<forall>l \<in> set ls. line_ok l"
  shows "\<forall>l \<in> set (replace_block tls b ls). line_ok l"
  using assms by (induction ls arbitrary: b) (auto simp: markers gen_line_plain)

text \<open>A text with the marker keeps it.\<close>

lemma replace_block_contains:
  "\<exists>l \<in> set ls. str_contains MARKER_BEGIN l \<Longrightarrow> \<exists>l \<in> set (replace_block tls False ls). str_contains MARKER_BEGIN l"
  by (induction ls) (auto simp: contains_self)

text \<open>The update as a change of lines, in both of its cases.\<close>

definition updated_lines :: "Floats \<Rightarrow> results \<Rightarrow> string list \<Rightarrow> string list" where
  "updated_lines F results ls =
    (if \<exists>l \<in> set ls. str_contains MARKER_BEGIN l then replace_block (table_lines F results) False ls
     else ls @ ['''', ''== Benchmarks'', '''', MARKER_BEGIN, gen_line] @ table_lines F results @ [MARKER_END])"

lemma update_as_lines:
  assumes "cr \<notin> set original"
  shows "update_readme_section F original results = unlines (updated_lines F results (str_lines original))"
  using unlines_str_lines [OF assms] contains_str_lines [OF assms markers(1,2)]
  by (auto simp: update_readme_section_def updated_lines_def build_table_lines update_lines_unlines Let_def
      block_header_def gen_line_def)

lemma updated_lines_ok:
  assumes "printable F results" "\<forall>l \<in> set ls. line_ok l"
  shows "\<forall>l \<in> set (updated_lines F results ls). line_ok l"
proof -
  have "line_ok ''== Benchmarks''" "line_ok ''''" by (simp_all add: line_ok_def nl_def cr_def)
  then show ?thesis using assms table_lines_ok [OF assms(1)] replace_block_ok [of "table_lines F results" ls False]
    by (auto simp: updated_lines_def markers gen_line_plain)
qed

lemma updated_lines_idem:
  assumes "printable F results"
  shows "updated_lines F results (updated_lines F results ls) = updated_lines F results ls"
proof -
  let ?t = "table_lines F results" and ?m = "\<lambda>l. str_contains MARKER_BEGIN l"
  have plain: "\<forall>l \<in> set ?t. plain_line l" using table_lines_ok [OF assms] by blast
  show ?thesis
  proof (cases "\<exists>l \<in> set ls. ?m l")
    case True
    then show ?thesis using replace_block_contains [OF True] replace_block_idem [OF plain] by (simp add: updated_lines_def)
  next
    case False
    let ?pre = "ls @ ['''', ''== Benchmarks'', '''']"
    have "str_trim l \<noteq> MARKER_BEGIN" if "l \<in> set ls" for l using False that trim_contains [of l] by auto
    moreover have "plain_line ''== Benchmarks''" by (rule plain_lineI) simp_all
    moreover have "str_trim '''' = ''''" using trim_inside [of "''''"] by auto
    ultimately have "\<forall>l \<in> set ?pre. str_trim l \<noteq> MARKER_BEGIN"
      using markers(2) [symmetric] by (auto simp: plain_line_def)
    then have "replace_block ?t False (?pre @ MARKER_BEGIN # gen_line # ?t @ [MARKER_END]) =
        ?pre @ MARKER_BEGIN # gen_line # ?t @ [MARKER_END]"
      using replace_block_keep [of ?pre ?t "MARKER_BEGIN # gen_line # ?t @ [MARKER_END]"]
        replace_block_begin [OF plain, of False "[MARKER_END]"] markers(5) by (simp add: marker_trim del: replace_block.simps)
        (simp add: marker_trim)
    moreover have "\<exists>l \<in> set (?pre @ MARKER_BEGIN # gen_line # ?t @ [MARKER_END]). ?m l"
      by (rule bexI [of _ MARKER_BEGIN]) (auto simp: contains_self)
    ultimately show ?thesis using False by (simp add: updated_lines_def)
  qed
qed

lemma update_idempotent:
  assumes "printable F results" "cr \<notin> set original"
  shows "update_readme_section F (update_readme_section F original results) results = update_readme_section F original results"
proof -
  let ?ls = "updated_lines F results (str_lines original)"
  have ok: "\<forall>l \<in> set ?ls. line_ok l" using updated_lines_ok [OF assms(1)] unlines_str_lines [OF assms(2)] by blast
  have first: "update_readme_section F original results = unlines ?ls" by (rule update_as_lines [OF assms(2)])
  have "str_contains MARKER_BEGIN (unlines ?ls)"
    using contains_unlines [OF markers(1,2), of ?ls] replace_block_contains [of "str_lines original" "table_lines F results"]
    by (auto simp: updated_lines_def contains_self)
  then have "update_readme_section F (unlines ?ls) results = unlines (updated_lines F results ?ls)"
    using contains_unlines [OF markers(1,2), of ?ls]
    by (simp add: update_readme_section_def updated_lines_def [of F results ?ls] str_lines_unlines [OF ok] build_table_lines
        update_lines_unlines Let_def)
  then show ?thesis using first updated_lines_idem [OF assms(1)] by simp
qed

section \<open>The order of the rows\<close>

definition rows_sorted :: "(string \<times> 'v) list \<Rightarrow> bool" where
  "rows_sorted m \<longleftrightarrow> sorted_wrt (<) (map (as_bytes \<circ> fst) m)"

lemma bt_insert_keys: "fst ` set (bt_insert k v m) = insert k (fst ` set m)"
  by (induction k v m rule: bt_insert.induct) auto

lemma bt_insert_sorted: "rows_sorted m \<Longrightarrow> rows_sorted (bt_insert k v m)"
proof (induction k v m rule: bt_insert.induct)
  case (2 k v k' v' m)
  have "as_bytes k' < as_bytes k" if "k \<noteq> k'" "\<not> as_bytes k < as_bytes k'"
    using that as_bytes_inj [of k k'] by (auto simp: not_less less_le)
  moreover have "set (map (as_bytes \<circ> fst) (bt_insert k v m)) = insert (as_bytes k) (set (map (as_bytes \<circ> fst) m))"
    using arg_cong [OF bt_insert_keys [of k v m], of "image as_bytes"] by (simp add: image_image)
  ultimately show ?case using 2 unfolding rows_sorted_def
    by (auto simp del: set_map dest: less_trans)
qed (simp add: rows_sorted_def)

lemma walk_sorted: "rows_sorted results \<Longrightarrow> rows_sorted (walk F from_str dir entries results)"
  by (induction F from_str dir entries results rule: walk.induct) (auto simp: bt_insert_sorted split: option.split)

lemma collect_sorted: "rows_sorted (collect_estimates F from_str dir fs)"
proof -
  have "rows_sorted ([] :: results)" by (simp add: rows_sorted_def)
  then show ?thesis by (cases fs) (simp_all add: collect_estimates_def walk_sorted)
qed

text \<open>The group of a parameterised benchmark is not part of its name, so such benchmarks of two groups share a row.\<close>

lemma group_dropped: "n \<noteq> f \<Longrightarrow> f \<noteq> ''criterion'' \<Longrightarrow>
    bench_name [''target'', ''criterion'', grp, f, n, ''new''] = Some (f @ ''/'' @ n)"
  by (simp add: bench_name_def path_parent_def path_file_name_def)

text \<open>A benchmark outside every group gets no row.\<close>

lemma flat_skipped: "bench_name [''target'', ''criterion'', b, ''new''] = None"
  by (simp add: bench_name_def path_parent_def path_file_name_def)

section \<open>Properties\<close>

text \<open>After the tool has rewritten a README, checking it finds it up to date: updating an updated
  text with the same estimates changes nothing, so the check exits with 0 and writes nothing.\<close>

theorem check_passes_after_update:
  assumes "printable F (collect_estimates F from_str [''target'', ''criterion''] criterion)"
    and "cr \<notin> set readme" and path: "path \<noteq> ''--check''" "path \<noteq> ''--full''"
    and update: "bench_main F from_str [path] criterion (\<lambda>_. Inr readme) can_write = (0, Some (path, updated))"
  shows "bench_main F from_str [''--check'', path] criterion (\<lambda>_. Inr updated) can_write = (0, None)"
proof -
  let ?r = "collect_estimates F from_str [''target'', ''criterion''] criterion"
  have "?r \<noteq> []" "updated = update_readme_section F readme ?r"
    using update path by (auto simp: bench_main_def Let_def split: if_splits)
  then show ?thesis using update_idempotent [OF assms(1,2)] path by (simp add: bench_main_def Let_def)
qed

definition sample_floats :: Floats where
  "sample_floats = \<lparr> fl_of_number = (\<lambda>n. case n of PosInt w \<Rightarrow> w | _ \<Rightarrow> 0), fl_ge = (\<lambda>x n. n \<le> unat x),
     fl_div = (\<lambda>x n. x div of_nat n), fl_fmt3 = (\<lambda>x. ''1.000'') \<rparr>"

definition sample_json :: json where
  "sample_json = JObject
     [(''mean'', JObject [(''point_estimate'', JNumber (PosInt 5)),
        (''confidence_interval'', JObject [(''lower_bound'', JNumber (PosInt 4)), (''upper_bound'', JNumber (PosInt 6))])]),
      (''median'', JObject [(''point_estimate'', JNumber (PosInt 5))])]"

definition sample_criterion :: Fs where
  "sample_criterion = FsDir [(''g'', FsDir [(''b'', FsDir [(''new'', FsDir [(''estimates.json'', FsFile ''x'')])])])]"

lemma sample_results: "\<exists>est. collect_estimates sample_floats (\<lambda>_. Some sample_json) [''target'', ''criterion''] sample_criterion = [(''g/b'', est)]"
  by (simp add: collect_estimates_def sample_criterion_def parse_benchmark_def estimate_of_json_def sample_json_def json_path_def
      json_get_def json_as_f64_def bench_name_def path_parent_def path_file_name_def)

theorem check_passes_after_update_witness:
  "\<exists>updated. bench_main sample_floats (\<lambda>_. Some sample_json) [''README.adoc''] sample_criterion (\<lambda>_. Inr '''') (\<lambda>_ _. True)
      = (0, Some (''README.adoc'', updated)) \<and>
    bench_main sample_floats (\<lambda>_. Some sample_json) [''--check'', ''README.adoc''] sample_criterion (\<lambda>_. Inr updated) (\<lambda>_ _. True)
      = (0, None)"
proof -
  let ?run = "bench_main sample_floats (\<lambda>_. Some sample_json) [''README.adoc''] sample_criterion (\<lambda>_. Inr '''') (\<lambda>_ _. True)"
  obtain est where r: "collect_estimates sample_floats (\<lambda>_. Some sample_json) [''target'', ''criterion''] sample_criterion = [(''g/b'', est)]"
    using sample_results by blast
  have "update_readme_section sample_floats '''' [(''g/b'', est)] \<noteq> ''''" using markers(2) by (simp add: update_readme_section_def str_contains_iff Let_def)
  then have u: "?run = (0, Some (''README.adoc'', update_readme_section sample_floats '''' [(''g/b'', est)]))"
    by (simp add: bench_main_def r Let_def)
  have p: "printable sample_floats [(''g/b'', est)]" by (simp add: printable_def sample_floats_def nl_def)
  show ?thesis using u check_passes_after_update [OF _ _ _ _ u] p by (simp add: r)
qed

text \<open>A block without its end marker takes the rest of the README with it: everything after the begin
  marker is dropped and the table is the end of the file.\<close>

theorem unterminated_block_truncates:
  assumes "cr \<notin> set original" and ls: "str_lines original = before @ begin_line # rest"
    and "str_trim begin_line = MARKER_BEGIN" and "\<forall>l \<in> set before. str_trim l \<noteq> MARKER_BEGIN"
    and "\<forall>l \<in> set rest. plain_line l"
  shows "update_readme_section F original results = unlines (before @ MARKER_BEGIN # gen_line # table_lines F results)"
proof -
  have "str_contains MARKER_BEGIN begin_line" using trim_contains [of begin_line] assms(3) by simp
  then have "updated_lines F results (str_lines original) = replace_block (table_lines F results) False (str_lines original)"
    using ls by (auto simp: updated_lines_def)
  then show ?thesis
    using update_as_lines [OF assms(1)] ls assms(3) replace_block_keep [OF assms(4), of "table_lines F results" "begin_line # rest"]
      replace_block_skip [OF assms(5), of "table_lines F results" "[]"] by simp
qed

theorem unterminated_block_truncates_witness:
  "update_readme_section sample_floats (unlines [''= Rifts'', MARKER_BEGIN, ''== Licence'']) [] =
    unlines (''= Rifts'' # MARKER_BEGIN # gen_line # table_lines sample_floats [])"
proof -
  let ?ls = "[''= Rifts'', MARKER_BEGIN, ''== Licence'']"
  have "plain_line ''= Rifts''" "plain_line ''== Licence''" by (rule plain_lineI, simp, simp)+
  moreover have "\<forall>l \<in> set ?ls. line_ok l" using markers(3) by (simp add: line_ok_def nl_def cr_def)
  then have "str_lines (unlines ?ls) = [''= Rifts''] @ MARKER_BEGIN # [''== Licence'']" using str_lines_unlines [of ?ls] by simp
  moreover have "cr \<notin> set (unlines ?ls)" by (simp add: MARKER_BEGIN_def cr_def nl_def)
  ultimately show ?thesis
    using unterminated_block_truncates [of "unlines ?ls" "[''= Rifts'']" MARKER_BEGIN "[''== Licence'']" sample_floats "[]"]
    by (simp add: plain_line_def marker_trim)
qed

end
