(* ===== verification/Spec2Isabelle.thy ===== *)
theory Spec2Isabelle
  imports Server_Invariants Serving Broker_Interleaving Delivery_Order Client_Properties Redis_Properties Bench_Readme
begin

text \<open>
  Verification of rifts, a publish/subscribe messaging server and client.

  The program.  A client opens a WebSocket, sends a hello and receives welcome and ready; the
  server authenticates it and gives it a session.  Over the connection the client sends
  data frames (publishes), control frames (subscribe, unsubscribe, ping) and
  acknowledgements.  A publish goes to the broker, which validates it, looks it up in the
  deduplication store, allocates an offset, appends it to the log under the topic's
  retention policy and fans it out to the sinks of the topic's subscriptions; a sink puts
  it into the bounded outbound channel of its connection, whose writer task sends it.
  Offsets, deduplication records, log and snapshots live in stores, in memory or on a
  sled tree.  A maintenance task sweeps the stores, the sessions and the outstanding
  acknowledgements.

  The theories, bottom up, and what they model under \<open>src/\<close>:

  \<^item> \<open>Prelude\<close>: 64-bit integers and clocks, big-endian numbers, strings as UTF-8 bytes, hash
    maps as association lists, words; the lemmas all components share.  \<open>Reservations\<close>:
    compare-and-swap loops under interleaving, as a locale interpreted by the counters below.
  \<^item> \<open>Errors\<close> (\<open>rifts-core/src/error.rs\<close>, \<open>protocol/error_code.rs\<close>, \<open>protocol/close.rs\<close>), \<open>Frames\<close>
    (\<open>frame/types.rs\<close>, \<open>frame/envelope.rs\<close>), \<open>Frame_Codec\<close> (\<open>frame_codec.rs\<close>), \<open>Messages\<close>
    (\<open>message/*.rs\<close>), \<open>Protocol\<close> (\<open>protocol/version.rs\<close>, \<open>heartbeat.rs\<close>, \<open>hello.rs\<close>, \<open>config.rs\<close>,
    \<open>codec/*.rs\<close>), \<open>Metrics\<close> (\<open>metrics.rs\<close>).
  \<^item> \<open>Backpressure\<close> (\<open>flow/backpressure.rs\<close>), \<open>Topics\<close> (\<open>topic/*.rs\<close>), \<open>Ack_Manager\<close> (\<open>ack/mod.rs\<close>).
  \<^item> \<open>Storage_Keys\<close>, \<open>Storage_Engine\<close>, \<open>Offset_Store\<close>, \<open>Dedupe_Store\<close>, \<open>Log_Store\<close>, \<open>Snapshot_Store\<close>
    (\<open>rifts-storage/src/*.rs\<close>): each store in memory and over the engine.  The sled crate is a
    record of tree operations with the hypothesis \<open>sled_tree_ok\<close>; the derived serialisers are
    a record with the hypothesis \<open>serde_ok\<close>.
  \<^item> \<open>Sessions\<close>, \<open>Auth\<close> (\<open>rifts-session/src/session/*.rs\<close>).
  \<^item> \<open>Fanout\<close> (\<open>rifts-broker/src/broker/fanout.rs\<close>, \<open>fanout/conn_sink.rs\<close>), \<open>Broker\<close>
    (\<open>broker/memory_broker.rs\<close>, \<open>router.rs\<close>, \<open>broker.rs\<close>), \<open>Broker_History\<close> (the contract of the
    stores and the history of a broker), \<open>Broker_Properties\<close>, \<open>Broker_Interleaving\<close> (a publish as its awaits,
    \<open>publish_enter\<close> and \<open>publish_advance\<close>, and \<open>pool_apply\<close>, which interleaves any number of them with the other calls).
  \<^item> \<open>Json_Lib\<close> (the JSON and CBOR libraries, a record with the hypothesis \<open>reads_back\<close>),
    \<open>Connection\<close> (\<open>rifts-broker/src/connection/control.rs\<close>, \<open>reader.rs\<close>, \<open>writer.rs\<close>, teardown of
    \<open>mod.rs\<close>), \<open>Handshake\<close> (\<open>connection/mod.rs\<close>), \<open>Connection_Properties\<close>, \<open>Delivery_Order\<close> (the writer over a
    WebSocket, up to what the peer reads).
  \<^item> \<open>Transports\<close> (\<open>rifts-transport/src/transport/*.rs\<close>): reading, writing and closing of the
    WebSocket, axum and warp connections and of the channel bridge of actix-web and ntex.
  \<^item> \<open>Server\<close> (\<open>rifts/src/server.rs\<close>, \<open>Connection::new\<close> and \<open>run\<close>), \<open>Server_Demo\<close> (a concrete run),
    \<open>Server_Invariants\<close>, \<open>Serving\<close> (\<open>RiftServer::run\<close> with the WebSocket listener of
    \<open>transport/websocket.rs\<close>, and \<open>run_maintenance\<close> between its awaits; the outcome of TCP calls and of the
    opening handshake are events and a parameter with the hypothesis \<open>ws_limit_ok\<close>).
  \<^item> \<open>Client\<close> (\<open>rifts-client/src/*.rs\<close>), \<open>Client_Server\<close> (each side reading the frames of the other),
    \<open>Client_Properties\<close>.
  \<^item> \<open>Redis_Stores\<close> (\<open>rifts-redis/src/connection.rs\<close>, \<open>storage/*.rs\<close>), \<open>Redis_Broker\<close> (\<open>broker.rs\<close>,
    \<open>fanout.rs\<close>), \<open>Redis_Properties\<close>.  The Redis server is a record of the commands the stores send
    with the hypothesis \<open>redis_ok\<close>, stated over a view of its keys; \<open>view_redis\<close> satisfies it.  A
    publish is given whole (\<open>RedisActorBroker_publish\<close>) and as its separate awaits (\<open>publish_step\<close>),
    and \<open>cluster_apply\<close> interleaves the awaits of any number of instances on one server.
  \<^item> \<open>Bench_Readme\<close> (\<open>rifts/examples/update_benchmark_readme.rs\<close>): the tool that writes benchmark
    results into the README.

  Conventions.  A struct is a record with a field prefix, an enum a datatype, a method
  \<open>Type::method\<close> a definition \<open>Type_method\<close>.  Integers keep their width: \<open>u16\<close> to \<open>usize\<close> are words,
  \<open>i64\<close> is an integer with the wrap-around written out; durations are milliseconds.  Errors are
  values of a sum.  The clock and random ids are arguments.  State is passed explicitly: a
  broker operation is one step, but for \<open>Broker_Interleaving\<close>, where a publish is its awaits; the tasks of the server interleave as steps of
  \<open>server_step\<close> (an accept, the start of a connection's task, one iteration of a reader or a
  writer, a sweep), and \<open>server_reach\<close> holds of the states they reach while the 64-bit
  counters of subscriptions and connections have not wrapped.  Compare-and-swap loops
  are a single pass in the sequential definitions and interleaved in \<open>Reservations\<close>.
  Channels, sinks and sockets are values addressed by id.

  The contracts are locales: the atomic counter (\<open>Reservations\<close>), the storage engine, the offset,
  deduplication, log and snapshot stores, the four stores together as the broker uses
  them, and the transport; each is interpreted on the modelled implementations, and the
  sled stores satisfy them for every tree with \<open>sled_tree_ok\<close>, the Redis offset and log
  stores for every server with \<open>redis_ok\<close>.

  What is shown.
  \<^item> Codec: binary round trip, canonical decoding and the exact set of accepted buffers.
  \<^item> Stores: gap-free offsets, once-per-window deduplication, exact replay, snapshots until
    expiry, retention; survival of a restart and equivalence with the memory stores on sled;
    isolation of the key spaces.
  \<^item> Concurrency: slot and byte counters never pass their limits under any interleaving.
  \<^item> Fan-out: the three indexes implement a map of subscriptions, delivery is exact.
  \<^item> Broker: after any sequence of operations replay returns exactly the accepted messages, a
    message is delivered once per window, subscriber slots are exact; a broker on sled
    survives a restart.  Under any interleaving of publishes the offsets are distinct and gap-free, nothing
    logged is lost or repeated, a message passes the duplicate check once, and publishes that follow each
    other keep their order.
  \<^item> Connection: the peer reads what was queued for it, first in, first out.
  \<^item> Server: in every reachable state no subscription outlives its connection and the
    gauge of connections is exact.
  \<^item> Client and server: the handshake ends with both sides agreeing on session, epoch and
    settings; reconnection ends after the configured attempts.
  \<^item> Sessions, acknowledgements and tokens: the resume decision, expiry, accounting and
    revocation are exact.
  \<^item> Redis: under every interleaving of instances offsets are distinct and gap-free, an
    acknowledged publish replays, the keys keep their types; a publish is its awaits in order;
    snapshots survive the encoding in a hash.
  \<^item> Serving: exactly which frames the socket limit of a built server lets through, and exactly which
    shutdown notifications stop the maintenance task.
  \<^item> Benchmark tool: a README it has updated passes its check.
  \<^item> Defects, as theorems: publisher slots leak, replies unbalance the byte counter, writes wait
    for reads, concurrent publishes are delivered against their offsets, any connection can end any
    subscription, a burst of accepts passes the connection limit, resumption never succeeds, snapshots are never captured, the client's
    publishes are ignored, its heartbeat never fires; on Redis a publisher's subscribers get a
    message twice, an outage drops messages silently and duplicate keys of topics collide; a block
    without its end marker truncates the README.

  Bounds and fuel.  Only the compare-and-swap loop of the sled deduplication store takes fuel; one
  pass is enough on well-formed records, and a record shorter than eight bytes makes it run
  forever.  The loop of \<open>await_handshake\<close> and the reader of the client run over the items a socket
  yields; reconnection runs over its configured number of attempts.

  A sorted set of Redis holds scores as doubles, so the runs of \<open>Redis_Properties\<close> are bounded by
  \<open>2 ^ 53\<close> steps.

  Not modelled.  TCP sockets and TLS, of which only outcomes appear; the derived serialisers, \<open>serde_json\<close>,
  \<open>ciborium\<close>, sled, Redis, the WebSocket library and floating-point arithmetic, which are parameters; peer
  addresses; logging and printing; the benchmarks, the integration tests and the other two
  examples, which only call operations modelled here.
\<close>

end
